(* ===== verification/Go_Prelude.thy ===== *)
theory Go_Prelude
  imports "HOL-Library.Word" "HOL-Library.Monad_Syntax" "HOL-Library.Multiset"
    "HOL-Library.List_Lexorder" "HOL-Library.Char_ord"
begin

text \<open>
  What the components share: names for the Go types, the parts of the Go standard library the
  sources use (hexadecimal and decimal text, byte comparison, sorting), and generic lemmas on
  options, lists and words. Go strings and byte slices are both sequences of bytes: a Go
  \<^verbatim>\<open>string\<close> is a HOL \<^typ>\<open>string\<close> (one \<^typ>\<open>char\<close> per byte), a \<^verbatim>\<open>[]byte\<close> is a list of
  8-bit words. Unsigned machine integers are words of their width.
\<close>

type_synonym u8 = "8 word"
type_synonym u16 = "16 word"
type_synonym u32 = "32 word"
type_synonym u64 = "64 word"
type_synonym bytes = "8 word list"

named_theorems go_text \<open>facts on Go strings and hexadecimal text\<close>
named_theorems bind_simps \<open>inversion of sequenced computations\<close>

subsection \<open>Options and sums\<close>

text \<open>The value of a computation that may fail, given a continuation: the
  \<^verbatim>\<open>if err != nil { return err }\<close> idiom.\<close>

definition ebind :: "'e + 'a \<Rightarrow> ('a \<Rightarrow> 'e + 'b) \<Rightarrow> 'e + 'b" where
  "ebind m k = (case m of Inl e \<Rightarrow> Inl e | Inr x \<Rightarrow> k x)"

definition of_option :: "'e \<Rightarrow> 'a option \<Rightarrow> 'e + 'a" where
  "of_option e m = (case m of None \<Rightarrow> Inl e | Some x \<Rightarrow> Inr x)"

definition is_ok :: "'e + 'a \<Rightarrow> bool" where
  "is_ok m = (case m of Inl _ \<Rightarrow> False | Inr _ \<Rightarrow> True)"

lemma ebind_simps [simp]:
  "ebind (Inl e) k = Inl e"
  "ebind (Inr x) k = k x"
  by (simp_all add: ebind_def)

lemma ebind_eq_Inr [bind_simps]:
  "ebind m k = Inr y \<longleftrightarrow> (\<exists>x. m = Inr x \<and> k x = Inr y)"
  by (cases m) auto

lemma ebind_eq_Inl:
  "ebind m k = Inl e \<longleftrightarrow> m = Inl e \<or> (\<exists>x. m = Inr x \<and> k x = Inl e)"
  by (cases m) auto

lemma of_option_simps [simp]:
  "of_option e None = Inl e"
  "of_option e (Some x) = Inr x"
  by (simp_all add: of_option_def)

lemma of_option_eq_Inr [bind_simps]: "of_option e m = Inr y \<longleftrightarrow> m = Some y"
  by (cases m) auto

lemma is_ok_simps [simp]: "\<not> is_ok (Inl e)" "is_ok (Inr x)"
  by (simp_all add: is_ok_def)

lemma is_ok_iff: "is_ok m \<longleftrightarrow> (\<exists>x. m = Inr x)"
  by (cases m) auto

declare Option.bind_eq_Some_conv [bind_simps]

subsection \<open>Bytes and text\<close>

text \<open>\<^verbatim>\<open>[]byte(s)\<close> and \<^verbatim>\<open>string(b)\<close>.\<close>

definition str_bytes :: "string \<Rightarrow> bytes" where
  "str_bytes s = map of_char s"

definition bytes_str :: "bytes \<Rightarrow> string" where
  "bytes_str b = map (\<lambda>w. char_of (unat w)) b"

definition zero_bytes :: "nat \<Rightarrow> bytes" where
  "zero_bytes n = replicate n 0"

text \<open>\<^verbatim>\<open>strings.HasPrefix\<close> and \<^verbatim>\<open>strings.TrimPrefix\<close>.\<close>

fun has_prefix :: "'a list \<Rightarrow> 'a list \<Rightarrow> bool" where
  "has_prefix s [] = True"
| "has_prefix [] (p # ps) = False"
| "has_prefix (x # xs) (p # ps) = (x = p \<and> has_prefix xs ps)"

definition has_suffix :: "'a list \<Rightarrow> 'a list \<Rightarrow> bool" where
  "has_suffix s p = has_prefix (rev s) (rev p)"

definition trim_prefix :: "'a list \<Rightarrow> 'a list \<Rightarrow> 'a list" where
  "trim_prefix s p = (if has_prefix s p then drop (length p) s else s)"

lemma has_prefix_iff [go_text]: "has_prefix s p \<longleftrightarrow> (\<exists>r. s = p @ r)"
  by (induction s p rule: has_prefix.induct) auto

lemma has_prefix_append [simp]: "has_prefix (p @ r) p"
  by (auto simp: has_prefix_iff)

lemma has_suffix_append [simp]: "has_suffix (r @ p) p"
  by (simp add: has_suffix_def)

lemma trim_prefix_append [simp]: "trim_prefix (p @ r) p = r"
  by (simp add: trim_prefix_def)

lemma length_str_bytes [simp]: "length (str_bytes s) = length s"
  by (simp add: str_bytes_def)

lemma length_bytes_str [simp]: "length (bytes_str b) = length b"
  by (simp add: bytes_str_def)

lemma unat_of_char: "unat (of_char c :: u8) = of_char c"
proof -
  have "(of_char c :: nat) < 256" by (rule nat_of_char_less_256)
  moreover have "(of_char c :: u8) = of_nat (of_char c)"
    by (rule of_nat_of_char [symmetric])
  ultimately show ?thesis by (simp add: unat_of_nat)
qed

lemma bytes_str_str_bytes [simp]: "bytes_str (str_bytes s) = s"
  by (simp add: bytes_str_def str_bytes_def comp_def unat_of_char map_idI)

lemma str_bytes_bytes_str [simp]: "str_bytes (bytes_str b) = b"
proof -
  have "(of_char (char_of (unat w) :: char) :: u8) = w" for w :: u8
  proof -
    have "unat w < 256" using unsigned_less [of w, where ?'a = nat] by simp
    then have "(of_char (char_of (unat w) :: char) :: nat) = unat w" by simp
    then have "unat (of_char (char_of (unat w) :: char) :: u8) = unat w"
      by (simp add: unat_of_char)
    then show ?thesis by (simp add: word_unat_eq_iff)
  qed
  then show ?thesis by (simp add: bytes_str_def str_bytes_def comp_def map_idI)
qed

lemma str_bytes_inj: "str_bytes s = str_bytes t \<longleftrightarrow> s = t"
  by (metis bytes_str_str_bytes)

subsection \<open>Hexadecimal text: \<^verbatim>\<open>encoding/hex\<close>\<close>

text \<open>\<^verbatim>\<open>hex.EncodeToString\<close> writes lower case; \<^verbatim>\<open>hex.DecodeString\<close> reads both cases and
  refuses an odd length and every other character.\<close>

definition hex_digit :: "nat \<Rightarrow> char" where
  "hex_digit n = ''0123456789abcdef'' ! n"

definition unhex :: "char \<Rightarrow> nat option" where
  "unhex c =
     (let n = of_char c in
      if 48 \<le> n \<and> n \<le> 57 then Some (n - 48)
      else if 97 \<le> n \<and> n \<le> 102 then Some (n - 87)
      else if 65 \<le> n \<and> n \<le> 70 then Some (n - 55)
      else None)"

fun hex_encode :: "bytes \<Rightarrow> string" where
  "hex_encode [] = []"
| "hex_encode (w # ws) = hex_digit (unat w div 16) # hex_digit (unat w mod 16) # hex_encode ws"

fun hex_decode :: "string \<Rightarrow> bytes option" where
  "hex_decode [] = Some []"
| "hex_decode [c] = None"
| "hex_decode (c # d # s) =
     do {
       h \<leftarrow> unhex c;
       l \<leftarrow> unhex d;
       r \<leftarrow> hex_decode s;
       Some (of_nat (16 * h + l) # r)
     }"

lemma upto_16: "n < 16 \<Longrightarrow> n \<in> {0, 1, 2, 3, 4, 5, 6, 7, 8, 9, 10, 11, 12, 13, 14, 15 :: nat}"
  by (simp; presburger)

lemma unhex_hex_digit [simp]: "n < 16 \<Longrightarrow> unhex (hex_digit n) = Some n"
  by (drule upto_16) (auto simp: hex_digit_def unhex_def)

lemma unat_u8_less: "unat (w :: u8) < 256"
  using unsigned_less [of w, where ?'a = nat] by simp

lemma hex_decode_encode [simp]: "hex_decode (hex_encode b) = Some b"
proof (induction b)
  case Nil
  then show ?case by simp
next
  case (Cons w ws)
  have "unat w div 16 < 16" using unat_u8_less [of w] by (simp add: less_mult_imp_div_less)
  moreover have "unat w mod 16 < 16" by simp
  moreover have "of_nat (16 * (unat w div 16) + unat w mod 16) = w" by simp
  ultimately show ?case using Cons by (simp only: hex_encode.simps hex_decode.simps
      unhex_hex_digit Option.bind.bind_lunit)
qed

lemma hex_encode_inj [go_text]: "hex_encode a = hex_encode b \<longleftrightarrow> a = b"
  by (metis hex_decode_encode option.inject)

lemma length_hex_encode [simp]: "length (hex_encode b) = 2 * length b"
  by (induction b) auto

lemma hex_decode_length: "hex_decode s = Some b \<Longrightarrow> length s = 2 * length b"
  by (induction s arbitrary: b rule: hex_decode.induct) (auto simp: bind_simps)

text \<open>\<^verbatim>\<open>strings.ToLower\<close> on the ASCII letters. The components lower only strings that they
  decode as hexadecimal afterwards, which refuses every other byte whatever \<^verbatim>\<open>ToLower\<close> makes of it.\<close>

definition ToLower :: "string \<Rightarrow> string" where
  "ToLower v = map (\<lambda>c. if 65 \<le> (of_char c :: nat) \<and> (of_char c :: nat) \<le> 90
                        then char_of ((of_char c :: nat) + 32) else c) v"

lemma ToLower_append [simp]: "ToLower (a @ b) = ToLower a @ ToLower b"
  by (simp add: ToLower_def)

lemma length_ToLower [simp]: "length (ToLower v) = length v"
  by (simp add: ToLower_def)

lemma hex_digit_lower: "n < 16 \<Longrightarrow> ToLower [hex_digit n] = [hex_digit n]"
  by (drule upto_16) (auto simp: ToLower_def hex_digit_def)

lemma ToLower_hex_encode [simp]: "ToLower (hex_encode b) = hex_encode b"
proof (induction b)
  case (Cons w b)
  have d: "unat w div 16 < 16" "unat w mod 16 < 16"
    using unat_u8_less [of w] by (simp_all add: less_mult_imp_div_less)
  have "ToLower (hex_encode (w # b)) =
      ToLower [hex_digit (unat w div 16)] @ ToLower [hex_digit (unat w mod 16)] @ ToLower (hex_encode b)"
    by (simp add: ToLower_def)
  then show ?case unfolding hex_digit_lower [OF d(1)] hex_digit_lower [OF d(2)] Cons by simp
qed (simp add: ToLower_def)

lemma of_char_hex_digit: "n < 16 \<Longrightarrow> (of_char (hex_digit n) :: nat) = (if n < 10 then 48 + n else 87 + n)"
  by (drule upto_16) (auto simp: hex_digit_def)

lemma lower_unhex:
  assumes "unhex c = Some n" and "ToLower [c] = [c]"
  shows "n < 16 \<and> c = hex_digit n"
proof (cases "65 \<le> (of_char c :: nat) \<and> (of_char c :: nat) \<le> 90")
  case True
  then have "of_char (char_of ((of_char c :: nat) + 32) :: char) = (of_char c :: nat) + 32" by simp
  moreover have "char_of ((of_char c :: nat) + 32) = c" using assms(2) True by (simp add: ToLower_def)
  ultimately show ?thesis by simp
next
  case False
  then have n: "n < 16" "(of_char c :: nat) = (if n < 10 then 48 + n else 87 + n)"
    using assms(1) by (auto simp: unhex_def Let_def split: if_splits)
  then have "(of_char c :: nat) = of_char (hex_digit n)" by (simp only: of_char_hex_digit)
  then show ?thesis using n(1) by simp
qed

lemma hex_decode_lower:
  "hex_decode s = Some b \<Longrightarrow> ToLower s = s \<Longrightarrow> s = hex_encode b"
proof (induction s arbitrary: b rule: hex_decode.induct)
  case (3 c d s)
  obtain h l r where hl: "unhex c = Some h" "unhex d = Some l" "hex_decode s = Some r"
    "b = of_nat (16 * h + l) # r" using 3(2) by (auto simp: bind_simps)
  have low: "ToLower [c] = [c]" "ToLower [d] = [d]" "ToLower s = s"
    using 3(3) by (simp_all add: ToLower_def)
  have n: "h < 16" "c = hex_digit h" "l < 16" "d = hex_digit l"
    using lower_unhex [OF hl(1) low(1)] lower_unhex [OF hl(2) low(2)] by auto
  have "unat (of_nat (16 * h + l) :: u8) = 16 * h + l"
    by (subst unat_of_nat) (use n in simp)
  then show ?case using 3(1) [OF hl(1,2,3)] 3(1) hl n low(3) by simp
qed (simp_all)

subsection \<open>Decimal text: \<^verbatim>\<open>strconv\<close> and \<^verbatim>\<open>math/big\<close>\<close>

text \<open>The decimal digits of a natural number, no leading zero, as \<^verbatim>\<open>big.Int.String\<close> and
  \<^verbatim>\<open>strconv.FormatUint\<close> print it, and the value of a digit string.\<close>

definition dec_digit :: "nat \<Rightarrow> char" where
  "dec_digit n = char_of (48 + n)"

definition is_dec_digit :: "char \<Rightarrow> bool" where
  "is_dec_digit c = (48 \<le> (of_char c :: nat) \<and> (of_char c :: nat) \<le> 57)"

fun dec_string :: "nat \<Rightarrow> string" where
  "dec_string n = (if n < 10 then [dec_digit n] else dec_string (n div 10) @ [dec_digit (n mod 10)])"

declare dec_string.simps [simp del]

definition dec_value :: "string \<Rightarrow> nat" where
  "dec_value s = foldl (\<lambda>a c. 10 * a + (of_char c - 48)) 0 s"

text \<open>The pattern \<^verbatim>\<open>^(0|[1-9][0-9]*)$\<close>: one encoding per value.\<close>

definition canonical_dec :: "string \<Rightarrow> bool" where
  "canonical_dec s =
     (list_all is_dec_digit s \<and> s \<noteq> [] \<and> (hd s = CHR ''0'' \<longrightarrow> s = [CHR ''0'']))"

lemma of_char_dec_digit [simp]: "n < 10 \<Longrightarrow> (of_char (dec_digit n) :: nat) = 48 + n"
  by (simp add: dec_digit_def)

lemma is_dec_digit_dec_digit [simp]: "n < 10 \<Longrightarrow> is_dec_digit (dec_digit n)"
  by (simp add: is_dec_digit_def)

lemma dec_value_snoc [simp]: "dec_value (s @ [c]) = 10 * dec_value s + (of_char c - 48)"
  by (simp add: dec_value_def)

lemma dec_value_Nil [simp]: "dec_value [] = 0"
  by (simp add: dec_value_def)

lemma dec_value_dec_string [simp]: "dec_value (dec_string n) = n"
proof (induction n rule: dec_string.induct)
  case (1 n)
  show ?case
  proof (cases "n < 10")
    case True
    then show ?thesis by (subst dec_string.simps) (simp add: dec_value_def)
  next
    case False
    with "1.IH" show ?thesis by (subst dec_string.simps) simp
  qed
qed

lemma dec_string_inj [go_text]: "dec_string m = dec_string n \<longleftrightarrow> m = n"
  by (metis dec_value_dec_string)

lemma dec_string_digits: "list_all is_dec_digit (dec_string n) \<and> dec_string n \<noteq> []"
proof (induction n rule: dec_string.induct)
  case (1 n)
  then show ?case by (cases "n < 10") (simp_all add: dec_string.simps [of n])
qed

lemma dec_digit_of_char: "is_dec_digit c \<Longrightarrow> dec_digit (of_char c - 48) = c"
  by (simp add: dec_digit_def is_dec_digit_def)

lemma dec_value_pos:
  "canonical_dec s \<Longrightarrow> s \<noteq> [CHR ''0''] \<Longrightarrow> 0 < dec_value s"
proof (induction s rule: rev_induct)
  case Nil
  then show ?case by (simp add: canonical_dec_def)
next
  case (snoc c s)
  show ?case
  proof (cases "s = []")
    case True
    have "c \<noteq> CHR ''0''" using snoc.prems True by auto
    moreover have "is_dec_digit c" using snoc.prems by (simp add: canonical_dec_def)
    moreover have "(of_char c :: nat) \<noteq> of_char CHR ''0''"
      using \<open>c \<noteq> CHR ''0''\<close> by (simp only: of_char_eq_iff not_False_eq_True)
    ultimately show ?thesis using True by (simp add: is_dec_digit_def dec_value_def)
  next
    case False
    then have "canonical_dec s \<and> s \<noteq> [CHR ''0'']"
      using snoc.prems by (auto simp: canonical_dec_def hd_append)
    with snoc.IH show ?thesis by simp
  qed
qed

lemma dec_string_dec_value:
  "canonical_dec s \<Longrightarrow> dec_string (dec_value s) = s"
proof (induction s rule: rev_induct)
  case Nil
  then show ?case by (simp add: canonical_dec_def)
next
  case (snoc c s)
  have c: "is_dec_digit c" using snoc.prems by (simp add: canonical_dec_def)
  then have d: "(of_char c :: nat) - 48 < 10" unfolding is_dec_digit_def by arith
  show ?case
  proof (cases "s = []")
    case True
    with c d show ?thesis
      by (subst dec_string.simps) (simp add: dec_value_def dec_digit_of_char)
  next
    case False
    then have s: "canonical_dec s" "s \<noteq> [CHR ''0'']"
      using snoc.prems by (auto simp: canonical_dec_def hd_append)
    let ?v = "10 * dec_value s + ((of_char c :: nat) - 48)"
    have "\<not> ?v < 10" using dec_value_pos [OF s] by simp
    moreover have "?v div 10 = dec_value s" "?v mod 10 = of_char c - 48" using d by simp_all
    ultimately show ?thesis
      using snoc.IH [OF s(1)] c by (subst dec_string.simps) (simp add: dec_digit_of_char)
  qed
qed

lemma canonical_dec_string: "canonical_dec (dec_string n)"
proof (induction n rule: dec_string.induct)
  case (1 n)
  show ?case
  proof (cases "n < 10")
    case True
    then show ?thesis by (subst dec_string.simps) (auto simp: canonical_dec_def dec_string_digits)
  next
    case False
    with "1.IH" have IH: "canonical_dec (dec_string (n div 10))" by simp
    have "dec_string (n div 10) \<noteq> [CHR ''0'']"
    proof
      assume "dec_string (n div 10) = [CHR ''0'']"
      then have "dec_value (dec_string (n div 10)) = dec_value [CHR ''0'']" by simp
      then have "n div 10 = 0" by (simp add: dec_value_def [of "[_]"])
      with False show False by simp
    qed
    with False IH show ?thesis
      by (subst dec_string.simps) (auto simp: canonical_dec_def hd_append)
  qed
qed

text \<open>\<^verbatim>\<open>strings.TrimSpace\<close>: it removes the encodings of the Unicode spaces at both ends. A rune
  is read at the front or at the end of the text exactly when its encoding is a prefix or a suffix.
  \<^verbatim>\<open>strconv.ParseUint\<close> is used in base ten at 64 bits.\<close>

definition space_runes :: "nat list list" where
  "space_runes = map (\<lambda>n. [n]) [9, 10, 11, 12, 13, 32] @ map (\<lambda>n. [0xC2, n]) [0x85, 0xA0] @ [[0xE1, 0x9A, 0x80]] @
     map (\<lambda>n. [0xE2, 0x80, n]) ([0x80..<0x8B] @ [0xA8, 0xA9, 0xAF]) @ [[0xE2, 0x81, 0x9F], [0xE3, 0x80, 0x80]]"

function trim_runes :: "nat list list \<Rightarrow> string \<Rightarrow> string" where
  "trim_runes rs s =
     (case find (\<lambda>r. r \<noteq> [] \<and> has_prefix (map of_char s) r) rs of
        None \<Rightarrow> s
      | Some r \<Rightarrow> trim_runes rs (drop (length r) s))"
  by pat_completeness auto

termination
proof (relation "measure (\<lambda>(rs, s). length s)", goal_cases)
  case (2 rs s r)
  then have "r \<noteq> []" "has_prefix (map of_char s) r" by (auto simp: find_Some_iff)
  then show ?case by (cases s; cases r) auto
qed simp

declare trim_runes.simps [simp del]

definition trim_space :: "string \<Rightarrow> string" where
  "trim_space s = rev (trim_runes (map rev space_runes) (rev (trim_runes space_runes s)))"

definition ParseUint64 :: "string \<Rightarrow> u64 option" where
  "ParseUint64 s = (if s \<noteq> [] \<and> list_all is_dec_digit s \<and> dec_value s < 2 ^ 64
                    then Some (of_nat (dec_value s)) else None)"

text \<open>A printable ASCII character starts and ends no space.\<close>

definition graphic :: "char \<Rightarrow> bool" where
  "graphic c = (33 \<le> (of_char c :: nat) \<and> (of_char c :: nat) \<le> 127)"

lemma trim_runes_stop:
  "(\<And>r. r \<in> set rs \<Longrightarrow> r \<noteq> [] \<Longrightarrow> \<not> has_prefix (map of_char s) r) \<Longrightarrow> trim_runes rs s = s"
  by (subst trim_runes.simps) (auto split: option.split simp: find_Some_iff)

lemma space_runes_ends:
  assumes "r \<in> set space_runes"
  shows "r \<noteq> [] \<and> \<not> (33 \<le> hd r \<and> hd r \<le> 127) \<and> \<not> (33 \<le> last r \<and> last r \<le> 127)"
  using assms unfolding space_runes_def by (auto simp: upt_def)

lemma trim_runes_graphic:
  assumes "s = [] \<or> graphic (hd s)" and "\<And>r. r \<in> set rs \<Longrightarrow> \<not> (33 \<le> hd r \<and> hd r \<le> 127)"
  shows "trim_runes rs s = s"
proof (rule trim_runes_stop)
  fix r assume r: "r \<in> set rs" "r \<noteq> []"
  from assms(2) [OF r(1)] assms(1) r(2) show "\<not> has_prefix (map of_char s) r"
    by (cases s; cases r) (auto simp: graphic_def)
qed

lemma trim_front: "s = [] \<or> graphic (hd s) \<Longrightarrow> trim_runes space_runes s = s"
  using space_runes_ends by (intro trim_runes_graphic) auto

lemma trim_back: "s = [] \<or> graphic (last s) \<Longrightarrow> trim_runes (map rev space_runes) (rev s) = rev s"
  using space_runes_ends by (intro trim_runes_graphic) (auto simp: hd_rev)

lemma trim_space_graphic: "s = [] \<or> graphic (hd s) \<and> graphic (last s) \<Longrightarrow> trim_space s = s"
  using trim_back [of s] by (auto simp: trim_space_def trim_front)

lemma graphic_digit: "is_dec_digit c \<Longrightarrow> graphic c"
  by (simp add: is_dec_digit_def graphic_def)

lemma trim_space_digits: "list_all is_dec_digit s \<Longrightarrow> trim_space s = s"
  by (cases "s = []") (auto intro!: trim_space_graphic graphic_digit simp: list_all_iff)

lemma trim_space_digits_nl:
  assumes "list_all is_dec_digit s" "s \<noteq> []"
  shows "trim_space (s @ [CHR 0x0A]) = s"
proof -
  have h: "graphic (hd s)" "graphic (last s)" using assms by (auto intro!: graphic_digit simp: list_all_iff)
  have "find (\<lambda>r. r \<noteq> [] \<and> has_prefix (map of_char (CHR 0x0A # rev s)) r) (map rev space_runes) = Some [10]"
    by (simp add: space_runes_def)
  then have "trim_runes (map rev space_runes) (rev (s @ [CHR 0x0A])) = trim_runes (map rev space_runes) (rev s)"
    by (subst trim_runes.simps) simp
  then show ?thesis
    using trim_front [of "s @ [CHR 0x0A]"] trim_back [of s] h assms(2) by (simp add: trim_space_def)
qed

text \<open>\<^verbatim>\<open>strings.Join\<close>, \<^verbatim>\<open>strconv.FormatInt\<close> in base ten, and the pattern \<^verbatim>\<open>[0-9a-f]{64}\<close>.\<close>

fun join :: "'a list \<Rightarrow> 'a list list \<Rightarrow> 'a list" where
  "join sep [] = []"
| "join sep [x] = x"
| "join sep (x # y # ys) = x @ sep @ join sep (y # ys)"

definition format_int :: "int \<Rightarrow> string" where
  "format_int i = (if i < 0 then CHR ''-'' # dec_string (nat (- i)) else dec_string (nat i))"

text \<open>\<^verbatim>\<open>big.Int.SetString\<close> in base ten: an optional sign and at least one digit.\<close>

definition SetString10 :: "string \<Rightarrow> int option" where
  "SetString10 s =
     (let neg = (s \<noteq> [] \<and> hd s = CHR ''-'');
          digits = (if s \<noteq> [] \<and> (hd s = CHR ''-'' \<or> hd s = CHR ''+'') then tl s else s) in
      if digits = [] \<or> \<not> list_all is_dec_digit digits then None
      else Some (if neg then - int (dec_value digits) else int (dec_value digits)))"

definition is_lower_hex :: "char \<Rightarrow> bool" where
  "is_lower_hex c =
     (let n = (of_char c :: nat) in (48 \<le> n \<and> n \<le> 57) \<or> (97 \<le> n \<and> n \<le> 102))"

definition lower_hex :: "nat \<Rightarrow> string \<Rightarrow> bool" where
  "lower_hex n s = (length s = n \<and> list_all is_lower_hex s)"

definition prefixed_hex64 :: "string \<Rightarrow> string \<Rightarrow> bool" where
  "prefixed_hex64 p s = (has_prefix s p \<and> lower_hex 64 (drop (length p) s))"

lemma lower_hex_replicate [simp]: "lower_hex n (replicate n c) \<longleftrightarrow> n = 0 \<or> is_lower_hex c"
  by (auto simp: lower_hex_def list_all_iff)

subsection \<open>Base64 text: \<^verbatim>\<open>encoding/base64\<close>\<close>

text \<open>\<^verbatim>\<open>base64.StdEncoding.DecodeString\<close>: carriage returns and line feeds are skipped, the rest comes
  in groups of four characters of which only the last may be padded; the unused bits of a padded
  group are ignored.\<close>

definition unbase64 :: "char \<Rightarrow> nat option" where
  "unbase64 c =
     (let n = of_char c in
      if 65 \<le> n \<and> n \<le> 90 then Some (n - 65)
      else if 97 \<le> n \<and> n \<le> 122 then Some (n - 71)
      else if 48 \<le> n \<and> n \<le> 57 then Some (n + 4)
      else if c = CHR ''+'' then Some 62
      else if c = CHR ''/'' then Some 63
      else None)"

fun base64_groups :: "string \<Rightarrow> bytes option" where
  "base64_groups [] = Some []"
| "base64_groups [a, b, c, d] =
     do {
       x \<leftarrow> unbase64 a;
       y \<leftarrow> unbase64 b;
       if c = CHR ''='' \<and> d = CHR ''='' then Some [of_nat (4 * x + y div 16)]
       else do {
         z \<leftarrow> unbase64 c;
         if d = CHR ''='' then Some [of_nat (4 * x + y div 16), of_nat (16 * (y mod 16) + z div 4)]
         else do {
           w \<leftarrow> unbase64 d;
           Some [of_nat (4 * x + y div 16), of_nat (16 * (y mod 16) + z div 4), of_nat (64 * (z mod 4) + w)]
         }
       }
     }"
| "base64_groups (a # b # c # d # e # s) =
     do {
       x \<leftarrow> unbase64 a;
       y \<leftarrow> unbase64 b;
       z \<leftarrow> unbase64 c;
       w \<leftarrow> unbase64 d;
       r \<leftarrow> base64_groups (e # s);
       Some ([of_nat (4 * x + y div 16), of_nat (16 * (y mod 16) + z div 4), of_nat (64 * (z mod 4) + w)] @ r)
     }"
| "base64_groups _ = None"

definition base64_decode :: "string \<Rightarrow> bytes option" where
  "base64_decode s = base64_groups (filter (\<lambda>c. (of_char c :: nat) \<noteq> 10 \<and> (of_char c :: nat) \<noteq> 13) s)"

subsection \<open>Machine integers\<close>

lemma unat_u64_less: "unat (w :: u64) < 2 ^ 64"
  using unsigned_less [of w, where ?'a = nat] by simp

lemma unat_of_nat_u64: "n < 2 ^ 64 \<Longrightarrow> unat (of_nat n :: u64) = n"
  by (simp add: unat_of_nat)

lemma unat_of_nat_u32: "n < 2 ^ 32 \<Longrightarrow> unat (of_nat n :: u32) = n"
  by (simp add: unat_of_nat)

lemma unat_add_u64: "unat a + unat b < 2 ^ 64 \<Longrightarrow> unat (a + b :: u64) = unat a + unat b"
  using unat_add_lem [of a b] by simp

lemma unat_mult_u64: "unat a * unat b < 2 ^ 64 \<Longrightarrow> unat (a * b :: u64) = unat a * unat b"
  using unat_mult_lem [of a b] by simp

lemma unat_minus_one_u64: "unat (- 1 :: u64) = 2 ^ 64 - 1"
  by (simp add: unsigned_minus_1_eq_mask mask_eq_exp_minus_1)

subsection \<open>Times: \<^verbatim>\<open>time\<close>\<close>

text \<open>Times are nanoseconds since the Unix epoch; \<^verbatim>\<open>Unix()\<close> is the floor in seconds and the zero
  \<^verbatim>\<open>time.Time\<close> is the first of January of year one.\<close>

definition Unix :: "int \<Rightarrow> int" where
  "Unix t = t div 1000000000"

definition zero_time :: int where
  "zero_time = - 62135596800 * 1000000000"

definition Minute :: int where
  "Minute = 60 * 1000000000"

text \<open>\<^verbatim>\<open>time.Unix(int64(t), 0)\<close>: the seconds are kept relative to year one in 64 bits, so they wrap
  for the last two thousand years of that range.\<close>

definition time_unix :: "u64 \<Rightarrow> int" where
  "time_unix t = (sint (t + 62135596800) - 62135596800) * 1000000000"

end
