(* ===== verification/Economic.thy ===== *)
theory Economic
  imports Go_Prelude
begin

text \<open>
  The deterministic aggregator of the agent economy metrics, package \<^verbatim>\<open>pkg/economic\<close>:
  bounded amounts (\<^verbatim>\<open>amount.go\<close>), identifier sets (\<^verbatim>\<open>set.go\<close>), verified jobs (\<^verbatim>\<open>job.go\<close>)
  and the network metrics of an asset bucket over a window (\<^verbatim>\<open>metrics.go\<close>). The lemmas show
  that the accumulated record is the declarative statistic of the jobs, that the value identity
  checked at run time can never fail on validated jobs, and that the result does not depend on
  the order in which the jobs arrive.
\<close>

subsection \<open>Amounts: amount.go\<close>

datatype econ_error =
    AmountNotCanonical | ErrAmountOverflow | CountOverflow | PartitionViolated
  | AssetNoNetwork | AssetWorkchain | AssetMaster | AssetMasterCode | AssetWalletCode
  | JobIDMalformed | BuyerMalformed | ProviderMalformed | CapabilityMalformed | VersionMalformed
  | NoAcceptanceTime | NonTerminalAttribution | NonTerminalAmountOrTime | ReleaseNeedsAttribution
  | RefundAttribution | UnknownOutcome | TerminalAmount | TerminalTimeMissing | TimesNotOrdered
  | WindowEmpty | DuplicateJob | EmptyBucketPanic

definition maxU256 :: nat where
  "maxU256 = 2 ^ 256"

definition parseAtomic :: "string \<Rightarrow> econ_error + nat" where
  "parseAtomic value =
     (if \<not> canonical_dec value then Inl AmountNotCanonical
      else let parsed = dec_value value in
        if parsed \<ge> maxU256 then Inl ErrAmountOverflow else Inr parsed)"

record sum256 =
  total :: nat

definition newSum256 :: sum256 where
  "newSum256 = \<lparr>total = 0\<rparr>"

definition sum256_add :: "sum256 \<Rightarrow> string \<Rightarrow> econ_error + sum256" where
  "sum256_add s value =
     ebind (parseAtomic value) (\<lambda>parsed.
       let next = total s + parsed in
       if next \<ge> maxU256 then Inl ErrAmountOverflow else Inr (s\<lparr>total := next\<rparr>))"

definition sum256_string :: "sum256 \<Rightarrow> string" where
  "sum256_string s = dec_string (total s)"

definition equalSum :: "sum256 \<Rightarrow> sum256 list \<Rightarrow> bool" where
  "equalSum t parts = (foldl (\<lambda>combined part. combined + total part) 0 parts = total t)"

subsection \<open>Identifier sets: set.go\<close>

definition newStringSet :: "string set" where
  "newStringSet = {}"

definition stringSet_add :: "string set \<Rightarrow> string \<Rightarrow> string set" where
  "stringSet_add s value = insert value s"

definition stringSet_size :: "string set \<Rightarrow> u64" where
  "stringSet_size s = of_nat (card s)"

subsection \<open>Verified jobs: job.go\<close>

datatype Outcome = OutcomeNone | OutcomeReleased | OutcomeRefunded | OutcomeOther string

datatype Attribution =
  AttributionNone | AttributionAttributed | AttributionUnattributed | AttributionUnresolved
  | AttributionOther string

record AssetIdentity =
  NetworkID :: string
  MasterWorkchain :: int
  MasterAccountID :: string
  MasterCodeHash :: string
  WalletCodeHash :: string
  Decimals :: u32

definition AssetIdentity_Validate :: "AssetIdentity \<Rightarrow> econ_error + unit" where
  "AssetIdentity_Validate a =
     (if NetworkID a = [] \<or> length (NetworkID a) > 128 then Inl AssetNoNetwork
      else if MasterWorkchain a \<noteq> 0 then Inl AssetWorkchain
      else if \<not> prefixed_hex64 [] (MasterAccountID a) then Inl AssetMaster
      else if \<not> prefixed_hex64 ''tvm-cell-sha256:'' (MasterCodeHash a) then Inl AssetMasterCode
      else if \<not> prefixed_hex64 ''tvm-cell-sha256:'' (WalletCodeHash a) then Inl AssetWalletCode
      else Inr ())"

definition unit_separator :: char where
  "unit_separator = char_of (31 :: nat)"

definition AssetIdentity_key :: "AssetIdentity \<Rightarrow> string" where
  "AssetIdentity_key a =
     join [unit_separator]
       [NetworkID a, format_int (MasterWorkchain a), MasterAccountID a, MasterCodeHash a,
        WalletCodeHash a, dec_string (unat (Decimals a))]"

record VerifiedJob =
  JobID :: string
  Asset :: AssetIdentity
  BuyerWallet :: string
  ProviderAgentID :: string
  CapabilityID :: string
  CapabilityVersion :: string
  JobOutcome :: Outcome
  JobAttribution :: Attribution
  Amount :: string
  AcceptanceTime :: u64
  FundingTime :: u64
  TerminalTime :: u64

definition validateTerminal :: "VerifiedJob \<Rightarrow> econ_error + unit" where
  "validateTerminal j =
     (if \<not> is_ok (parseAtomic (Amount j)) then Inl TerminalAmount
      else if FundingTime j = 0 \<or> TerminalTime j = 0 then Inl TerminalTimeMissing
      else if AcceptanceTime j > FundingTime j \<or> FundingTime j > TerminalTime j
        then Inl TimesNotOrdered
      else Inr ())"

definition VerifiedJob_Validate :: "VerifiedJob \<Rightarrow> econ_error + unit" where
  "VerifiedJob_Validate j =
     (if \<not> prefixed_hex64 ''sha256:'' (JobID j) then Inl JobIDMalformed
      else ebind (AssetIdentity_Validate (Asset j)) (\<lambda>_.
        if \<not> prefixed_hex64 [] (BuyerWallet j) then Inl BuyerMalformed
        else if \<not> prefixed_hex64 ''agent_'' (ProviderAgentID j) then Inl ProviderMalformed
        else if \<not> prefixed_hex64 ''cap_'' (CapabilityID j) then Inl CapabilityMalformed
        else if CapabilityVersion j = [] \<or> length (CapabilityVersion j) > 64
          then Inl VersionMalformed
        else if AcceptanceTime j = 0 then Inl NoAcceptanceTime
        else case JobOutcome j of
          OutcomeNone \<Rightarrow>
            if JobAttribution j \<noteq> AttributionNone then Inl NonTerminalAttribution
            else if Amount j \<noteq> [] \<or> TerminalTime j \<noteq> 0 then Inl NonTerminalAmountOrTime
            else Inr ()
        | OutcomeReleased \<Rightarrow>
            if JobAttribution j \<noteq> AttributionAttributed \<and>
               JobAttribution j \<noteq> AttributionUnattributed \<and>
               JobAttribution j \<noteq> AttributionUnresolved then Inl ReleaseNeedsAttribution
            else validateTerminal j
        | OutcomeRefunded \<Rightarrow>
            if JobAttribution j \<noteq> AttributionNone then Inl RefundAttribution
            else validateTerminal j
        | OutcomeOther _ \<Rightarrow> Inl UnknownOutcome))"

definition isTerminal :: "VerifiedJob \<Rightarrow> bool" where
  "isTerminal j = (JobOutcome j = OutcomeReleased \<or> JobOutcome j = OutcomeRefunded)"

subsection \<open>Metrics of a bucket: metrics.go\<close>

record Window =
  From :: u64
  To :: u64

definition Window_Validate :: "Window \<Rightarrow> econ_error + unit" where
  "Window_Validate w = (if To w \<le> From w then Inl WindowEmpty else Inr ())"

definition Window_contains :: "Window \<Rightarrow> u64 \<Rightarrow> bool" where
  "Window_contains w unix = (unix \<ge> From w \<and> unix < To w)"

record NetworkMetrics =
  MetricsAsset :: AssetIdentity
  MetricsWindow :: Window
  SettledCashFlowAtomic :: string
  GrossAgentValueAtomic :: string
  SettledProviderReceiptsAtomic :: string
  UnattributedReleasedValueAtomic :: string
  AttributionUnresolvedReleasedValueAtomic :: string
  AcceptedJobCount :: u64
  FundedJobCount :: u64
  ReleasedEscrowCount :: u64
  AttributedSettledJobCount :: u64
  RefundedJobCount :: u64
  UniqueBuyerWalletCount :: u64
  UniqueQuoteNamedProviderAgentCount :: u64
  UniqueAttributedProviderAgentCount :: u64
  TerminalReleaseRatePPM :: "u32 option"
  RefundRatePPM :: "u32 option"
  MedianSettlementSeconds :: "u64 option"
  P95SettlementSeconds :: "u64 option"

definition incr :: "u64 \<Rightarrow> econ_error + u64" where
  "incr n = (if n = - 1 then Inl CountOverflow else Inr (n + 1))"

definition ratePPM :: "u64 \<Rightarrow> u64 \<Rightarrow> u32 option" where
  "ratePPM numerator denominator =
     (if denominator = 0 then None
      else Some (of_nat ((unat numerator * 1000000) div unat denominator)))"

definition median :: "u64 list \<Rightarrow> u64 option" where
  "median s =
     (let n = length s in
      if n = 0 then None
      else if n mod 2 = 1 then Some (s ! (n div 2))
      else let low = s ! (n div 2 - 1); high = s ! (n div 2) in
        Some (low div 2 + high div 2 + (low mod 2 + high mod 2) div 2))"

definition p95 :: "u64 list \<Rightarrow> u64 option" where
  "p95 s =
     (let n = length s in
      if n = 0 then None
      else let rank = (95 * n + 99) div 100;
               rank = (if rank < 1 then 1 else rank);
               rank = (if rank > n then n else rank)
           in Some (s ! (rank - 1)))"

text \<open>The variables of the loop of \<^verbatim>\<open>aggregateBucket\<close>: the counters of \<^verbatim>\<open>result\<close> and the locals.\<close>

record bucket_acc =
  accepted :: u64
  funded :: u64
  released :: u64
  attributedSettled :: u64
  refunded :: u64
  settled :: sum256
  gross :: sum256
  unattributed :: sum256
  unresolved :: sum256
  buyerWallets :: "string set"
  namedProviders :: "string set"
  attributedProviders :: "string set"
  durations :: "u64 list"

definition bucket_start :: bucket_acc where
  "bucket_start =
     \<lparr>accepted = 0, funded = 0, released = 0, attributedSettled = 0, refunded = 0,
      settled = newSum256, gross = newSum256, unattributed = newSum256, unresolved = newSum256,
      buyerWallets = newStringSet, namedProviders = newStringSet,
      attributedProviders = newStringSet, durations = []\<rparr>"

definition bucket_attribute :: "VerifiedJob \<Rightarrow> bucket_acc \<Rightarrow> econ_error + bucket_acc" where
  "bucket_attribute job a =
     (case JobAttribution job of
        AttributionAttributed \<Rightarrow>
          ebind (sum256_add (gross a) (Amount job)) (\<lambda>g.
          ebind (incr (attributedSettled a)) (\<lambda>n.
            Inr (a\<lparr>gross := g, attributedSettled := n,
                   attributedProviders :=
                     stringSet_add (attributedProviders a) (ProviderAgentID job)\<rparr>)))
      | AttributionUnattributed \<Rightarrow>
          ebind (sum256_add (unattributed a) (Amount job)) (\<lambda>g. Inr (a\<lparr>unattributed := g\<rparr>))
      | AttributionUnresolved \<Rightarrow>
          ebind (sum256_add (unresolved a) (Amount job)) (\<lambda>g. Inr (a\<lparr>unresolved := g\<rparr>))
      | _ \<Rightarrow> Inr a)"

definition bucket_terminal :: "VerifiedJob \<Rightarrow> bucket_acc \<Rightarrow> econ_error + bucket_acc" where
  "bucket_terminal job a =
     (case JobOutcome job of
        OutcomeReleased \<Rightarrow>
          ebind (incr (released a)) (\<lambda>n.
          ebind (sum256_add (settled a) (Amount job)) (\<lambda>s.
            bucket_attribute job (a\<lparr>released := n, settled := s\<rparr>)))
      | OutcomeRefunded \<Rightarrow> ebind (incr (refunded a)) (\<lambda>n. Inr (a\<lparr>refunded := n\<rparr>))
      | _ \<Rightarrow> Inr a)"

text \<open>Membership in the window's participants, and the two plain counters, of one iteration.\<close>

definition seen_in_window :: "Window \<Rightarrow> VerifiedJob \<Rightarrow> bool" where
  "seen_in_window w job =
     (Window_contains w (AcceptanceTime job) \<or> Window_contains w (FundingTime job) \<or>
      (TerminalTime job \<noteq> 0 \<and> Window_contains w (TerminalTime job)))"

definition bucket_participants :: "Window \<Rightarrow> VerifiedJob \<Rightarrow> bucket_acc \<Rightarrow> bucket_acc" where
  "bucket_participants w job a =
     (if seen_in_window w job
      then a\<lparr>buyerWallets := stringSet_add (buyerWallets a) (BuyerWallet job),
             namedProviders := stringSet_add (namedProviders a) (ProviderAgentID job)\<rparr>
      else a)"

definition bucket_step :: "Window \<Rightarrow> VerifiedJob \<Rightarrow> bucket_acc \<Rightarrow> econ_error + bucket_acc" where
  "bucket_step w job a0 =
     (let a = bucket_participants w job a0 in
      ebind (if Window_contains w (AcceptanceTime job) then incr (accepted a) else Inr (accepted a))
        (\<lambda>n. let a = a\<lparr>accepted := n\<rparr> in
      ebind (if Window_contains w (FundingTime job) then incr (funded a) else Inr (funded a))
        (\<lambda>n. let a = a\<lparr>funded := n\<rparr> in
        if \<not> isTerminal job \<or> \<not> Window_contains w (TerminalTime job) then Inr a
        else bucket_terminal job
               (a\<lparr>durations := durations a @ [TerminalTime job - FundingTime job]\<rparr>))))"

fun bucket_loop :: "Window \<Rightarrow> VerifiedJob list \<Rightarrow> bucket_acc \<Rightarrow> econ_error + bucket_acc" where
  "bucket_loop w [] a = Inr a"
| "bucket_loop w (job # jobs) a = ebind (bucket_step w job a) (bucket_loop w jobs)"

definition bucket_result :: "AssetIdentity \<Rightarrow> Window \<Rightarrow> bucket_acc \<Rightarrow> NetworkMetrics" where
  "bucket_result asset w a =
     (let terminalTotal = released a + refunded a; d = sort (durations a) in
      \<lparr>MetricsAsset = asset, MetricsWindow = w,
       SettledCashFlowAtomic = sum256_string (settled a),
       GrossAgentValueAtomic = sum256_string (gross a),
       SettledProviderReceiptsAtomic = sum256_string (gross a),
       UnattributedReleasedValueAtomic = sum256_string (unattributed a),
       AttributionUnresolvedReleasedValueAtomic = sum256_string (unresolved a),
       AcceptedJobCount = accepted a, FundedJobCount = funded a,
       ReleasedEscrowCount = released a, AttributedSettledJobCount = attributedSettled a,
       RefundedJobCount = refunded a,
       UniqueBuyerWalletCount = stringSet_size (buyerWallets a),
       UniqueQuoteNamedProviderAgentCount = stringSet_size (namedProviders a),
       UniqueAttributedProviderAgentCount = stringSet_size (attributedProviders a),
       TerminalReleaseRatePPM = ratePPM (released a) terminalTotal,
       RefundRatePPM = ratePPM (refunded a) terminalTotal,
       MedianSettlementSeconds = median d, P95SettlementSeconds = p95 d\<rparr>)"

definition aggregateBucket :: "VerifiedJob list \<Rightarrow> Window \<Rightarrow> econ_error + NetworkMetrics" where
  "aggregateBucket jobs w =
     (case jobs of
        [] \<Rightarrow> Inl EmptyBucketPanic
      | job0 # _ \<Rightarrow>
          ebind (bucket_loop w jobs bucket_start) (\<lambda>a.
            if \<not> equalSum (settled a) [gross a, unattributed a, unresolved a]
            then Inl PartitionViolated
            else Inr (bucket_result (Asset job0) w a)))"

subsection \<open>The network projection: AggregateNetwork\<close>

record collect_state =
  seen :: "string set"
  buckets :: "string \<Rightarrow> VerifiedJob list"
  order :: "string list"

definition collect_start :: collect_state where
  "collect_start = \<lparr>seen = {}, buckets = (\<lambda>_. []), order = []\<rparr>"

text \<open>A bucket that the map does not hold is the empty slice; a held bucket is never empty.\<close>

definition collect_step :: "VerifiedJob \<Rightarrow> collect_state \<Rightarrow> econ_error + collect_state" where
  "collect_step job st =
     ebind (VerifiedJob_Validate job) (\<lambda>_.
       if JobID job \<in> seen st then Inl DuplicateJob
       else let key = AssetIdentity_key (Asset job) in
         Inr \<lparr>seen = insert (JobID job) (seen st),
              buckets = (buckets st)(key := buckets st key @ [job]),
              order = (if buckets st key = [] then order st @ [key] else order st)\<rparr>)"

fun collect_jobs :: "VerifiedJob list \<Rightarrow> collect_state \<Rightarrow> econ_error + collect_state" where
  "collect_jobs [] st = Inr st"
| "collect_jobs (job # jobs) st = ebind (collect_step job st) (collect_jobs jobs)"

fun aggregate_keys ::
  "(string \<Rightarrow> VerifiedJob list) \<Rightarrow> Window \<Rightarrow> string list \<Rightarrow> econ_error + NetworkMetrics list" where
  "aggregate_keys bs w [] = Inr []"
| "aggregate_keys bs w (k # ks) =
     ebind (aggregateBucket (bs k) w) (\<lambda>m.
     ebind (aggregate_keys bs w ks) (\<lambda>ms. Inr (m # ms)))"

definition AggregateNetwork :: "VerifiedJob list \<Rightarrow> Window \<Rightarrow> econ_error + NetworkMetrics list" where
  "AggregateNetwork jobs w =
     ebind (Window_Validate w) (\<lambda>_.
     ebind (collect_jobs jobs collect_start) (\<lambda>st.
       aggregate_keys (buckets st) w (sort (order st))))"

subsection \<open>Amounts and counters\<close>

lemma parseAtomic_iff [bind_simps]:
  "parseAtomic s = Inr n \<longleftrightarrow> canonical_dec s \<and> n = dec_value s \<and> n < maxU256"
  by (auto simp: parseAtomic_def Let_def)

lemma sum256_add_spec:
  "parseAtomic s = Inr n \<Longrightarrow>
   sum256_add \<lparr>total = t\<rparr> s =
     (if t + n < maxU256 then Inr \<lparr>total = t + n\<rparr> else Inl ErrAmountOverflow)"
  by (auto simp: sum256_add_def Let_def)

lemma incr_of_nat: "Suc n < 2 ^ 64 \<Longrightarrow> incr (of_nat n) = Inr (of_nat (Suc n))"
proof -
  assume n: "Suc n < 2 ^ 64"
  have "unat (of_nat n :: u64) = n" using n by (simp add: unat_of_nat)
  with n have "(of_nat n :: u64) \<noteq> - 1" using unat_minus_one_u64 by auto
  then show ?thesis by (simp add: incr_def add.commute)
qed

subsection \<open>The declarative statistics of a bucket\<close>

definition valid_job :: "VerifiedJob \<Rightarrow> bool" where
  "valid_job j = is_ok (VerifiedJob_Validate j)"

definition job_value :: "VerifiedJob \<Rightarrow> nat" where
  "job_value j = dec_value (Amount j)"

definition released_in :: "Window \<Rightarrow> VerifiedJob \<Rightarrow> bool" where
  "released_in w j = (JobOutcome j = OutcomeReleased \<and> Window_contains w (TerminalTime j))"

definition refunded_in :: "Window \<Rightarrow> VerifiedJob \<Rightarrow> bool" where
  "refunded_in w j = (JobOutcome j = OutcomeRefunded \<and> Window_contains w (TerminalTime j))"

definition released_as :: "Window \<Rightarrow> Attribution \<Rightarrow> VerifiedJob \<Rightarrow> bool" where
  "released_as w at j = (released_in w j \<and> JobAttribution j = at)"

definition value_of :: "(VerifiedJob \<Rightarrow> bool) \<Rightarrow> VerifiedJob list \<Rightarrow> nat" where
  "value_of P js = sum_list (map job_value (filter P js))"

definition count_of :: "(VerifiedJob \<Rightarrow> bool) \<Rightarrow> VerifiedJob list \<Rightarrow> nat" where
  "count_of P js = length (filter P js)"

definition settlement_seconds :: "VerifiedJob \<Rightarrow> u64" where
  "settlement_seconds j = TerminalTime j - FundingTime j"

definition bucket_spec :: "Window \<Rightarrow> VerifiedJob list \<Rightarrow> bucket_acc" where
  "bucket_spec w js =
     \<lparr>accepted = of_nat (count_of (\<lambda>j. Window_contains w (AcceptanceTime j)) js),
      funded = of_nat (count_of (\<lambda>j. Window_contains w (FundingTime j)) js),
      released = of_nat (count_of (released_in w) js),
      attributedSettled = of_nat (count_of (released_as w AttributionAttributed) js),
      refunded = of_nat (count_of (refunded_in w) js),
      settled = \<lparr>total = value_of (released_in w) js\<rparr>,
      gross = \<lparr>total = value_of (released_as w AttributionAttributed) js\<rparr>,
      unattributed = \<lparr>total = value_of (released_as w AttributionUnattributed) js\<rparr>,
      unresolved = \<lparr>total = value_of (released_as w AttributionUnresolved) js\<rparr>,
      buyerWallets = BuyerWallet ` {j \<in> set js. seen_in_window w j},
      namedProviders = ProviderAgentID ` {j \<in> set js. seen_in_window w j},
      attributedProviders =
        ProviderAgentID ` {j \<in> set js. released_as w AttributionAttributed j},
      durations =
        map settlement_seconds (filter (\<lambda>j. released_in w j \<or> refunded_in w j) js)\<rparr>"

lemma count_of_snoc [simp]:
  "count_of P (js @ [j]) = (if P j then Suc (count_of P js) else count_of P js)"
  by (simp add: count_of_def)

lemma value_of_snoc [simp]:
  "value_of P (js @ [j]) = (if P j then value_of P js + job_value j else value_of P js)"
  by (simp add: value_of_def)

lemma count_of_le: "count_of P js \<le> length js"
  by (simp add: count_of_def)

lemma value_of_mono: "(\<And>j. P j \<Longrightarrow> Q j) \<Longrightarrow> value_of P js \<le> value_of Q js"
proof (induction js)
  case Nil
  then show ?case by (simp add: value_of_def)
next
  case (Cons j js)
  then have "value_of P js \<le> value_of Q js" by blast
  moreover have "P j \<Longrightarrow> Q j" by (rule Cons.prems)
  ultimately show ?case by (auto simp: value_of_def)
qed

lemma value_of_append: "value_of P (xs @ ys) = value_of P xs + value_of P ys"
  by (simp add: value_of_def)

lemma valid_terminal:
  assumes "valid_job j" and "JobOutcome j = OutcomeReleased \<or> JobOutcome j = OutcomeRefunded"
  shows "parseAtomic (Amount j) = Inr (job_value j)" and "FundingTime j \<le> TerminalTime j"
    and "FundingTime j \<noteq> 0" and "AcceptanceTime j \<le> FundingTime j"
  using assms
  by (auto simp: valid_job_def VerifiedJob_Validate_def validateTerminal_def job_value_def
      is_ok_iff bind_simps split: if_splits)

lemma valid_attribution:
  assumes "valid_job j" and "JobOutcome j = OutcomeReleased"
  shows "JobAttribution j \<in> {AttributionAttributed, AttributionUnattributed, AttributionUnresolved}"
  using assms
  by (auto simp: valid_job_def VerifiedJob_Validate_def is_ok_iff bind_simps split: if_splits)

lemma value_of_partition:
  assumes "\<forall>j \<in> set js. valid_job j"
  shows "value_of (released_in w) js =
      value_of (released_as w AttributionAttributed) js
      + value_of (released_as w AttributionUnattributed) js
      + value_of (released_as w AttributionUnresolved) js"
  using assms
proof (induction js)
  case Nil
  then show ?case by (simp add: value_of_def)
next
  case (Cons j js)
  have "released_in w j \<Longrightarrow>
    JobAttribution j \<in> {AttributionAttributed, AttributionUnattributed, AttributionUnresolved}"
    using valid_attribution [of j] Cons.prems by (simp add: released_in_def)
  then show ?case using Cons by (auto simp: value_of_def released_as_def)
qed

subsection \<open>The loop computes the statistics\<close>

lemma bucket_step_spec:
  assumes v: "valid_job j" and len: "Suc (length js) < 2 ^ 64"
    and bound: "value_of (released_in w) js < maxU256"
  shows "bucket_step w j (bucket_spec w js) =
    (if value_of (released_in w) (js @ [j]) < maxU256 then Inr (bucket_spec w (js @ [j]))
     else Inl ErrAmountOverflow)"
proof -
  have inc: "incr (of_nat (count_of P js)) = Inr (of_nat (Suc (count_of P js)))" for P
    by (rule incr_of_nat) (use count_of_le [of P js] len in simp)
  have le: "value_of (released_as w at) js \<le> value_of (released_in w) js" for at
    by (rule value_of_mono) (simp add: released_as_def)
  show ?thesis
  proof (cases "released_in w j")
    case False
    show ?thesis
      using False inc v bound
      by (auto simp: bucket_step_def bucket_participants_def bucket_terminal_def Let_def
          bucket_spec_def released_in_def refunded_in_def released_as_def isTerminal_def
          stringSet_add_def settlement_seconds_def split: Outcome.splits)
  next
    case True
    have p: "parseAtomic (Amount j) = Inr (job_value j)"
      using valid_terminal(1) [OF v] True by (simp add: released_in_def)
    note add = sum256_add_spec [OF p]
    have at: "JobAttribution j \<in> {AttributionAttributed, AttributionUnattributed, AttributionUnresolved}"
      using valid_attribution [OF v] True by (simp add: released_in_def)
    show ?thesis
      using True inc at le [of AttributionAttributed] le [of AttributionUnattributed]
        le [of AttributionUnresolved] bound
      by (auto simp: bucket_step_def bucket_participants_def bucket_terminal_def
          bucket_attribute_def Let_def add
          bucket_spec_def released_in_def refunded_in_def released_as_def isTerminal_def
          stringSet_add_def settlement_seconds_def)
  qed
qed

lemma bucket_loop_spec:
  assumes "\<forall>j \<in> set js. valid_job j" and "length pre + length js < 2 ^ 64"
    and "value_of (released_in w) pre < maxU256"
  shows "bucket_loop w js (bucket_spec w pre) =
    (if value_of (released_in w) (pre @ js) < maxU256 then Inr (bucket_spec w (pre @ js))
     else Inl ErrAmountOverflow)"
  using assms
proof (induction js arbitrary: pre)
  case Nil
  then show ?case by simp
next
  case (Cons j js)
  have step: "bucket_step w j (bucket_spec w pre) =
    (if value_of (released_in w) (pre @ [j]) < maxU256 then Inr (bucket_spec w (pre @ [j]))
     else Inl ErrAmountOverflow)"
    by (rule bucket_step_spec) (use Cons.prems in simp_all)
  show ?case
  proof (cases "value_of (released_in w) (pre @ [j]) < maxU256")
    case True
    have "bucket_loop w js (bucket_spec w (pre @ [j])) =
      (if value_of (released_in w) ((pre @ [j]) @ js) < maxU256
       then Inr (bucket_spec w ((pre @ [j]) @ js)) else Inl ErrAmountOverflow)"
      by (rule Cons.IH) (use Cons.prems True in \<open>simp_all del: value_of_snoc\<close>)
    with step True show ?thesis by (simp del: value_of_snoc)
  next
    case False
    moreover have "value_of (released_in w) (pre @ [j]) \<le> value_of (released_in w) (pre @ j # js)"
      by (simp add: value_of_append value_of_def)
    ultimately show ?thesis using step by (simp del: value_of_snoc)
  qed
qed

lemma bucket_spec_Nil: "bucket_spec w [] = bucket_start"
  by (simp add: bucket_spec_def bucket_start_def count_of_def value_of_def newSum256_def
      newStringSet_def)

lemma equalSum_spec:
  assumes "\<forall>j \<in> set js. valid_job j"
  shows "equalSum (settled (bucket_spec w js))
    [gross (bucket_spec w js), unattributed (bucket_spec w js), unresolved (bucket_spec w js)]"
  using value_of_partition [OF assms, of w] by (simp add: equalSum_def bucket_spec_def)

lemma aggregateBucket_spec:
  assumes "\<forall>j \<in> set (job0 # js). valid_job j" and "length (job0 # js) < 2 ^ 64"
  shows "aggregateBucket (job0 # js) w =
    (if value_of (released_in w) (job0 # js) < maxU256
     then Inr (bucket_result (Asset job0) w (bucket_spec w (job0 # js)))
     else Inl ErrAmountOverflow)"
proof -
  have "bucket_loop w (job0 # js) (bucket_spec w []) =
    (if value_of (released_in w) ([] @ job0 # js) < maxU256
     then Inr (bucket_spec w ([] @ job0 # js)) else Inl ErrAmountOverflow)"
    by (rule bucket_loop_spec) (use assms in \<open>simp_all add: value_of_def maxU256_def\<close>)
  then show ?thesis
    using equalSum_spec [OF assms(1), of w]
    by (simp add: aggregateBucket_def bucket_spec_Nil del: bucket_loop.simps)
qed

subsection \<open>Rates and percentiles\<close>

lemma ratePPM_spec:
  assumes "d \<noteq> 0" and "n \<le> d"
  shows "\<exists>r. ratePPM n d = Some r \<and> unat r = unat n * 1000000 div unat d \<and> unat r \<le> 1000000"
proof -
  have d: "0 < unat d" using assms(1) by (simp add: unat_gt_0)
  have "unat n \<le> unat d" using assms(2) by (simp add: word_le_nat_alt)
  then have "unat n * 1000000 div unat d \<le> unat d * 1000000 div unat d"
    by (intro div_le_mono mult_le_mono1)
  then have le: "unat n * 1000000 div unat d \<le> 1000000" using d by simp
  then have "unat (of_nat (unat n * 1000000 div unat d) :: u32) = unat n * 1000000 div unat d"
    by (intro unat_of_nat_u32) simp
  with le assms(1) show ?thesis by (simp add: ratePPM_def)
qed

lemma half_sum_no_overflow:
  "unat ((low :: u64) div 2 + high div 2 + (low mod 2 + high mod 2) div 2) =
   (unat low + unat high) div 2"
proof -
  have m: "unat (low mod 2 + high mod 2) = unat low mod 2 + unat high mod 2"
    by (subst unat_add_u64) (simp_all add: unat_mod)
  have lh: "unat (low div 2 + high div 2) = unat low div 2 + unat high div 2"
    using unat_u64_less [of low] unat_u64_less [of high]
    by (subst unat_add_u64) (simp_all add: unat_div)
  have eq: "unat low div 2 + unat high div 2 + (unat low mod 2 + unat high mod 2) div 2 =
    (unat low + unat high) div 2" by presburger
  show ?thesis
    using unat_u64_less [of low] unat_u64_less [of high] eq
    by (subst unat_add_u64) (simp_all add: unat_div m lh)
qed

subsection \<open>The bucket key\<close>

lemma split_at_last:
  assumes "u \<notin> set d" and "u \<notin> set d'"
  shows "xs @ u # d = xs' @ u # d' \<longleftrightarrow> xs = xs' \<and> d = d'"
  using assms by (auto simp: append_eq_append_conv2 append_eq_Cons_conv Cons_eq_append_conv)

lemma separator_not_digit: "unit_separator \<notin> set (dec_string n)"
proof
  assume "unit_separator \<in> set (dec_string n)"
  then have "is_dec_digit unit_separator"
    using dec_string_digits [of n] by (auto simp: list_all_iff)
  then show False by (simp add: is_dec_digit_def unit_separator_def)
qed

lemma valid_asset_shape:
  assumes "AssetIdentity_Validate a = Inr ()"
  shows "MasterWorkchain a = 0" "length (MasterAccountID a) = 64"
    "length (MasterCodeHash a) = 80" "length (WalletCodeHash a) = 80"
  using assms
  by (auto simp: AssetIdentity_Validate_def prefixed_hex64_def lower_hex_def go_text
      split: if_splits)

lemma AssetIdentity_key_inj:
  assumes "AssetIdentity_Validate a = Inr ()" and "AssetIdentity_Validate b = Inr ()"
    and "AssetIdentity_key a = AssetIdentity_key b"
  shows "a = b"
proof -
  note a = valid_asset_shape [OF assms(1)] and b = valid_asset_shape [OF assms(2)]
  let ?f = "\<lambda>a. NetworkID a @ unit_separator # format_int (MasterWorkchain a) @ unit_separator
    # MasterAccountID a @ unit_separator # MasterCodeHash a @ unit_separator # WalletCodeHash a"
  have "?f a @ unit_separator # dec_string (unat (Decimals a)) =
    ?f b @ unit_separator # dec_string (unat (Decimals b))"
    using assms(3) by (simp add: AssetIdentity_key_def)
  then have f: "?f a = ?f b" and d: "unat (Decimals a) = unat (Decimals b)"
    by (simp_all only: split_at_last separator_not_digit not_False_eq_True dec_string_inj)
  let ?r = "\<lambda>a. unit_separator # format_int 0 @ unit_separator
    # MasterAccountID a @ unit_separator # MasterCodeHash a @ unit_separator # WalletCodeHash a"
  have "NetworkID a @ ?r a = NetworkID b @ ?r b" using f a(1) b(1) by simp
  moreover have "length (?r a) = length (?r b)" using a b by simp
  ultimately have "NetworkID a = NetworkID b" and "?r a = ?r b" by simp_all
  with a b d show ?thesis by (intro AssetIdentity.equality) (simp_all add: word_unat_eq_iff)
qed

subsection \<open>Order independence\<close>

lemma count_of_mset: "count_of P js = size (filter_mset P (mset js))"
  by (metis count_of_def mset_filter size_mset)

lemma value_of_mset: "value_of P js = sum_mset (image_mset job_value (filter_mset P (mset js)))"
  by (metis value_of_def mset_filter mset_map sum_mset_sum_list)

lemma bucket_result_mset:
  assumes "mset js = mset js'"
  shows "bucket_result a w (bucket_spec w js) = bucket_result a w (bucket_spec w js')"
proof -
  have c: "count_of P js = count_of P js'" and v: "value_of P js = value_of P js'" for P
    using assms by (simp_all only: count_of_mset value_of_mset)
  have s: "set js = set js'" using assms by (rule mset_eq_setD)
  have "mset (map settlement_seconds (filter P js)) = mset (map settlement_seconds (filter P js'))"
    for P using assms by simp
  then have d: "sort (map settlement_seconds (filter P js)) =
      sort (map settlement_seconds (filter P js'))" for P
    by (intro properties_for_sort) simp_all
  show ?thesis
    unfolding bucket_result_def bucket_spec_def Let_def by (simp add: c v s d)
qed

definition bucket_of :: "string \<Rightarrow> VerifiedJob list \<Rightarrow> VerifiedJob list" where
  "bucket_of k js = filter (\<lambda>j. AssetIdentity_key (Asset j) = k) js"

definition asset_keys :: "VerifiedJob list \<Rightarrow> string set" where
  "asset_keys js = (\<lambda>j. AssetIdentity_key (Asset j)) ` set js"

definition collected :: "VerifiedJob list \<Rightarrow> collect_state \<Rightarrow> bool" where
  "collected js st =
     (seen st = JobID ` set js \<and> buckets st = (\<lambda>k. bucket_of k js) \<and>
      distinct (order st) \<and> set (order st) = asset_keys js)"

lemma collected_start: "collected [] collect_start"
  by (simp add: collected_def collect_start_def bucket_of_def asset_keys_def)

lemma bucket_of_empty: "bucket_of k js = [] \<longleftrightarrow> k \<notin> asset_keys js"
  by (auto simp: bucket_of_def asset_keys_def filter_empty_conv)

lemma bucket_of_snoc:
  "bucket_of k (js @ [j]) = bucket_of k js @ (if AssetIdentity_key (Asset j) = k then [j] else [])"
  by (simp add: bucket_of_def)

lemma asset_keys_snoc: "asset_keys (js @ [j]) = insert (AssetIdentity_key (Asset j)) (asset_keys js)"
  by (simp add: asset_keys_def)

lemma collect_step_collected:
  assumes "collected pre st"
  shows "collect_step j st = Inr st' \<Longrightarrow>
      collected (pre @ [j]) st' \<and> valid_job j \<and> JobID j \<notin> JobID ` set pre"
    and "valid_job j \<Longrightarrow> JobID j \<notin> JobID ` set pre \<Longrightarrow> \<exists>st'. collect_step j st = Inr st'"
  using assms
  by (auto simp: collect_step_def collected_def Let_def bind_simps valid_job_def is_ok_iff
      bucket_of_empty bucket_of_snoc asset_keys_snoc fun_eq_iff split: if_splits)

lemma collect_jobs_collected:
  "collect_jobs js st = Inr st' \<Longrightarrow> collected pre st \<Longrightarrow>
   collected (pre @ js) st' \<and> (\<forall>j \<in> set js. valid_job j) \<and>
   distinct (map JobID js) \<and> JobID ` set js \<inter> JobID ` set pre = {}"
proof (induction js arbitrary: pre st)
  case Nil
  then show ?case by simp
next
  case (Cons j js)
  then obtain st1 where st1: "collect_step j st = Inr st1" "collect_jobs js st1 = Inr st'"
    by (auto simp: bind_simps)
  note s = collect_step_collected(1) [OF Cons.prems(2) st1(1)]
  have "collected ((pre @ [j]) @ js) st' \<and> (\<forall>j \<in> set js. valid_job j) \<and>
   distinct (map JobID js) \<and> JobID ` set js \<inter> JobID ` set (pre @ [j]) = {}"
    by (rule Cons.IH [OF st1(2)]) (use s in blast)
  with s show ?case by auto
qed

lemma collect_jobs_total:
  "collected pre st \<Longrightarrow> \<forall>j \<in> set js. valid_job j \<Longrightarrow> distinct (map JobID js) \<Longrightarrow>
   JobID ` set js \<inter> JobID ` set pre = {} \<Longrightarrow> \<exists>st'. collect_jobs js st = Inr st'"
proof (induction js arbitrary: pre st)
  case Nil
  then show ?case by simp
next
  case (Cons j js)
  have j: "JobID j \<notin> JobID ` set pre" "valid_job j" using Cons.prems by auto
  then obtain st1 where st1: "collect_step j st = Inr st1"
    using collect_step_collected(2) [OF Cons.prems(1)] by blast
  have "\<exists>st'. collect_jobs js st1 = Inr st'"
    by (rule Cons.IH [of "pre @ [j]"])
      (use collect_step_collected(1) [OF Cons.prems(1) st1] Cons.prems in auto)
  with st1 show ?case by simp
qed

definition well_formed_evidence :: "VerifiedJob list \<Rightarrow> bool" where
  "well_formed_evidence js = ((\<forall>j \<in> set js. valid_job j) \<and> distinct (map JobID js))"

lemma AggregateNetwork_unfold:
  "AggregateNetwork js w = Inr ms \<longleftrightarrow>
   From w < To w \<and> well_formed_evidence js \<and>
   aggregate_keys (\<lambda>k. bucket_of k js) w (sorted_list_of_set (asset_keys js)) = Inr ms"
proof -
  have ks: "sort (order st) = sorted_list_of_set (asset_keys js)" if "collected js st" for st
    using that unfolding collected_def
    by (metis sorted_list_of_set_sort_remdups distinct_remdups_id)
  have win: "Window_Validate w = Inr u \<longleftrightarrow> From w < To w" for u
    by (auto simp: Window_Validate_def not_le)
  show ?thesis (is "?l \<longleftrightarrow> ?r")
  proof
    assume ?l
    then obtain st where w: "From w < To w" and st: "collect_jobs js collect_start = Inr st"
      and agg: "aggregate_keys (buckets st) w (sort (order st)) = Inr ms"
      by (auto simp: AggregateNetwork_def bind_simps win)
    from collect_jobs_collected [OF st collected_start]
    have c: "collected js st" and v: "well_formed_evidence js"
      by (auto simp: well_formed_evidence_def)
    with agg w show ?r using ks [OF c] by (simp add: collected_def)
  next
    assume r: ?r
    then obtain st where st: "collect_jobs js collect_start = Inr st"
      using collect_jobs_total [OF collected_start, of js] by (auto simp: well_formed_evidence_def)
    then have c: "collected js st" using collect_jobs_collected [OF st collected_start] by simp
    show ?l using r st ks [OF c] c
      by (auto simp: AggregateNetwork_def bind_simps win collected_def)
  qed
qed

lemma aggregate_keys_cong:
  "(\<And>k. k \<in> set ks \<Longrightarrow> aggregateBucket (f k) w = aggregateBucket (g k) w) \<Longrightarrow>
   aggregate_keys f w ks = aggregate_keys g w ks"
  by (induction ks) auto

lemma same_key_same_asset:
  assumes "valid_job i" and "valid_job j"
    and "AssetIdentity_key (Asset i) = AssetIdentity_key (Asset j)"
  shows "Asset i = Asset j"
  using assms
  by (intro AssetIdentity_key_inj)
    (auto simp: valid_job_def VerifiedJob_Validate_def is_ok_iff bind_simps split: if_splits)

lemma aggregateBucket_mset:
  assumes valid: "\<forall>j \<in> set js. valid_job j" and perm: "mset js = mset js'"
    and len: "length js < 2 ^ 64" and ne: "js \<noteq> []"
    and key: "\<forall>j \<in> set js. AssetIdentity_key (Asset j) = k"
  shows "aggregateBucket js w = aggregateBucket js' w"
proof -
  have set: "set js = set js'" using perm by (rule mset_eq_setD)
  have len': "length js' < 2 ^ 64" using perm len by (metis size_mset)
  have ne': "js' \<noteq> []" using ne perm by auto
  from ne ne' obtain i r i' r' where js: "js = i # r" and js': "js' = i' # r'"
    by (meson neq_Nil_conv)
  have mem: "i \<in> set js" "i' \<in> set js" using js js' set by auto
  have "Asset i = Asset i'" by (rule same_key_same_asset) (use mem valid key in auto)
  moreover have "value_of P js = value_of P js'" for P using perm by (simp only: value_of_mset)
  ultimately show ?thesis
    using aggregateBucket_spec [of i r w] aggregateBucket_spec [of i' r' w]
      bucket_result_mset [OF perm] valid set len len' js js' by (metis)
qed

lemma mset_bucket_of: "mset js = mset js' \<Longrightarrow> mset (bucket_of k js) = mset (bucket_of k js')"
  by (simp add: bucket_of_def)

lemma AggregateNetwork_mset:
  assumes perm: "mset js = mset js'" and len: "length js < 2 ^ 64"
    and agg: "AggregateNetwork js w = Inr ms"
  shows "AggregateNetwork js' w = Inr ms"
proof -
  have set: "set js = set js'" using perm by (rule mset_eq_setD)
  have keys: "asset_keys js = asset_keys js'" by (simp add: asset_keys_def set)
  from agg have wf: "well_formed_evidence js" by (simp add: AggregateNetwork_unfold)
  have "distinct (map JobID js) = distinct (map JobID js')"
    by (rule mset_eq_imp_distinct_iff) (simp add: perm)
  then have wf': "well_formed_evidence js'"
    using wf set by (auto simp: well_formed_evidence_def)
  have "aggregate_keys (\<lambda>k. bucket_of k js) w (sorted_list_of_set (asset_keys js)) =
    aggregate_keys (\<lambda>k. bucket_of k js') w (sorted_list_of_set (asset_keys js))"
  proof (rule aggregate_keys_cong)
    fix k assume "k \<in> set (sorted_list_of_set (asset_keys js))"
    then have k: "k \<in> asset_keys js" by (simp add: asset_keys_def)
    show "aggregateBucket (bucket_of k js) w = aggregateBucket (bucket_of k js') w"
    proof (rule aggregateBucket_mset [where k = k])
      show "\<forall>j \<in> set (bucket_of k js). valid_job j"
        using wf by (auto simp: bucket_of_def well_formed_evidence_def)
      show "mset (bucket_of k js) = mset (bucket_of k js')" by (rule mset_bucket_of [OF perm])
      show "length (bucket_of k js) < 2 ^ 64"
        using len length_filter_le [of _ js] unfolding bucket_of_def by (rule le_less_trans [rotated])
      show "bucket_of k js \<noteq> []" using k by (simp add: bucket_of_empty)
      show "\<forall>j \<in> set (bucket_of k js). AssetIdentity_key (Asset j) = k" by (simp add: bucket_of_def)
    qed
  qed
  with agg wf' keys show ?thesis unfolding AggregateNetwork_unfold by metis
qed

lemma ppm_parts:
  fixes a b :: nat
  assumes "0 < a + b"
  shows "999999 \<le> a * 1000000 div (a + b) + b * 1000000 div (a + b) \<and>
    a * 1000000 div (a + b) + b * 1000000 div (a + b) \<le> 1000000"
proof -
  let ?d = "a + b" and ?x = "a * 1000000" and ?y = "b * 1000000"
  have "(?x + ?y) div ?d = ?x div ?d + ?y div ?d + (?x mod ?d + ?y mod ?d) div ?d"
    by (rule div_add1_eq)
  moreover have "?x + ?y = 1000000 * ?d" by simp
  then have "(?x + ?y) div ?d = 1000000" using assms by (metis nonzero_mult_div_cancel_right less_numeral_extra(3))
  moreover have "?x mod ?d + ?y mod ?d < 2 * ?d"
    using assms by (metis add_strict_mono mod_less_divisor mult_2)
  then have "(?x mod ?d + ?y mod ?d) div ?d < 2" using assms by (simp add: less_mult_imp_div_less)
  ultimately show ?thesis by linarith
qed

lemma released_refunded_count: "count_of (released_in w) js + count_of (refunded_in w) js \<le> length js"
proof (induction js)
  case (Cons j js)
  have "\<not> (released_in w j \<and> refunded_in w j)" by (auto simp: released_in_def refunded_in_def)
  with Cons show ?case by (auto simp: count_of_def)
qed (simp add: count_of_def)

lemma unat_count_of: "length js < 2 ^ 64 \<Longrightarrow> unat (of_nat (count_of P js) :: u64) = count_of P js"
  using count_of_le [of P js] by (intro unat_of_nat_u64) linarith

definition sample_asset :: AssetIdentity where
  "sample_asset =
     \<lparr>NetworkID = ''tos'', MasterWorkchain = 0, MasterAccountID = replicate 64 CHR ''1'',
      MasterCodeHash = ''tvm-cell-sha256:'' @ replicate 64 CHR ''2'',
      WalletCodeHash = ''tvm-cell-sha256:'' @ replicate 64 CHR ''3'', Decimals = 6\<rparr>"

definition sample_job :: VerifiedJob where
  "sample_job =
     \<lparr>JobID = ''sha256:'' @ replicate 64 CHR ''a'', Asset = sample_asset,
      BuyerWallet = replicate 64 CHR ''b'', ProviderAgentID = ''agent_'' @ replicate 64 CHR ''c'',
      CapabilityID = ''cap_'' @ replicate 64 CHR ''d'', CapabilityVersion = ''1'',
      JobOutcome = OutcomeReleased, JobAttribution = AttributionAttributed, Amount = ''25'',
      AcceptanceTime = 10, FundingTime = 20, TerminalTime = 30\<rparr>"

definition sample_refund :: VerifiedJob where
  "sample_refund = sample_job\<lparr>JobID := ''sha256:'' @ replicate 64 CHR ''e'',
     JobOutcome := OutcomeRefunded, JobAttribution := AttributionNone\<rparr>"

definition sample_unfunded :: VerifiedJob where
  "sample_unfunded = sample_job\<lparr>JobOutcome := OutcomeNone, JobAttribution := AttributionNone,
     Amount := [], FundingTime := 0, TerminalTime := 0\<rparr>"

lemmas sample_defs = sample_job_def sample_refund_def sample_unfunded_def sample_asset_def



lemmas validate_defs = valid_job_def VerifiedJob_Validate_def AssetIdentity_Validate_def
  validateTerminal_def prefixed_hex64_def is_lower_hex_def parseAtomic_def canonical_dec_def is_dec_digit_def dec_value_def maxU256_def

lemma sample_asset_valid: "AssetIdentity_Validate sample_asset = Inr ()"
  by (simp add: sample_defs validate_defs)

lemma sample_job_valid: "valid_job sample_job" by (simp add: sample_defs validate_defs)
lemma sample_refund_valid: "valid_job sample_refund" by  (simp add: sample_defs validate_defs)
lemma sample_unfunded_valid: "valid_job sample_unfunded" by  (simp add: sample_defs validate_defs)

subsection \<open>Properties\<close>

text \<open>C33: the aggregator is deterministic in the sense its documentation asks for. Two runs over
  the same evidence in different arrival orders that both see the same multiset of job records
  produce the same sequence of metrics; in particular neither the first-seen order of the assets
  nor the order inside a bucket shows in the output.\<close>

theorem AggregateNetwork_order_independent:
  assumes "mset jobs = mset jobs'" and "length jobs < 2 ^ 64"
    and "AggregateNetwork jobs w = Inr ms"
  shows "AggregateNetwork jobs' w = Inr ms"
  using assms by (rule AggregateNetwork_mset)

lemma sample_buckets:
  "asset_keys [sample_refund, sample_job] = {AssetIdentity_key sample_asset}"
  "bucket_of (AssetIdentity_key sample_asset) [sample_refund, sample_job] =
     [sample_refund, sample_job]"
  by (simp_all add: asset_keys_def bucket_of_def sample_refund_def sample_job_def)

lemma sample_value: "value_of (released_in w) [sample_refund, sample_job] < maxU256"
  by (simp add: value_of_def released_in_def sample_refund_def sample_job_def job_value_def
      dec_value_def maxU256_def)

lemma sample_aggregate:
  "\<exists>m. AggregateNetwork [sample_refund, sample_job] \<lparr>From = 0, To = 100\<rparr> = Inr [m]"
proof -
  have "JobID sample_refund \<noteq> JobID sample_job"
    by (simp add: sample_refund_def sample_job_def)
  then show ?thesis
    using sample_job_valid sample_refund_valid sample_value
    by (simp add: AggregateNetwork_unfold well_formed_evidence_def sample_buckets bind_simps
        aggregateBucket_spec)
qed

theorem AggregateNetwork_order_independent_witness:
  "\<exists>m. AggregateNetwork [sample_refund, sample_job] \<lparr>From = 0, To = 100\<rparr> = Inr [m] \<and>
       AggregateNetwork [sample_job, sample_refund] \<lparr>From = 0, To = 100\<rparr> = Inr [m]"
proof -
  obtain m where m: "AggregateNetwork [sample_refund, sample_job] \<lparr>From = 0, To = 100\<rparr> = Inr [m]"
    using sample_aggregate by blast
  have "AggregateNetwork [sample_job, sample_refund] \<lparr>From = 0, To = 100\<rparr> = Inr [m]"
    by (rule AggregateNetwork_order_independent [OF _ _ m]) simp_all
  with m show ?thesis by blast
qed



text \<open>the published rates are integer parts per million that never exceed one million, both
  are null exactly when no job is terminal in the window, and otherwise the release and the
  refund rate account for the whole up to the one unit that rounding down can lose.\<close>

theorem aggregateBucket_rates:
  assumes "\<forall>j \<in> set jobs. valid_job j" and "length jobs < 2 ^ 64"
    and "aggregateBucket jobs w = Inr m"
  shows "case (TerminalReleaseRatePPM m, RefundRatePPM m) of
      (Some r, Some f) \<Rightarrow>
        0 < count_of (released_in w) jobs + count_of (refunded_in w) jobs \<and>
        999999 \<le> unat r + unat f \<and> unat r + unat f \<le> 1000000
    | (None, None) \<Rightarrow> count_of (released_in w) jobs + count_of (refunded_in w) jobs = 0
    | _ \<Rightarrow> False"
proof -
  obtain j0 js where js: "jobs = j0 # js"
    using assms(3) by (cases jobs) (auto simp: aggregateBucket_def)
  have m: "m = bucket_result (Asset j0) w (bucket_spec w jobs)"
    using aggregateBucket_spec [of j0 js w] assms js by (simp split: if_splits)
  let ?a = "count_of (released_in w) jobs" and ?b = "count_of (refunded_in w) jobs"
  let ?n = "of_nat ?a :: u64" and ?k = "of_nat ?b :: u64"
  have a: "unat ?n = ?a" and b: "unat ?k = ?b" by (rule unat_count_of [OF assms(2)])+
  have ab: "unat (?n + ?k) = ?a + ?b"
    using released_refunded_count [of w jobs] assms(2) a b by (subst unat_add_u64) auto
  have rates: "TerminalReleaseRatePPM m = ratePPM ?n (?n + ?k)" "RefundRatePPM m = ratePPM ?k (?n + ?k)"
    by (simp_all add: m bucket_result_def bucket_spec_def Let_def)
  show ?thesis
  proof (cases "?a + ?b = 0")
    case True
    with ab have "?n + ?k = 0" by (simp add: word_unat_eq_iff)
    with rates True show ?thesis by (simp add: ratePPM_def)
  next
    case False
    then have nz: "?n + ?k \<noteq> 0" using ab by auto
    have le: "?n \<le> ?n + ?k" "?k \<le> ?n + ?k" using a b ab by (simp_all add: word_le_nat_alt)
    from ratePPM_spec [OF nz le(1)] ratePPM_spec [OF nz le(2)] a b ab rates ppm_parts [of ?a ?b] False
    show ?thesis by auto
  qed
qed

theorem aggregateBucket_rates_witness:
  "\<exists>m. aggregateBucket [sample_job, sample_refund] \<lparr>From = 0, To = 100\<rparr> = Inr m \<and>
     TerminalReleaseRatePPM m \<noteq> None \<and> RefundRatePPM m \<noteq> None"
proof -
  let ?js = "[sample_job, sample_refund]" and ?w = "\<lparr>From = 0, To = 100\<rparr>"
  have v: "\<forall>j \<in> set ?js. valid_job j" using sample_job_valid sample_refund_valid by simp
  have s: "value_of (released_in ?w) ?js < maxU256" "count_of (released_in ?w) ?js = 1"
    by (simp_all add: value_of_def count_of_def released_in_def sample_refund_def sample_job_def
        Window_contains_def job_value_def dec_value_def maxU256_def)
  obtain m where m: "aggregateBucket ?js ?w = Inr m"
    using aggregateBucket_spec [of sample_job "[sample_refund]" ?w] v s by auto
  from aggregateBucket_rates [OF v _ m] s m show ?thesis
    by (auto split: option.splits)
qed

text \<open>C35: the bucket key of an asset separates assets. Two asset identities that pass validation
  have the same key only when they are the same identity, so amounts of different assets are
  never summed. The network name itself may contain the separator byte; the fixed shape of the
  other five fields is what makes the key unambiguous.\<close>

theorem AssetIdentity_key_injective:
  assumes "AssetIdentity_Validate a = Inr ()" and "AssetIdentity_Validate b = Inr ()"
  shows "AssetIdentity_key a = AssetIdentity_key b \<longleftrightarrow> a = b"
  using AssetIdentity_key_inj [OF assms] by auto

theorem AssetIdentity_key_injective_witness:
  "AssetIdentity_key sample_asset \<noteq> AssetIdentity_key (sample_asset\<lparr>Decimals := 7\<rparr>)"
proof -
  have "AssetIdentity_Validate (sample_asset\<lparr>Decimals := 7\<rparr>) = Inr ()"
    by (simp add: sample_defs validate_defs)
  moreover have "sample_asset \<noteq> sample_asset\<lparr>Decimals := 7\<rparr>" by (simp add: sample_asset_def)
  ultimately show ?thesis
    using AssetIdentity_key_injective [OF sample_asset_valid] by blast
qed

text \<open>the settlement percentiles are exact. On a sorted list the median is the central value,
  or the floor of the mean of the two central values with no wrap-around in between, and the 95th
  percentile is the value at one-based rank \<open>\<lceil>0.95 n\<rceil>\<close>, which is always a rank of the list.\<close>

theorem settlement_percentiles:
  assumes "ds \<noteq> []"
  shows "\<exists>m q. median ds = Some m \<and> p95 ds = Some q \<and>
    unat m = (if odd (length ds) then unat (ds ! (length ds div 2))
              else (unat (ds ! (length ds div 2 - 1)) + unat (ds ! (length ds div 2))) div 2) \<and>
    (\<exists>rank. 1 \<le> rank \<and> rank \<le> length ds \<and> q = ds ! (rank - 1) \<and>
       95 * length ds \<le> 100 * rank \<and> 100 * rank < 95 * length ds + 100)"
proof -
  have len: "length ds \<noteq> 0" using assms by simp
  have "\<exists>m. median ds = Some m \<and>
    unat m = (if odd (length ds) then unat (ds ! (length ds div 2))
              else (unat (ds ! (length ds div 2 - 1)) + unat (ds ! (length ds div 2))) div 2)"
    using len by (auto simp: median_def Let_def half_sum_no_overflow odd_iff_mod_2_eq_one)
  moreover have "\<exists>q rank. p95 ds = Some q \<and> 1 \<le> rank \<and> rank \<le> length ds \<and> q = ds ! (rank - 1) \<and>
       95 * length ds \<le> 100 * rank \<and> 100 * rank < 95 * length ds + 100"
  proof -
    let ?rank = "(95 * length ds + 99) div 100"
    have "1 \<le> ?rank \<and> ?rank \<le> length ds \<and> 95 * length ds \<le> 100 * ?rank \<and>
      100 * ?rank < 95 * length ds + 100" using len by linarith
    then show ?thesis using len by (intro exI [of _ "ds ! (?rank - 1)"] exI [of _ ?rank])
      (simp add: p95_def Let_def)
  qed
  ultimately show ?thesis by blast
qed

theorem settlement_percentiles_witness:
  "median [10, 20] = Some 15 \<and> p95 [10, 20] = Some 20"
  using settlement_percentiles [of "[10, 20 :: u64]"]
  by (auto simp: median_def p95_def word_unat_eq_iff)

text \<open>C36: the counter of funded jobs also counts jobs that were never funded. A job that has not
  been funded carries the funding time zero, which validation accepts for a job without a terminal
  outcome, and a window that starts at time zero contains it; the terminal time has a guard
  against exactly this, the funding time has none.\<close>

theorem unfunded_job_counted_as_funded:
  assumes "valid_job j" and "FundingTime j = 0" and "From w = 0" and "0 < To w"
  shows "\<exists>m. aggregateBucket [j] w = Inr m \<and> FundedJobCount m = 1"
proof -
  have "JobOutcome j \<noteq> OutcomeReleased" using valid_terminal(3) [OF assms(1)] assms(2) by auto
  then have "value_of (released_in w) [j] < maxU256"
    by (simp add: value_of_def released_in_def maxU256_def)
  moreover have "Window_contains w (FundingTime j)" using assms by (simp add: Window_contains_def)
  ultimately show ?thesis
    using aggregateBucket_spec [of j "[]" w] assms(1)
    by (simp add: bucket_result_def bucket_spec_def count_of_def Let_def)
qed

theorem unfunded_job_counted_as_funded_witness:
  "\<exists>m. aggregateBucket [sample_unfunded] \<lparr>From = 0, To = 100\<rparr> = Inr m \<and> FundedJobCount m = 1"
  by (rule unfunded_job_counted_as_funded) (use sample_unfunded_valid in \<open>simp_all add: sample_unfunded_def\<close>)

end
