(* ===== verification/Prediction_Market.thy ===== *)
theory Prediction_Market
  imports Go_Prelude "HOL-Library.AList"
begin

text \<open>
  The reference model of the prediction market, package \<^verbatim>\<open>pkg/predictionmarket\<close>: order
  validation (\<^verbatim>\<open>order.go\<close>), the bounded-arithmetic collateral model with its operations
  (\<^verbatim>\<open>model.go\<close>) and the address and enumeration checks they use (\<^verbatim>\<open>types.go\<close>). Balances are
  64-bit words; the account table is a Go map, an association list whose keys are distinct. The
  address package is third-party code and enters as the parameter of type \<open>addr_lib\<close>.

  The lemmas show that every operation keeps complete sets fully collateralised, that the
  defensive re-check inside each operation never fires, that backing is conserved, and that after
  finalization the remaining liability is exactly what the accounts can still claim.
\<close>

subsection \<open>Addresses and enumerations: types.go\<close>

record 'a addr_lib =
  ParseRawAddr :: "string \<Rightarrow> 'a option"
  IsStdAddress :: "'a \<Rightarrow> bool"
  BitsLen :: "'a \<Rightarrow> nat"
  StringRaw :: "'a \<Rightarrow> string"
  Workchain :: "'a \<Rightarrow> int"

definition PriceScale :: u16 where
  "PriceScale = 10000"

definition parseCanonicalAddress :: "'a addr_lib \<Rightarrow> string \<Rightarrow> 'a option" where
  "parseCanonicalAddress A value =
     (case ParseRawAddr A value of
        None \<Rightarrow> None
      | Some parsed \<Rightarrow>
          if \<not> IsStdAddress A parsed \<or> BitsLen A parsed \<noteq> 256 \<or> StringRaw A parsed \<noteq> value
          then None
          else if Workchain A parsed \<noteq> - 1 \<and> Workchain A parsed \<noteq> 0 then None
          else Some parsed)"

definition ActionBuy :: u8 where "ActionBuy = 0"
definition ActionSell :: u8 where "ActionSell = 1"
definition OutcomeYes :: u8 where "OutcomeYes = 0"
definition OutcomeNo :: u8 where "OutcomeNo = 1"
definition OutcomeInvalid :: u8 where "OutcomeInvalid = 2"
definition RoleMaker :: u8 where "RoleMaker = 0"
definition RoleTaker :: u8 where "RoleTaker = 1"

definition Action_valid :: "u8 \<Rightarrow> bool" where
  "Action_valid v = (v = ActionBuy \<or> v = ActionSell)"

definition Outcome_valid :: "u8 \<Rightarrow> bool" where
  "Outcome_valid v = (v \<le> OutcomeInvalid)"

definition LiquidityRole_valid :: "u8 \<Rightarrow> bool" where
  "LiquidityRole_valid v = (v = RoleMaker \<or> v = RoleTaker)"

definition Hash32_IsZero :: "bytes \<Rightarrow> bool" where
  "Hash32_IsZero h = (h = zero_bytes 32)"

subsection \<open>Orders: order.go\<close>

record PredictionOrderV1 =
  GlobalID :: int
  WorkchainID :: int
  MarketAddress :: string
  MarketConfigHash :: bytes
  OwnerAddress :: string
  KeyEpoch :: u32
  Nonce :: u64
  Salt :: bytes
  OrderAction :: u8
  OrderOutcome :: u8
  LiquidityRole :: u8
  QuantityLots :: u64
  MinFillLots :: u64
  AllowPartial :: bool
  LimitPriceTick :: u16
  ValidAfter :: u64
  ValidUntil :: u64
  OptionalCounterparty :: "string option"

datatype pm_error =
    OrderMarketDomain | OrderOwner | OrderWorkchain | OrderHashes | OrderEnum | OrderQuantity
  | OrderPrice | OrderInterval | OrderCounterparty
  | FillExceeds | FillOutsideInterval | FillAllOrNothing | FillDust
  | LotPayoutInvalid | DepositInvalid | FreeOverflow
  | SplitZero | SplitCollateral | SplitOverflow
  | MergeZero | MergeInsufficient
  | MatchZeroOrSelf | MatchRoles | MatchDomains | MatchCounterparty | MatchMakerPrice
  | MatchTakerLimit | MatchValueOverflow | MatchNoSemantics | MatchBacking
  | BuyerCollateral | YesOverflow | NoOverflow | MintBackingOverflow
  | BuyerFree | SellerFreeOverflow | SellerYes | SellerNo | BuyerPositionOverflow
  | MergeMatchBacking
  | FinalizeInvalid | NotFinalized | UnknownClaimAccount | PositionOverflow | ClaimSolvency
  | FinalConservation | AggregateYes | AggregateNo | PositionConservation | CollateralBacking
  | BackingOverflow

definition validateOrder ::
  "'a addr_lib \<Rightarrow> PredictionOrderV1 \<Rightarrow> pm_error + 'a \<times> 'a \<times> 'a option" where
  "validateOrder A v =
     (case parseCanonicalAddress A (MarketAddress v) of
        None \<Rightarrow> Inl OrderMarketDomain
      | Some market \<Rightarrow>
     if sint (of_int (Workchain A market) :: 8 word) \<noteq> WorkchainID v then Inl OrderMarketDomain
     else case parseCanonicalAddress A (OwnerAddress v) of
        None \<Rightarrow> Inl OrderOwner
      | Some owner \<Rightarrow>
     if WorkchainID v \<noteq> - 1 \<and> WorkchainID v \<noteq> 0 then Inl OrderWorkchain
     else if Hash32_IsZero (MarketConfigHash v) \<or> Hash32_IsZero (Salt v) then Inl OrderHashes
     else if \<not> Action_valid (OrderAction v) \<or>
             (OrderOutcome v \<noteq> OutcomeYes \<and> OrderOutcome v \<noteq> OutcomeNo) \<or>
             \<not> LiquidityRole_valid (LiquidityRole v) then Inl OrderEnum
     else if QuantityLots v = 0 \<or> MinFillLots v = 0 \<or> MinFillLots v > QuantityLots v
       then Inl OrderQuantity
     else if LimitPriceTick v = 0 \<or> LimitPriceTick v \<ge> PriceScale then Inl OrderPrice
     else if ValidUntil v = 0 \<or> ValidAfter v \<ge> ValidUntil v then Inl OrderInterval
     else case OptionalCounterparty v of
        None \<Rightarrow> Inr (market, owner, None)
      | Some c \<Rightarrow> (case parseCanonicalAddress A c of
            None \<Rightarrow> Inl OrderCounterparty
          | Some counterparty \<Rightarrow> Inr (market, owner, Some counterparty)))"

definition ValidateOrderFill ::
  "'a addr_lib \<Rightarrow> PredictionOrderV1 \<Rightarrow> u64 \<Rightarrow> u64 \<Rightarrow> u64 \<Rightarrow> u64 \<Rightarrow> u64 \<Rightarrow> pm_error + unit" where
  "ValidateOrderFill A ord alreadyFilled quantity marketMinimum now tradeClose =
     ebind (validateOrder A ord) (\<lambda>_.
     if quantity = 0 \<or> alreadyFilled > QuantityLots ord \<or> quantity > QuantityLots ord - alreadyFilled
       then Inl FillExceeds
     else if now < ValidAfter ord \<or> now \<ge> ValidUntil ord \<or> ValidUntil ord > tradeClose
       then Inl FillOutsideInterval
     else let remaining = QuantityLots ord - alreadyFilled in
       if \<not> AllowPartial ord then
         (if quantity \<noteq> remaining then Inl FillAllOrNothing else Inr ())
       else let minimum = (if MinFillLots ord > marketMinimum then MinFillLots ord
                           else marketMinimum) in
         if quantity \<noteq> remaining \<and> (quantity < minimum \<or> remaining - quantity < minimum)
         then Inl FillDust else Inr ())"

subsection \<open>The collateral model: model.go\<close>

record AccountBalance =
  Free :: u64
  YesLots :: u64
  NoLots :: u64

record ReferenceModel =
  LotPayout :: u64
  CompleteSets :: u64
  LockedCollateral :: u64
  Finalized :: bool
  FinalOutcome :: u8
  FinalBacking :: u64
  RemainingPayoutLiability :: u64
  CumulativeClaimedPayout :: u64
  Accounts :: "(string \<times> AccountBalance) list"

record MatchAmounts =
  YesValue :: u64
  NoValue :: u64
  Notional :: u64
  YesPrice :: u16

text \<open>\<^verbatim>\<open>bits.Add64\<close> and \<^verbatim>\<open>bits.Mul64\<close>: the low word and whether the high part is zero.\<close>

definition add64 :: "u64 \<Rightarrow> u64 \<Rightarrow> u64 \<times> bool" where
  "add64 l r = (l + r, unat l + unat r < 2 ^ 64)"

definition mul64 :: "u64 \<Rightarrow> u64 \<Rightarrow> u64 \<times> bool" where
  "mul64 l r = (l * r, unat l * unat r < 2 ^ 64)"

text \<open>Reading a key that a Go map does not hold gives the zero value.\<close>

definition zero_account :: AccountBalance where
  "zero_account = \<lparr>Free = 0, YesLots = 0, NoLots = 0\<rparr>"

definition account_of :: "ReferenceModel \<Rightarrow> string \<Rightarrow> AccountBalance" where
  "account_of m owner = (case map_of (Accounts m) owner of None \<Rightarrow> zero_account | Some a \<Rightarrow> a)"

definition put_account :: "ReferenceModel \<Rightarrow> string \<Rightarrow> AccountBalance \<Rightarrow> ReferenceModel" where
  "put_account m owner a = m\<lparr>Accounts := AList.update owner a (Accounts m)\<rparr>"

fun sum_positions ::
  "(string \<times> AccountBalance) list \<Rightarrow> u64 \<Rightarrow> u64 \<Rightarrow> pm_error + u64 \<times> u64" where
  "sum_positions [] yesTotal noTotal = Inr (yesTotal, noTotal)"
| "sum_positions ((_, a) # as) yesTotal noTotal =
     (let (yesTotal', ok) = add64 yesTotal (YesLots a) in
      if \<not> ok then Inl AggregateYes
      else let (noTotal', ok) = add64 noTotal (NoLots a) in
        if \<not> ok then Inl AggregateNo else sum_positions as yesTotal' noTotal')"

definition CheckInvariants :: "ReferenceModel \<Rightarrow> pm_error + unit" where
  "CheckInvariants m =
     (if Finalized m then
        (let (tot, ok) = add64 (RemainingPayoutLiability m) (CumulativeClaimedPayout m) in
         if \<not> ok \<or> tot \<noteq> FinalBacking m \<or> LockedCollateral m \<noteq> 0 then Inl FinalConservation
         else Inr ())
      else
        ebind (sum_positions (Accounts m) 0 0) (\<lambda>(yesTotal, noTotal).
          if yesTotal \<noteq> CompleteSets m \<or> noTotal \<noteq> CompleteSets m then Inl PositionConservation
          else let (expected, ok) = mul64 (CompleteSets m) (LotPayout m) in
            if \<not> ok \<or> expected \<noteq> LockedCollateral m then Inl CollateralBacking else Inr ()))"

fun sum_free :: "(string \<times> AccountBalance) list \<Rightarrow> u64 \<Rightarrow> pm_error + u64" where
  "sum_free [] tot = Inr tot"
| "sum_free ((_, a) # as) tot =
     (let (tot', ok) = add64 tot (Free a) in
      if \<not> ok then Inl BackingOverflow else sum_free as tot')"

definition TotalBacking :: "ReferenceModel \<Rightarrow> pm_error + u64" where
  "TotalBacking m =
     sum_free (Accounts m)
       (if Finalized m then RemainingPayoutLiability m else LockedCollateral m)"

definition NewReferenceModel :: "u64 \<Rightarrow> pm_error + ReferenceModel" where
  "NewReferenceModel lotPayout =
     (if lotPayout = 0 \<or> lotPayout mod ucast PriceScale \<noteq> 0 then Inl LotPayoutInvalid
      else Inr \<lparr>LotPayout = lotPayout, CompleteSets = 0, LockedCollateral = 0, Finalized = False,
                FinalOutcome = 0, FinalBacking = 0, RemainingPayoutLiability = 0,
                CumulativeClaimedPayout = 0, Accounts = []\<rparr>)"

text \<open>Every operation works on a clone and installs it only after the clone passed its own
  invariant check: \<open>commit\<close> is that common tail.\<close>

definition commit :: "ReferenceModel \<Rightarrow> pm_error + ReferenceModel" where
  "commit next = ebind (CheckInvariants next) (\<lambda>_. Inr next)"

definition Deposit ::
  "'a addr_lib \<Rightarrow> ReferenceModel \<Rightarrow> string \<Rightarrow> u64 \<Rightarrow> pm_error + ReferenceModel" where
  "Deposit A m owner amount =
     (if parseCanonicalAddress A owner = None \<or> amount = 0 \<or> Finalized m then Inl DepositInvalid
      else let account = account_of m owner; (next, ok) = add64 (Free account) amount in
        if \<not> ok then Inl FreeOverflow
        else commit (put_account m owner (account\<lparr>Free := next\<rparr>)))"

definition Split :: "ReferenceModel \<Rightarrow> string \<Rightarrow> u64 \<Rightarrow> pm_error + ReferenceModel" where
  "Split m owner quantity =
     (if Finalized m \<or> quantity = 0 then Inl SplitZero
      else let (debit, ok) = mul64 quantity (LotPayout m); account = account_of m owner in
        if \<not> ok \<or> Free account < debit then Inl SplitCollateral
        else let (yes, yesOK) = add64 (YesLots account) quantity;
                 (no, noOK) = add64 (NoLots account) quantity;
                 (sets, setsOK) = add64 (CompleteSets m) quantity;
                 (locked, lockedOK) = add64 (LockedCollateral m) debit in
          if \<not> yesOK \<or> \<not> noOK \<or> \<not> setsOK \<or> \<not> lockedOK then Inl SplitOverflow
          else commit ((put_account m owner
                  \<lparr>Free = Free account - debit, YesLots = yes, NoLots = no\<rparr>)
                \<lparr>CompleteSets := sets, LockedCollateral := locked\<rparr>))"

definition Merge :: "ReferenceModel \<Rightarrow> string \<Rightarrow> u64 \<Rightarrow> pm_error + ReferenceModel" where
  "Merge m owner quantity =
     (if Finalized m \<or> quantity = 0 then Inl MergeZero
      else let account = account_of m owner; (credit, ok) = mul64 quantity (LotPayout m);
               (free, freeOK) = add64 (Free account) credit in
        if \<not> ok \<or> \<not> freeOK \<or> YesLots account < quantity \<or> NoLots account < quantity \<or>
           CompleteSets m < quantity \<or> LockedCollateral m < credit then Inl MergeInsufficient
        else commit ((put_account m owner
                \<lparr>Free = free, YesLots = YesLots account - quantity,
                 NoLots = NoLots account - quantity\<rparr>)
              \<lparr>CompleteSets := CompleteSets m - quantity,
               LockedCollateral := LockedCollateral m - credit\<rparr>))"

definition orderAcceptsPrice :: "PredictionOrderV1 \<Rightarrow> u16 \<Rightarrow> u16 \<Rightarrow> bool" where
  "orderAcceptsPrice ord yesPrice noPrice =
     (let price = (if OrderOutcome ord = OutcomeNo then noPrice else yesPrice) in
      if OrderAction ord = ActionBuy then price \<le> LimitPriceTick ord
      else price \<ge> LimitPriceTick ord)"

definition side_value :: "PredictionOrderV1 \<Rightarrow> MatchAmounts \<Rightarrow> u64" where
  "side_value ord amounts =
     (if OrderOutcome ord = OutcomeNo then NoValue amounts else YesValue amounts)"

definition mint_side ::
  "PredictionOrderV1 \<Rightarrow> u64 \<Rightarrow> MatchAmounts \<Rightarrow> ReferenceModel \<Rightarrow> pm_error + ReferenceModel" where
  "mint_side ord quantity amounts m =
     (let account = account_of m (OwnerAddress ord); debit = side_value ord amounts in
      if Free account < debit then Inl BuyerCollateral
      else let account = account\<lparr>Free := Free account - debit\<rparr> in
        if OrderOutcome ord = OutcomeYes then
          (let (lots, ok) = add64 (YesLots account) quantity in
           if \<not> ok then Inl YesOverflow
           else Inr (put_account m (OwnerAddress ord) (account\<lparr>YesLots := lots\<rparr>)))
        else
          (let (lots, ok) = add64 (NoLots account) quantity in
           if \<not> ok then Inl NoOverflow
           else Inr (put_account m (OwnerAddress ord) (account\<lparr>NoLots := lots\<rparr>))))"

definition applyMint ::
  "PredictionOrderV1 \<Rightarrow> PredictionOrderV1 \<Rightarrow> u64 \<Rightarrow> MatchAmounts \<Rightarrow> ReferenceModel
   \<Rightarrow> pm_error + ReferenceModel" where
  "applyMint maker taker quantity amounts m =
     ebind (mint_side maker quantity amounts m) (\<lambda>m1.
     ebind (mint_side taker quantity amounts m1) (\<lambda>m2.
       let (sets, setsOK) = add64 (CompleteSets m2) quantity;
           (locked, lockedOK) = add64 (LockedCollateral m2) (Notional amounts) in
       if \<not> setsOK \<or> \<not> lockedOK then Inl MintBackingOverflow
       else Inr (m2\<lparr>CompleteSets := sets, LockedCollateral := locked\<rparr>)))"

definition applyTransfer ::
  "PredictionOrderV1 \<Rightarrow> PredictionOrderV1 \<Rightarrow> u64 \<Rightarrow> MatchAmounts \<Rightarrow> ReferenceModel
   \<Rightarrow> pm_error + ReferenceModel" where
  "applyTransfer maker taker quantity amounts m =
     (let (buyer, seller) =
            (if OrderAction maker \<noteq> ActionBuy then (taker, maker) else (maker, taker));
          value = side_value buyer amounts;
          buyAccount = account_of m (OwnerAddress buyer);
          sellAccount = account_of m (OwnerAddress seller) in
      if Free buyAccount < value then Inl BuyerFree
      else let (sellerFree, ok) = add64 (Free sellAccount) value in
        if \<not> ok then Inl SellerFreeOverflow
        else let buyAccount = buyAccount\<lparr>Free := Free buyAccount - value\<rparr>;
                 sellAccount = sellAccount\<lparr>Free := sellerFree\<rparr> in
          if OrderOutcome buyer = OutcomeYes then
            (if YesLots sellAccount < quantity then Inl SellerYes
             else let (lots, ok) = add64 (YesLots buyAccount) quantity in
               if \<not> ok then Inl BuyerPositionOverflow
               else Inr (put_account (put_account m (OwnerAddress buyer)
                      (buyAccount\<lparr>YesLots := lots\<rparr>)) (OwnerAddress seller)
                      (sellAccount\<lparr>YesLots := YesLots sellAccount - quantity\<rparr>)))
          else
            (if NoLots sellAccount < quantity then Inl SellerNo
             else let (lots, ok) = add64 (NoLots buyAccount) quantity in
               if \<not> ok then Inl BuyerPositionOverflow
               else Inr (put_account (put_account m (OwnerAddress buyer)
                      (buyAccount\<lparr>NoLots := lots\<rparr>)) (OwnerAddress seller)
                      (sellAccount\<lparr>NoLots := NoLots sellAccount - quantity\<rparr>))))"

definition merge_side ::
  "PredictionOrderV1 \<Rightarrow> u64 \<Rightarrow> MatchAmounts \<Rightarrow> ReferenceModel \<Rightarrow> pm_error + ReferenceModel" where
  "merge_side ord quantity amounts m =
     (let account = account_of m (OwnerAddress ord);
          (free, ok) = add64 (Free account) (side_value ord amounts) in
      if \<not> ok then Inl SellerFreeOverflow
      else let account = account\<lparr>Free := free\<rparr> in
        if OrderOutcome ord = OutcomeYes then
          (if YesLots account < quantity then Inl SellerYes
           else Inr (put_account m (OwnerAddress ord)
                  (account\<lparr>YesLots := YesLots account - quantity\<rparr>)))
        else
          (if NoLots account < quantity then Inl SellerNo
           else Inr (put_account m (OwnerAddress ord)
                  (account\<lparr>NoLots := NoLots account - quantity\<rparr>))))"

definition applyMergeMatch ::
  "PredictionOrderV1 \<Rightarrow> PredictionOrderV1 \<Rightarrow> u64 \<Rightarrow> MatchAmounts \<Rightarrow> ReferenceModel
   \<Rightarrow> pm_error + ReferenceModel" where
  "applyMergeMatch maker taker quantity amounts m =
     ebind (merge_side maker quantity amounts m) (\<lambda>m1.
     ebind (merge_side taker quantity amounts m1) (\<lambda>m2.
       if CompleteSets m2 < quantity \<or> LockedCollateral m2 < Notional amounts
       then Inl MergeMatchBacking
       else Inr (m2\<lparr>CompleteSets := CompleteSets m2 - quantity,
                    LockedCollateral := LockedCollateral m2 - Notional amounts\<rparr>)))"

text \<open>The maker and the taker of a pair, the price checks and the amounts of a match: the part of
  \<^verbatim>\<open>Match\<close> before the balances move.\<close>

definition match_roles ::
  "PredictionOrderV1 \<Rightarrow> PredictionOrderV1 \<Rightarrow> (PredictionOrderV1 \<times> PredictionOrderV1) option" where
  "match_roles left right =
     (if LiquidityRole left = RoleMaker \<and> LiquidityRole right = RoleTaker then Some (left, right)
      else if LiquidityRole right = RoleMaker \<and> LiquidityRole left = RoleTaker
        then Some (right, left)
      else None)"

definition match_amounts ::
  "ReferenceModel \<Rightarrow> PredictionOrderV1 \<Rightarrow> PredictionOrderV1 \<Rightarrow> u64 \<Rightarrow> pm_error + MatchAmounts" where
  "match_amounts m maker taker quantity =
     (let yesPrice = (if OrderOutcome maker = OutcomeNo then PriceScale - LimitPriceTick maker
                      else LimitPriceTick maker) in
      if yesPrice = 0 \<or> yesPrice \<ge> PriceScale then Inl MatchMakerPrice
      else let noPrice = PriceScale - yesPrice in
        if \<not> orderAcceptsPrice taker yesPrice noPrice then Inl MatchTakerLimit
        else let unit = LotPayout m div ucast PriceScale;
                 (base, ok) = mul64 quantity unit;
                 (yesValue, yesOK) = mul64 base (ucast yesPrice);
                 (notional, notionalOK) = mul64 quantity (LotPayout m) in
          if \<not> ok \<or> \<not> yesOK \<or> \<not> notionalOK \<or> yesValue > notional then Inl MatchValueOverflow
          else Inr \<lparr>YesValue = yesValue, NoValue = notional - yesValue, Notional = notional,
                    YesPrice = yesPrice\<rparr>)"

definition match_apply ::
  "ReferenceModel \<Rightarrow> PredictionOrderV1 \<Rightarrow> PredictionOrderV1 \<Rightarrow> u64 \<Rightarrow> MatchAmounts
   \<Rightarrow> pm_error + ReferenceModel" where
  "match_apply m maker taker quantity amounts =
     (if OrderAction maker = ActionBuy \<and> OrderAction taker = ActionBuy \<and>
         OrderOutcome maker \<noteq> OrderOutcome taker
        then applyMint maker taker quantity amounts m
      else if OrderAction maker \<noteq> OrderAction taker \<and> OrderOutcome maker = OrderOutcome taker
        then applyTransfer maker taker quantity amounts m
      else if OrderAction maker = ActionSell \<and> OrderAction taker = ActionSell \<and>
              OrderOutcome maker \<noteq> OrderOutcome taker
        then applyMergeMatch maker taker quantity amounts m
      else Inl MatchNoSemantics)"

definition Match ::
  "'a addr_lib \<Rightarrow> ReferenceModel \<Rightarrow> PredictionOrderV1 \<Rightarrow> PredictionOrderV1 \<Rightarrow> u64
   \<Rightarrow> pm_error + MatchAmounts \<times> ReferenceModel" where
  "Match A m left right quantity =
     (if Finalized m \<or> quantity = 0 \<or> OwnerAddress left = OwnerAddress right
        then Inl MatchZeroOrSelf
      else case match_roles left right of
        None \<Rightarrow> Inl MatchRoles
      | Some (maker, taker) \<Rightarrow>
          ebind (validateOrder A maker) (\<lambda>_.
          ebind (validateOrder A taker) (\<lambda>_.
          if GlobalID maker \<noteq> GlobalID taker \<or> WorkchainID maker \<noteq> WorkchainID taker \<or>
             MarketAddress maker \<noteq> MarketAddress taker \<or>
             MarketConfigHash maker \<noteq> MarketConfigHash taker then Inl MatchDomains
          else if (OptionalCounterparty maker \<noteq> None \<and>
                   OptionalCounterparty maker \<noteq> Some (OwnerAddress taker)) \<or>
                  (OptionalCounterparty taker \<noteq> None \<and>
                   OptionalCounterparty taker \<noteq> Some (OwnerAddress maker))
            then Inl MatchCounterparty
          else
            ebind (match_amounts m maker taker quantity) (\<lambda>amounts.
            ebind (TotalBacking m) (\<lambda>before.
            ebind (match_apply m maker taker quantity amounts) (\<lambda>next.
            case TotalBacking next of
              Inl _ \<Rightarrow> Inl MatchBacking
            | Inr after \<Rightarrow>
                if before \<noteq> after then Inl MatchBacking
                else ebind (commit next) (\<lambda>next. Inr (amounts, next))))))))"

definition Finalize :: "ReferenceModel \<Rightarrow> u8 \<Rightarrow> pm_error + ReferenceModel" where
  "Finalize m finalOutcome =
     (if Finalized m \<or> \<not> Outcome_valid finalOutcome \<or>
         (finalOutcome = OutcomeInvalid \<and> LotPayout m mod 2 \<noteq> 0) then Inl FinalizeInvalid
      else ebind (CheckInvariants m) (\<lambda>_.
        commit (m\<lparr>Finalized := True, FinalOutcome := finalOutcome,
                  FinalBacking := LockedCollateral m,
                  RemainingPayoutLiability := LockedCollateral m, LockedCollateral := 0\<rparr>)))"

text \<open>Lots and unit payout of an account under the final outcome; the flag is the overflow check of
  the invalid outcome. An outcome outside the three leaves both at zero.\<close>

definition claim_terms :: "ReferenceModel \<Rightarrow> AccountBalance \<Rightarrow> u64 \<times> u64 \<times> bool" where
  "claim_terms m account =
     (if FinalOutcome m = OutcomeYes then (YesLots account, LotPayout m, True)
      else if FinalOutcome m = OutcomeNo then (NoLots account, LotPayout m, True)
      else if FinalOutcome m = OutcomeInvalid then
        (let (lots, ok) = add64 (YesLots account) (NoLots account) in (lots, LotPayout m div 2, ok))
      else (0, 0, True))"

definition Claim :: "ReferenceModel \<Rightarrow> string \<Rightarrow> pm_error + u64 \<times> ReferenceModel" where
  "Claim m owner =
     (if \<not> Finalized m then Inl NotFinalized
      else case map_of (Accounts m) owner of
        None \<Rightarrow> Inl UnknownClaimAccount
      | Some account \<Rightarrow>
          let (lots, unit, lotsOK) = claim_terms m account in
          if \<not> lotsOK then Inl PositionOverflow
          else let (payout, payoutOK) = mul64 lots unit;
                   (free, freeOK) = add64 (Free account) payout;
                   (claimed, claimedOK) = add64 (CumulativeClaimedPayout m) payout in
            if \<not> payoutOK \<or> \<not> freeOK \<or> \<not> claimedOK \<or> RemainingPayoutLiability m < payout
            then Inl ClaimSolvency
            else ebind (commit ((put_account m owner \<lparr>Free = free, YesLots = 0, NoLots = 0\<rparr>)
                    \<lparr>RemainingPayoutLiability := RemainingPayoutLiability m - payout,
                     CumulativeClaimedPayout := claimed\<rparr>)) (\<lambda>next. Inr (payout, next)))"

subsection \<open>The account table\<close>

text \<open>What the operations rely on of the account table: reading after writing, and that the sum of
  a quantity over the table changes by exactly the difference at the written account.\<close>

locale account_table =
  fixes get_at :: "'m \<Rightarrow> 'k \<Rightarrow> 'a"
    and put_at :: "'m \<Rightarrow> 'k \<Rightarrow> 'a \<Rightarrow> 'm"
    and total :: "('a \<Rightarrow> nat) \<Rightarrow> 'm \<Rightarrow> nat"
    and zero :: 'a
  assumes get_put: "get_at (put_at m k a) k' = (if k' = k then a else get_at m k')"
    and total_put: "g zero = 0 \<Longrightarrow> total g (put_at m k a) + g (get_at m k) = total g m + g a"
begin

lemma at_le_total: "g zero = 0 \<Longrightarrow> g (get_at m k) \<le> total g m"
  using total_put [of g m k zero] by simp

lemma total_put_put:
  assumes "g zero = 0" and "k \<noteq> k'"
  shows "total g (put_at (put_at m k a) k' a') + g (get_at m k) + g (get_at m k')
         = total g m + g a + g a'"
  using total_put [of g "put_at m k a" k' a'] total_put [of g m k a] assms
  by (simp add: get_put)

lemma total_exchange:
  assumes "g zero = 0" and "k \<noteq> k'" and "g a + g a' = g (get_at m k) + g (get_at m k')"
  shows "total g (put_at (put_at m k a) k' a') = total g m"
  using total_put_put [of g k k' m a a'] assms by simp

end

definition table_total :: "(AccountBalance \<Rightarrow> nat) \<Rightarrow> ReferenceModel \<Rightarrow> nat" where
  "table_total g m = sum_list (map (\<lambda>p. g (snd p)) (Accounts m))"

lemma sum_update:
  "sum_list (map (\<lambda>p. g (snd p)) (AList.update k a as)) +
     (case map_of as k of None \<Rightarrow> 0 | Some b \<Rightarrow> g b)
   = sum_list (map (\<lambda>p. g (snd p)) as) + (g a :: nat)"
  by (induction as) auto

interpretation accounts: account_table account_of put_account table_total zero_account
proof unfold_locales
  fix m k a k'
  show "account_of (put_account m k a) k' = (if k' = k then a else account_of m k')"
    by (simp add: account_of_def put_account_def update_conv')
next
  fix g :: "AccountBalance \<Rightarrow> nat" and m k a
  assume "g zero_account = 0"
  then show "table_total g (put_account m k a) + g (account_of m k) = table_total g m + g a"
    using sum_update [of g k a "Accounts m"]
    by (simp add: table_total_def put_account_def account_of_def split: option.splits)
qed

lemma put_account_simps [simp]:
  "LotPayout (put_account m k a) = LotPayout m"
  "CompleteSets (put_account m k a) = CompleteSets m"
  "LockedCollateral (put_account m k a) = LockedCollateral m"
  "Finalized (put_account m k a) = Finalized m"
  "FinalOutcome (put_account m k a) = FinalOutcome m"
  "FinalBacking (put_account m k a) = FinalBacking m"
  "RemainingPayoutLiability (put_account m k a) = RemainingPayoutLiability m"
  "CumulativeClaimedPayout (put_account m k a) = CumulativeClaimedPayout m"
  by (simp_all add: put_account_def)

lemma table_total_frame [simp]:
  "table_total g (m\<lparr>CompleteSets := s\<rparr>) = table_total g m"
  "table_total g (m\<lparr>LockedCollateral := l\<rparr>) = table_total g m"
  "table_total g (m\<lparr>Finalized := f\<rparr>) = table_total g m"
  "table_total g (m\<lparr>FinalOutcome := c\<rparr>) = table_total g m"
  "table_total g (m\<lparr>FinalBacking := b\<rparr>) = table_total g m"
  "table_total g (m\<lparr>RemainingPayoutLiability := r\<rparr>) = table_total g m"
  "table_total g (m\<lparr>CumulativeClaimedPayout := p\<rparr>) = table_total g m"
  by (simp_all add: table_total_def)

subsection \<open>The specification over unbounded numbers\<close>

abbreviation yes_of :: "AccountBalance \<Rightarrow> nat" where "yes_of a \<equiv> unat (YesLots a)"
abbreviation no_of :: "AccountBalance \<Rightarrow> nat" where "no_of a \<equiv> unat (NoLots a)"
abbreviation free_of :: "AccountBalance \<Rightarrow> nat" where "free_of a \<equiv> unat (Free a)"

text \<open>Before finalization every complete set is backed by one lot payout.\<close>

definition open_inv :: "ReferenceModel \<Rightarrow> bool" where
  "open_inv m = (\<not> Finalized m \<and> CumulativeClaimedPayout m = 0 \<and>
     table_total yes_of m = unat (CompleteSets m) \<and> table_total no_of m = unat (CompleteSets m) \<and>
     unat (CompleteSets m) * unat (LotPayout m) = unat (LockedCollateral m))"

text \<open>What an account can claim under the final outcome.\<close>

definition payout_of :: "ReferenceModel \<Rightarrow> AccountBalance \<Rightarrow> nat" where
  "payout_of m a =
     (if FinalOutcome m = OutcomeYes then yes_of a * unat (LotPayout m)
      else if FinalOutcome m = OutcomeNo then no_of a * unat (LotPayout m)
      else (yes_of a + no_of a) * (unat (LotPayout m) div 2))"

definition final_inv :: "ReferenceModel \<Rightarrow> bool" where
  "final_inv m = (Finalized m \<and> LockedCollateral m = 0 \<and> Outcome_valid (FinalOutcome m) \<and>
     unat (RemainingPayoutLiability m) + unat (CumulativeClaimedPayout m) = unat (FinalBacking m) \<and>
     table_total (payout_of m) m = unat (RemainingPayoutLiability m) \<and>
     table_total yes_of m \<le> unat (CompleteSets m) \<and> table_total no_of m \<le> unat (CompleteSets m) \<and>
     unat (CompleteSets m) * unat (LotPayout m) = unat (FinalBacking m))"

definition market_inv :: "ReferenceModel \<Rightarrow> bool" where
  "market_inv m = (LotPayout m \<noteq> 0 \<and> 10000 dvd unat (LotPayout m) \<and>
     distinct (map fst (Accounts m)) \<and> (open_inv m \<or> final_inv m))"

text \<open>All the value the model holds, over unbounded numbers.\<close>

definition backing :: "ReferenceModel \<Rightarrow> nat" where
  "backing m = table_total free_of m +
     (if Finalized m then unat (RemainingPayoutLiability m) else unat (LockedCollateral m))"

subsection \<open>The checks against the specification\<close>

lemma sum_positions_ok:
  assumes "unat y + sum_list (map (\<lambda>p. yes_of (snd p)) as) < 2 ^ 64"
    and "unat n + sum_list (map (\<lambda>p. no_of (snd p)) as) < 2 ^ 64"
  shows "\<exists>y' n'. sum_positions as y n = Inr (y', n') \<and>
     unat y' = unat y + sum_list (map (\<lambda>p. yes_of (snd p)) as) \<and>
     unat n' = unat n + sum_list (map (\<lambda>p. no_of (snd p)) as)"
  using assms
proof (induction as arbitrary: y n)
  case Nil
  then show ?case by simp
next
  case (Cons p as)
  obtain k a where p: "p = (k, a)" by (cases p)
  have y: "unat y + yes_of a < 2 ^ 64" and n: "unat n + no_of a < 2 ^ 64"
    using Cons.prems p by simp_all
  have "unat (y + YesLots a) + sum_list (map (\<lambda>p. yes_of (snd p)) as) < 2 ^ 64"
    and "unat (n + NoLots a) + sum_list (map (\<lambda>p. no_of (snd p)) as) < 2 ^ 64"
    using Cons.prems p unat_add_u64 [OF y] unat_add_u64 [OF n] by simp_all
  from Cons.IH [OF this] show ?case
    using p y n unat_add_u64 [OF y] unat_add_u64 [OF n] by (simp add: add64_def add.assoc)
qed

lemma sum_free_ok:
  assumes "unat t + sum_list (map (\<lambda>p. free_of (snd p)) as) < 2 ^ 64"
  shows "\<exists>t'. sum_free as t = Inr t' \<and> unat t' = unat t + sum_list (map (\<lambda>p. free_of (snd p)) as)"
  using assms
proof (induction as arbitrary: t)
  case Nil
  then show ?case by simp
next
  case (Cons p as)
  obtain k a where p: "p = (k, a)" by (cases p)
  have t: "unat t + free_of a < 2 ^ 64" using Cons.prems p by simp
  have "unat (t + Free a) + sum_list (map (\<lambda>p. free_of (snd p)) as) < 2 ^ 64"
    using Cons.prems p unat_add_u64 [OF t] by simp
  from Cons.IH [OF this] show ?case
    using p t unat_add_u64 [OF t] by (simp add: add64_def add.assoc)
qed

lemma sum_free_err:
  assumes "\<not> unat t + sum_list (map (\<lambda>p. free_of (snd p)) as) < 2 ^ 64"
  shows "sum_free as t = Inl BackingOverflow"
  using assms
proof (induction as arbitrary: t)
  case Nil
  then show ?case using unat_u64_less [of t] by simp
next
  case (Cons p as)
  obtain k a where p: "p = (k, a)" by (cases p)
  show ?case
  proof (cases "unat t + free_of a < 2 ^ 64")
    case True
    then have "\<not> unat (t + Free a) + sum_list (map (\<lambda>p. free_of (snd p)) as) < 2 ^ 64"
      using Cons.prems p unat_add_u64 [OF True] by simp
    from Cons.IH [OF this] show ?thesis using True p by (simp add: add64_def)
  next
    case False
    then show ?thesis using p by (simp add: add64_def)
  qed
qed

lemma TotalBacking_spec:
  "TotalBacking m = (if backing m < 2 ^ 64 then Inr (of_nat (backing m)) else Inl BackingOverflow)"
proof -
  define t where "t = (if Finalized m then RemainingPayoutLiability m else LockedCollateral m)"
  have b: "backing m = unat t + sum_list (map (\<lambda>p. free_of (snd p)) (Accounts m))"
    by (simp add: backing_def table_total_def t_def)
  have T: "TotalBacking m = sum_free (Accounts m) t" by (simp add: TotalBacking_def t_def)
  show ?thesis
  proof (cases "backing m < 2 ^ 64")
    case True
    with b sum_free_ok [of t "Accounts m"] obtain t' where
      "sum_free (Accounts m) t = Inr t'" "unat t' = backing m" by auto
    moreover from this have "of_nat (backing m) = t'"
      using unat_of_nat_u64 [OF True] by (simp add: word_unat_eq_iff)
    ultimately show ?thesis using True T by simp
  next
    case False
    then show ?thesis using sum_free_err b T by simp
  qed
qed

lemma open_CheckInvariants:
  assumes "open_inv m"
  shows "CheckInvariants m = Inr ()"
proof -
  have t: "sum_list (map (\<lambda>p. yes_of (snd p)) (Accounts m)) = unat (CompleteSets m)"
    "sum_list (map (\<lambda>p. no_of (snd p)) (Accounts m)) = unat (CompleteSets m)"
    and p: "unat (CompleteSets m) * unat (LotPayout m) = unat (LockedCollateral m)"
    and f: "\<not> Finalized m"
    using assms by (simp_all add: open_inv_def table_total_def)
  obtain y n where s: "sum_positions (Accounts m) 0 0 = Inr (y, n)"
    and u: "unat y = unat (CompleteSets m)" "unat n = unat (CompleteSets m)"
    using sum_positions_ok [of 0 "Accounts m" 0] t unat_u64_less [of "CompleteSets m"] by auto
  have c: "y = CompleteSets m" "n = CompleteSets m" using u by (simp_all add: word_unat_eq_iff)
  have l: "unat (CompleteSets m) * unat (LotPayout m) < 2 ^ 64"
    using p unat_u64_less [of "LockedCollateral m"] by simp
  have "unat (CompleteSets m * LotPayout m) = unat (LockedCollateral m)"
    using unat_mult_u64 [OF l] p by simp
  then have "CompleteSets m * LotPayout m = LockedCollateral m" by (simp add: word_unat_eq_iff)
  then show ?thesis using f s c l by (simp add: CheckInvariants_def mul64_def)
qed

lemma final_CheckInvariants:
  assumes "final_inv m"
  shows "CheckInvariants m = Inr ()"
proof -
  have f: "Finalized m" "LockedCollateral m = 0" and
    s: "unat (RemainingPayoutLiability m) + unat (CumulativeClaimedPayout m) = unat (FinalBacking m)"
    using assms by (simp_all add: final_inv_def)
  have l: "unat (RemainingPayoutLiability m) + unat (CumulativeClaimedPayout m) < 2 ^ 64"
    using s unat_u64_less [of "FinalBacking m"] by simp
  have "unat (RemainingPayoutLiability m + CumulativeClaimedPayout m) = unat (FinalBacking m)"
    using unat_add_u64 [OF l] s by simp
  then have "RemainingPayoutLiability m + CumulativeClaimedPayout m = FinalBacking m"
    by (simp add: word_unat_eq_iff)
  then show ?thesis using f l by (simp add: CheckInvariants_def add64_def)
qed

lemma market_CheckInvariants: "market_inv m \<Longrightarrow> CheckInvariants m = Inr ()"
  by (auto simp: market_inv_def open_CheckInvariants final_CheckInvariants)

lemma commit_market: "market_inv m \<Longrightarrow> commit m = Inr m"
  by (simp add: commit_def market_CheckInvariants)

subsection \<open>Operations\<close>

text \<open>The contract of an operation on a model \<open>m\<close>: it fails with one of the errors \<open>E\<close>, or it
  keeps the invariant, adds exactly \<open>d\<close> to the backing and keeps the lot payout.\<close>

definition op_ok :: "pm_error set \<Rightarrow> nat \<Rightarrow> ReferenceModel \<Rightarrow> pm_error + ReferenceModel \<Rightarrow> bool" where
  "op_ok E d m r = (case r of
     Inl e \<Rightarrow> e \<in> E
   | Inr m' \<Rightarrow> market_inv m' \<and> backing m' = backing m + d \<and> LotPayout m' = LotPayout m)"

lemma op_ok_simps [simp]:
  "op_ok E d m (Inl e) = (e \<in> E)"
  "op_ok E d m (Inr m') = (market_inv m' \<and> backing m' = backing m + d \<and> LotPayout m' = LotPayout m)"
  by (simp_all add: op_ok_def)

lemma op_ok_commit:
  "market_inv m' \<Longrightarrow> backing m' = backing m + d \<Longrightarrow> LotPayout m' = LotPayout m \<Longrightarrow>
   op_ok E d m (commit m')"
  by (simp add: commit_market)

lemma market_open: "market_inv m \<Longrightarrow> \<not> Finalized m \<Longrightarrow> open_inv m"
  by (auto simp: market_inv_def final_inv_def)

lemma market_final: "market_inv m \<Longrightarrow> Finalized m \<Longrightarrow> final_inv m"
  by (auto simp: market_inv_def open_inv_def)

lemma distinct_put: "distinct (map fst (Accounts m)) \<Longrightarrow> distinct (map fst (Accounts (put_account m k a)))"
  by (simp add: put_account_def distinct_update)

lemma zero_account_measures [simp]:
  "YesLots zero_account = 0" "NoLots zero_account = 0" "Free zero_account = 0"
  "payout_of m zero_account = 0"
  by (simp_all add: zero_account_def payout_of_def)

lemma unat_sub_u64: "b \<le> a \<Longrightarrow> unat (a - b :: u64) = unat a - unat b"
  by (rule unat_sub)

lemma Deposit_ok:
  assumes "market_inv m"
  shows "op_ok {DepositInvalid, FreeOverflow} (unat amount) m (Deposit A m owner amount)"
proof (cases "parseCanonicalAddress A owner = None \<or> amount = 0 \<or> Finalized m")
  case True
  then show ?thesis by (auto simp: Deposit_def)
next
  case False
  let ?a = "account_of m owner"
  show ?thesis
  proof (cases "free_of ?a + unat amount < 2 ^ 64")
    case fits: True
    let ?m = "put_account m owner (?a\<lparr>Free := Free ?a + amount\<rparr>)"
    have "table_total free_of ?m = table_total free_of m + unat amount"
      using accounts.total_put [of free_of m owner "?a\<lparr>Free := Free ?a + amount\<rparr>"]
        unat_add_u64 [OF fits] by simp
    moreover have "table_total yes_of ?m = table_total yes_of m"
      "table_total no_of ?m = table_total no_of m"
      using accounts.total_put [of yes_of m owner "?a\<lparr>Free := Free ?a + amount\<rparr>"]
        accounts.total_put [of no_of m owner "?a\<lparr>Free := Free ?a + amount\<rparr>"] by simp_all
    ultimately have "market_inv ?m" "backing ?m = backing m + unat amount"
      using assms False market_open [OF assms] distinct_put [of m owner]
      by (simp_all add: market_inv_def open_inv_def backing_def)
    then show ?thesis
      using False fits by (simp add: Deposit_def add64_def commit_market Let_def)
  next
    case over: False
    then show ?thesis using False by (simp add: Deposit_def add64_def)
  qed
qed

text \<open>The shape of every collateral move on an open market: each side is rewritten once, the
  complete sets move by \<open>q\<close> and the locked collateral with them.\<close>

lemma open_market_next:
  assumes "market_inv m" "\<not> Finalized m" "\<not> Finalized m'" "LotPayout m' = LotPayout m"
    and "CumulativeClaimedPayout m' = CumulativeClaimedPayout m"
    and "distinct (map fst (Accounts m'))"
    and "table_total yes_of m' = unat (CompleteSets m')"
    and "table_total no_of m' = unat (CompleteSets m')"
    and "unat (CompleteSets m') * unat (LotPayout m) = unat (LockedCollateral m')"
  shows "market_inv m'"
  using assms market_open [OF assms(1,2)] by (simp add: market_inv_def open_inv_def)

lemma Split_ok:
  assumes "market_inv m"
  shows "op_ok {SplitZero, SplitCollateral, SplitOverflow} 0 m (Split m owner q)"
proof (cases "Finalized m \<or> q = 0")
  case True
  then show ?thesis by (simp add: Split_def)
next
  case live: False
  let ?a = "account_of m owner" and ?d = "q * LotPayout m"
  let ?b = "\<lparr>Free = Free ?a - ?d, YesLots = YesLots ?a + q, NoLots = NoLots ?a + q\<rparr>"
  let ?m = "(put_account m owner ?b)\<lparr>CompleteSets := CompleteSets m + q,
              LockedCollateral := LockedCollateral m + ?d\<rparr>"
  show ?thesis
  proof (cases "unat q * unat (LotPayout m) < 2 ^ 64 \<and> \<not> Free ?a < ?d \<and>
      yes_of ?a + unat q < 2 ^ 64 \<and> no_of ?a + unat q < 2 ^ 64 \<and>
      unat (CompleteSets m) + unat q < 2 ^ 64 \<and> unat (LockedCollateral m) + unat ?d < 2 ^ 64")
    case True
    note u = unat_mult_u64 [of q "LotPayout m"] unat_add_u64 [of "YesLots ?a" q]
      unat_add_u64 [of "NoLots ?a" q] unat_add_u64 [of "CompleteSets m" q]
      unat_add_u64 [of "LockedCollateral m" ?d] unat_sub_u64 [of ?d "Free ?a"]
    note o = market_open [OF assms, unfolded open_inv_def]
    have "unat ?d \<le> free_of ?a" using True by (simp add: word_le_nat_alt not_less)
    then have f: "table_total free_of ?m + unat ?d = table_total free_of m"
      using accounts.total_put [of free_of m owner ?b] u True by (simp add: not_less)
    have y: "table_total yes_of ?m = table_total yes_of m + unat q"
      using accounts.total_put [of yes_of m owner ?b] u True by simp
    have n: "table_total no_of ?m = table_total no_of m + unat q"
      using accounts.total_put [of no_of m owner ?b] u True by simp
    have "market_inv ?m"
      using assms live y n o u True
      by (intro open_market_next [OF assms])
        (simp_all add: distinct_put market_inv_def add_mult_distrib)
    moreover have "backing ?m = backing m" using f live u True by (simp add: backing_def)
    ultimately show ?thesis
      using live True by (simp add: Split_def mul64_def add64_def Let_def commit_market)
  next
    case False
    then show ?thesis
      using live by (auto simp: Split_def mul64_def add64_def Let_def)
  qed
qed

lemma Merge_ok:
  assumes "market_inv m"
  shows "op_ok {MergeZero, MergeInsufficient} 0 m (Merge m owner q)"
proof (cases "Finalized m \<or> q = 0")
  case True
  then show ?thesis by (simp add: Merge_def)
next
  case live: False
  let ?a = "account_of m owner" and ?c = "q * LotPayout m"
  let ?b = "\<lparr>Free = Free ?a + ?c, YesLots = YesLots ?a - q, NoLots = NoLots ?a - q\<rparr>"
  let ?m = "(put_account m owner ?b)\<lparr>CompleteSets := CompleteSets m - q,
              LockedCollateral := LockedCollateral m - ?c\<rparr>"
  show ?thesis
  proof (cases "unat q * unat (LotPayout m) < 2 ^ 64 \<and> free_of ?a + unat ?c < 2 ^ 64 \<and>
      q \<le> YesLots ?a \<and> q \<le> NoLots ?a \<and> q \<le> CompleteSets m \<and> ?c \<le> LockedCollateral m")
    case True
    note u = unat_mult_u64 [of q "LotPayout m"] unat_add_u64 [of "Free ?a" ?c]
      unat_sub_u64 [of q "YesLots ?a"] unat_sub_u64 [of q "NoLots ?a"]
      unat_sub_u64 [of q "CompleteSets m"] unat_sub_u64 [of ?c "LockedCollateral m"]
    note o = market_open [OF assms, unfolded open_inv_def]
    have le: "unat q \<le> yes_of ?a" "unat q \<le> no_of ?a" "unat q \<le> unat (CompleteSets m)"
      "unat ?c \<le> unat (LockedCollateral m)"
      using True by (simp_all add: word_le_nat_alt)
    have f: "table_total free_of ?m = table_total free_of m + unat ?c"
      using accounts.total_put [of free_of m owner ?b] u True by simp
    have y: "table_total yes_of ?m + unat q = table_total yes_of m"
      using accounts.total_put [of yes_of m owner ?b] u True le by simp
    have n: "table_total no_of ?m + unat q = table_total no_of m"
      using accounts.total_put [of no_of m owner ?b] u True le by simp
    have "market_inv ?m"
      using assms live y n o u True
      by (intro open_market_next [OF assms])
        (simp_all add: distinct_put market_inv_def diff_mult_distrib)
    moreover have "backing ?m = backing m" using f live u True le by (simp add: backing_def)
    ultimately show ?thesis
      using live True by (simp add: Merge_def mul64_def add64_def Let_def commit_market not_less)
  next
    case False
    then show ?thesis
      using live by (auto simp: Merge_def mul64_def add64_def Let_def not_less)
  qed
qed

subsection \<open>Matching\<close>

lemma enum_distinct [simp]:
  "OutcomeYes \<noteq> OutcomeNo" "OutcomeNo \<noteq> OutcomeYes" "OutcomeYes \<noteq> OutcomeInvalid"
  "OutcomeNo \<noteq> OutcomeInvalid" "OutcomeInvalid \<noteq> OutcomeYes" "OutcomeInvalid \<noteq> OutcomeNo"
  "ActionBuy \<noteq> ActionSell" "ActionSell \<noteq> ActionBuy" "RoleMaker \<noteq> RoleTaker" "RoleTaker \<noteq> RoleMaker"
  by (simp_all add: OutcomeYes_def OutcomeNo_def OutcomeInvalid_def ActionBuy_def ActionSell_def
      RoleMaker_def RoleTaker_def)

lemma validateOrder_facts:
  assumes "validateOrder A v = Inr r"
  shows "OrderAction v = ActionBuy \<or> OrderAction v = ActionSell"
    and "OrderOutcome v = OutcomeYes \<or> OrderOutcome v = OutcomeNo"
    and "QuantityLots v \<noteq> 0" and "MinFillLots v \<noteq> 0" and "MinFillLots v \<le> QuantityLots v"
    and "LimitPriceTick v \<noteq> 0" and "LimitPriceTick v < PriceScale"
    and "ValidAfter v < ValidUntil v"
  using assms
  by (auto simp: validateOrder_def Action_valid_def split: option.splits if_splits)

lemma mint_side_effect:
  assumes "mint_side ord q am m = Inr m'"
  shows "\<exists>b. m' = put_account m (OwnerAddress ord) b \<and>
     free_of b + unat (side_value ord am) = free_of (account_of m (OwnerAddress ord)) \<and>
     yes_of b = yes_of (account_of m (OwnerAddress ord)) +
       (if OrderOutcome ord = OutcomeYes then unat q else 0) \<and>
     no_of b = no_of (account_of m (OwnerAddress ord)) +
       (if OrderOutcome ord = OutcomeYes then 0 else unat q)"
proof -
  let ?a = "account_of m (OwnerAddress ord)" and ?d = "side_value ord am"
  have "\<not> Free ?a < ?d" using assms by (auto simp: mint_side_def Let_def)
  then have f: "unat (Free ?a - ?d) + unat ?d = free_of ?a"
    using unat_sub_u64 [of ?d "Free ?a"] by (simp add: not_less word_le_nat_alt)
  show ?thesis
  proof (cases "OrderOutcome ord = OutcomeYes")
    case True
    then have "m' = put_account m (OwnerAddress ord)
        (?a\<lparr>Free := Free ?a - ?d, YesLots := YesLots ?a + q\<rparr>)"
      and s: "yes_of ?a + unat q < 2 ^ 64"
      using assms by (auto simp: mint_side_def add64_def Let_def split: if_splits)
    then show ?thesis using True f unat_add_u64 [OF s] by (intro exI [of _ "?a\<lparr>Free := Free ?a - ?d, YesLots := YesLots ?a + q\<rparr>"]) simp
  next
    case False
    then have "m' = put_account m (OwnerAddress ord)
        (?a\<lparr>Free := Free ?a - ?d, NoLots := NoLots ?a + q\<rparr>)"
      and s: "no_of ?a + unat q < 2 ^ 64"
      using assms by (auto simp: mint_side_def add64_def Let_def split: if_splits)
    then show ?thesis using False f unat_add_u64 [OF s] by (intro exI [of _ "?a\<lparr>Free := Free ?a - ?d, NoLots := NoLots ?a + q\<rparr>"]) simp
  qed
qed

lemma mint_side_error:
  "mint_side ord q am m = Inl e \<Longrightarrow> e \<in> {BuyerCollateral, YesOverflow, NoOverflow}"
  by (auto simp: mint_side_def add64_def Let_def split: if_splits)

lemma merge_side_effect:
  assumes "merge_side ord q am m = Inr m'"
  shows "\<exists>b. m' = put_account m (OwnerAddress ord) b \<and>
     free_of b = free_of (account_of m (OwnerAddress ord)) + unat (side_value ord am) \<and>
     yes_of b + (if OrderOutcome ord = OutcomeYes then unat q else 0) =
       yes_of (account_of m (OwnerAddress ord)) \<and>
     no_of b + (if OrderOutcome ord = OutcomeYes then 0 else unat q) =
       no_of (account_of m (OwnerAddress ord))"
proof -
  let ?a = "account_of m (OwnerAddress ord)" and ?d = "side_value ord am"
  have s: "free_of ?a + unat ?d < 2 ^ 64"
    using assms by (auto simp: merge_side_def add64_def Let_def split: if_splits)
  show ?thesis
  proof (cases "OrderOutcome ord = OutcomeYes")
    case True
    then have "m' = put_account m (OwnerAddress ord)
        (?a\<lparr>Free := Free ?a + ?d, YesLots := YesLots ?a - q\<rparr>)" and "q \<le> YesLots ?a"
      using assms by (auto simp: merge_side_def add64_def Let_def not_less split: if_splits)
    then show ?thesis
      using True unat_add_u64 [OF s] unat_sub_u64 [of q "YesLots ?a"]
      by (intro exI [of _ "?a\<lparr>Free := Free ?a + ?d, YesLots := YesLots ?a - q\<rparr>"])
        (simp add: word_le_nat_alt)
  next
    case False
    then have "m' = put_account m (OwnerAddress ord)
        (?a\<lparr>Free := Free ?a + ?d, NoLots := NoLots ?a - q\<rparr>)" and "q \<le> NoLots ?a"
      using assms by (auto simp: merge_side_def add64_def Let_def not_less split: if_splits)
    then show ?thesis
      using False unat_add_u64 [OF s] unat_sub_u64 [of q "NoLots ?a"]
      by (intro exI [of _ "?a\<lparr>Free := Free ?a + ?d, NoLots := NoLots ?a - q\<rparr>"])
        (simp add: word_le_nat_alt)
  qed
qed

lemma merge_side_error:
  "merge_side ord q am m = Inl e \<Longrightarrow> e \<in> {SellerFreeOverflow, SellerYes, SellerNo}"
  by (auto simp: merge_side_def add64_def Let_def split: if_splits)

text \<open>The amounts of a match split the notional between the two outcomes.\<close>

definition amounts_split :: "ReferenceModel \<Rightarrow> u64 \<Rightarrow> MatchAmounts \<Rightarrow> bool" where
  "amounts_split m q am = (unat (YesValue am) + unat (NoValue am) = unat (Notional am) \<and>
     unat (Notional am) = unat q * unat (LotPayout m))"

abbreviation opposite_outcomes :: "PredictionOrderV1 \<Rightarrow> PredictionOrderV1 \<Rightarrow> bool" where
  "opposite_outcomes v w \<equiv> {OrderOutcome v, OrderOutcome w} = {OutcomeYes, OutcomeNo}"

lemma opposite_values:
  "opposite_outcomes v w \<Longrightarrow> amounts_split m q am \<Longrightarrow>
   unat (side_value v am) + unat (side_value w am) = unat q * unat (LotPayout m)"
  by (auto simp: side_value_def amounts_split_def doubleton_eq_iff)

lemma applyMint_ok:
  assumes inv: "market_inv m" and live: "\<not> Finalized m"
    and ne: "OwnerAddress maker \<noteq> OwnerAddress taker"
    and opp: "opposite_outcomes maker taker" and am: "amounts_split m q am"
  shows "op_ok {BuyerCollateral, YesOverflow, NoOverflow, MintBackingOverflow} 0 m
    (applyMint maker taker q am m)"
proof (cases "mint_side maker q am m")
  case (Inl e)
  then show ?thesis using mint_side_error [OF Inl] by (auto simp: applyMint_def)
next
  case 1: (Inr m1)
  show ?thesis
  proof (cases "mint_side taker q am m1")
    case (Inl e)
    then show ?thesis using 1 mint_side_error [OF Inl] by (auto simp: applyMint_def)
  next
    case 2: (Inr m2)
    let ?k = "OwnerAddress maker" and ?k' = "OwnerAddress taker"
    from mint_side_effect [OF 1] obtain b where m1: "m1 = put_account m ?k b"
      and b: "free_of b + unat (side_value maker am) = free_of (account_of m ?k)"
        "yes_of b = yes_of (account_of m ?k) + (if OrderOutcome maker = OutcomeYes then unat q else 0)"
        "no_of b = no_of (account_of m ?k) + (if OrderOutcome maker = OutcomeYes then 0 else unat q)"
      by blast
    from mint_side_effect [OF 2] ne obtain c where m2: "m2 = put_account m1 ?k' c"
      and c: "free_of c + unat (side_value taker am) = free_of (account_of m ?k')"
        "yes_of c = yes_of (account_of m ?k') + (if OrderOutcome taker = OutcomeYes then unat q else 0)"
        "no_of c = no_of (account_of m ?k') + (if OrderOutcome taker = OutcomeYes then 0 else unat q)"
      unfolding m1 accounts.get_put by auto
    have y: "table_total yes_of m2 = table_total yes_of m + unat q"
      using accounts.total_put_put [of yes_of ?k ?k' m b c] ne b c opp m1 m2
      by (auto simp: doubleton_eq_iff)
    have n: "table_total no_of m2 = table_total no_of m + unat q"
      using accounts.total_put_put [of no_of ?k ?k' m b c] ne b c opp m1 m2
      by (auto simp: doubleton_eq_iff)
    have f: "table_total free_of m2 + unat q * unat (LotPayout m) = table_total free_of m"
      using accounts.total_put_put [of free_of ?k ?k' m b c] ne b c m1 m2
        opposite_values [OF opp am] by simp
    let ?next = "m2\<lparr>CompleteSets := CompleteSets m2 + q,
                   LockedCollateral := LockedCollateral m2 + Notional am\<rparr>"
    show ?thesis
    proof (cases "unat (CompleteSets m) + unat q < 2 ^ 64 \<and>
        unat (LockedCollateral m) + unat (Notional am) < 2 ^ 64")
      case True
      then have u: "unat (CompleteSets m + q) = unat (CompleteSets m) + unat q"
        "unat (LockedCollateral m + Notional am) = unat (LockedCollateral m) + unat (Notional am)"
        by (simp_all add: unat_add_u64)
      have d: "distinct (map fst (Accounts m2))"
        using inv m1 m2 by (simp add: market_inv_def distinct_put)
      have "market_inv ?next"
        using y n u am d m1 m2 live market_open [OF inv live]
        by (intro open_market_next [OF inv])
          (simp_all add: open_inv_def amounts_split_def add_mult_distrib)
      moreover have "backing ?next = backing m"
        using f u am m1 m2 live by (simp add: backing_def amounts_split_def)
      ultimately show ?thesis
        using 1 2 True m1 m2 by (simp add: applyMint_def add64_def)
    next
      case False
      then show ?thesis using 1 2 m1 m2 by (auto simp: applyMint_def add64_def)
    qed
  qed
qed

lemma applyMergeMatch_ok:
  assumes inv: "market_inv m" and live: "\<not> Finalized m"
    and ne: "OwnerAddress maker \<noteq> OwnerAddress taker"
    and opp: "opposite_outcomes maker taker" and am: "amounts_split m q am"
  shows "op_ok {SellerFreeOverflow, SellerYes, SellerNo} 0 m (applyMergeMatch maker taker q am m)"
proof (cases "merge_side maker q am m")
  case (Inl e)
  then show ?thesis using merge_side_error [OF Inl] by (auto simp: applyMergeMatch_def)
next
  case 1: (Inr m1)
  show ?thesis
  proof (cases "merge_side taker q am m1")
    case (Inl e)
    then show ?thesis using 1 merge_side_error [OF Inl] by (auto simp: applyMergeMatch_def)
  next
    case 2: (Inr m2)
    let ?k = "OwnerAddress maker" and ?k' = "OwnerAddress taker"
    from merge_side_effect [OF 1] obtain b where m1: "m1 = put_account m ?k b"
      and b: "free_of b = free_of (account_of m ?k) + unat (side_value maker am)"
        "yes_of b + (if OrderOutcome maker = OutcomeYes then unat q else 0) = yes_of (account_of m ?k)"
        "no_of b + (if OrderOutcome maker = OutcomeYes then 0 else unat q) = no_of (account_of m ?k)"
      by blast
    from merge_side_effect [OF 2] ne obtain c where m2: "m2 = put_account m1 ?k' c"
      and c: "free_of c = free_of (account_of m ?k') + unat (side_value taker am)"
        "yes_of c + (if OrderOutcome taker = OutcomeYes then unat q else 0) = yes_of (account_of m ?k')"
        "no_of c + (if OrderOutcome taker = OutcomeYes then 0 else unat q) = no_of (account_of m ?k')"
      unfolding m1 accounts.get_put by auto
    have y: "table_total yes_of m2 + unat q = table_total yes_of m"
      using accounts.total_put_put [of yes_of ?k ?k' m b c] ne b c opp m1 m2
      by (auto simp: doubleton_eq_iff)
    have n: "table_total no_of m2 + unat q = table_total no_of m"
      using accounts.total_put_put [of no_of ?k ?k' m b c] ne b c opp m1 m2
      by (auto simp: doubleton_eq_iff)
    have f: "table_total free_of m2 = table_total free_of m + unat q * unat (LotPayout m)"
      using accounts.total_put_put [of free_of ?k ?k' m b c] ne b c m1 m2
        opposite_values [OF opp am] by simp
    note o = market_open [OF inv live, unfolded open_inv_def]
    have le: "unat q \<le> unat (CompleteSets m)" using y o by simp
    then have le': "unat (Notional am) \<le> unat (LockedCollateral m)"
      using o am mult_le_mono1 [OF le, of "unat (LotPayout m)"] by (simp add: amounts_split_def)
    have u: "unat (CompleteSets m - q) = unat (CompleteSets m) - unat q"
      "unat (LockedCollateral m - Notional am) = unat (LockedCollateral m) - unat (Notional am)"
      using le le' by (simp_all add: unat_sub_u64 word_le_nat_alt)
    let ?next = "m2\<lparr>CompleteSets := CompleteSets m2 - q,
                   LockedCollateral := LockedCollateral m2 - Notional am\<rparr>"
    have d: "distinct (map fst (Accounts m2))"
      using inv m1 m2 by (simp add: market_inv_def distinct_put)
    have "market_inv ?next"
      using y n u am d m1 m2 live o
      by (intro open_market_next [OF inv])
        (simp_all add: amounts_split_def diff_mult_distrib)
    moreover have "backing ?next = backing m"
      using f u am m1 m2 live le' by (simp add: backing_def amounts_split_def)
    ultimately show ?thesis
      using 1 2 m1 m2 le le' by (simp add: applyMergeMatch_def word_less_nat_alt not_less)
  qed
qed

lemma applyTransfer_ok:
  assumes inv: "market_inv m" and live: "\<not> Finalized m"
    and ne: "OwnerAddress maker \<noteq> OwnerAddress taker"
  shows "op_ok {BuyerFree, SellerFreeOverflow, SellerYes, SellerNo} 0 m
    (applyTransfer maker taker q am m)"
proof -
  define buyer seller where "buyer = (if OrderAction maker \<noteq> ActionBuy then taker else maker)"
    and "seller = (if OrderAction maker \<noteq> ActionBuy then maker else taker)"
  let ?k = "OwnerAddress buyer" and ?k' = "OwnerAddress seller" and ?v = "side_value buyer am"
  let ?a = "account_of m ?k" and ?s = "account_of m ?k'"
  have ne': "?k \<noteq> ?k'" using ne by (auto simp: buyer_def seller_def)
  have pair: "(if OrderAction maker \<noteq> ActionBuy then (taker, maker) else (maker, taker)) = (buyer, seller)"
    by (simp add: buyer_def seller_def)
  have next_ok: "market_inv m' \<and> backing m' = backing m \<and> LotPayout m' = LotPayout m"
    if m': "m' = put_account (put_account m ?k b) ?k' c"
      and f: "free_of b + free_of c = free_of ?a + free_of ?s"
      and y: "yes_of b + yes_of c = yes_of ?a + yes_of ?s"
      and n: "no_of b + no_of c = no_of ?a + no_of ?s" for m' b c
  proof -
    have t: "table_total free_of m' = table_total free_of m"
      "table_total yes_of m' = table_total yes_of m" "table_total no_of m' = table_total no_of m"
      using accounts.total_exchange [OF _ ne'] f y n m' by simp_all
    have "market_inv m'"
      using t m' live market_open [OF inv live] inv
      by (intro open_market_next [OF inv]) (simp_all add: open_inv_def market_inv_def distinct_put)
    then show ?thesis using t m' live by (simp add: backing_def)
  qed
  show ?thesis
  proof (cases "Free ?a < ?v \<or> \<not> free_of ?s + unat ?v < 2 ^ 64")
    case True
    then show ?thesis by (auto simp: applyTransfer_def pair add64_def Let_def)
  next
    case False
    then have f: "unat (Free ?a - ?v) + unat (Free ?s + ?v) = free_of ?a + free_of ?s"
      using unat_sub_u64 [of ?v "Free ?a"] unat_add_u64 [of "Free ?s" ?v]
      by (simp add: not_less word_le_nat_alt)
    have yfit: "yes_of ?a + unat q < 2 ^ 64" if "q \<le> YesLots ?s"
    proof -
      have "yes_of ?a + yes_of ?s \<le> table_total yes_of m"
        using accounts.total_put_put [of yes_of ?k ?k' m zero_account zero_account] ne' by simp
      also have "\<dots> = unat (CompleteSets m)" using market_open [OF inv live] by (simp add: open_inv_def)
      finally show ?thesis
        using that unat_u64_less [of "CompleteSets m"] by (simp add: word_le_nat_alt)
    qed
    have nfit: "no_of ?a + unat q < 2 ^ 64" if "q \<le> NoLots ?s"
    proof -
      have "no_of ?a + no_of ?s \<le> table_total no_of m"
        using accounts.total_put_put [of no_of ?k ?k' m zero_account zero_account] ne' by simp
      also have "\<dots> = unat (CompleteSets m)" using market_open [OF inv live] by (simp add: open_inv_def)
      finally show ?thesis
        using that unat_u64_less [of "CompleteSets m"] by (simp add: word_le_nat_alt)
    qed
    show ?thesis
    proof (cases "OrderOutcome buyer = OutcomeYes")
      case Y: True
      show ?thesis
      proof (cases "q \<le> YesLots ?s")
        case True
        then have "unat (YesLots ?a + q) + unat (YesLots ?s - q) = yes_of ?a + yes_of ?s"
          using unat_sub_u64 [OF True] unat_add_u64 [OF yfit [OF True]]
          by (simp add: word_le_nat_alt)
        then show ?thesis
          using False Y True yfit [OF True] f
            next_ok [OF refl, of "?a\<lparr>Free := Free ?a - ?v, YesLots := YesLots ?a + q\<rparr>"
              "?s\<lparr>Free := Free ?s + ?v, YesLots := YesLots ?s - q\<rparr>"]
          by (simp add: applyTransfer_def pair add64_def Let_def not_less)
      next
        case short: False
        then show ?thesis
          using False Y by (simp add: applyTransfer_def pair add64_def Let_def not_le)
      qed
    next
      case N: False
      show ?thesis
      proof (cases "q \<le> NoLots ?s")
        case True
        then have "unat (NoLots ?a + q) + unat (NoLots ?s - q) = no_of ?a + no_of ?s"
          using unat_sub_u64 [OF True] unat_add_u64 [OF nfit [OF True]]
          by (simp add: word_le_nat_alt)
        then show ?thesis
          using False N True nfit [OF True] f
            next_ok [OF refl, of "?a\<lparr>Free := Free ?a - ?v, NoLots := NoLots ?a + q\<rparr>"
              "?s\<lparr>Free := Free ?s + ?v, NoLots := NoLots ?s - q\<rparr>"]
          by (simp add: applyTransfer_def pair add64_def Let_def not_less)
      next
        case short: False
        then show ?thesis
          using False N by (simp add: applyTransfer_def pair add64_def Let_def not_le)
      qed
    qed
  qed
qed

text \<open>The amounts: the YES side is priced at \<open>YesPrice\<close> ticks of ten thousand, the NO side at the
  complement, and both add up to the notional.\<close>

lemma unat_ucast_u16 [simp]: "unat (ucast (w :: u16) :: u64) = unat w"
  by transfer simp

lemma PriceScale_simps [simp]:
  "(ucast PriceScale :: u64) = 10000" "unat PriceScale = 10000"
  by (simp_all add: PriceScale_def)

lemma match_amounts_facts:
  assumes "match_amounts m maker taker q = Inr am" and div: "10000 dvd unat (LotPayout m)"
  shows "amounts_split m q am"
    and "unat (YesValue am) * 10000 = unat q * unat (LotPayout m) * unat (YesPrice am)"
    and "YesPrice am = (if OrderOutcome maker = OutcomeNo then PriceScale - LimitPriceTick maker
                        else LimitPriceTick maker)"
    and "0 < unat (YesPrice am)" and "unat (YesPrice am) < 10000"
    and "orderAcceptsPrice taker (YesPrice am) (PriceScale - YesPrice am)"
proof -
  define yp where "yp = (if OrderOutcome maker = OutcomeNo then PriceScale - LimitPriceTick maker
                        else LimitPriceTick maker)"
  let ?u = "LotPayout m div 10000"
  let ?y = "q * ?u * ucast yp" and ?n = "q * LotPayout m"
  have g: "yp \<noteq> 0" "yp < PriceScale" "orderAcceptsPrice taker yp (PriceScale - yp)"
    "unat q * unat ?u < 2 ^ 64" "unat (q * ?u) * unat yp < 2 ^ 64"
    "unat q * unat (LotPayout m) < 2 ^ 64" "?y \<le> ?n"
    and am: "am = \<lparr>YesValue = ?y, NoValue = ?n - ?y, Notional = ?n, YesPrice = yp\<rparr>"
    using assms(1)
    by (auto simp: match_amounts_def yp_def [symmetric] Let_def mul64_def not_less split: if_splits)
  have u: "unat (q * ?u) = unat q * unat ?u" "unat ?n = unat q * unat (LotPayout m)"
    using g by (simp_all add: unat_mult_u64)
  have y: "unat ?y = unat q * unat ?u * unat yp"
    using g(5) u unat_mult_u64 [of "q * ?u" "ucast yp"] by simp
  have "unat ?u = unat (LotPayout m) div 10000" by (simp add: unat_div_distrib)
  then have ten: "unat ?u * 10000 = unat (LotPayout m)" using div by simp
  have "unat (?n - ?y) = unat ?n - unat ?y" "unat ?y \<le> unat ?n"
    using g(7) by (simp_all add: unat_sub_u64 word_le_nat_alt)
  then show "amounts_split m q am" using am u by (simp add: amounts_split_def)
  have "unat ?y * 10000 = unat q * (unat ?u * 10000) * unat yp" using y by simp
  then show "unat (YesValue am) * 10000 = unat q * unat (LotPayout m) * unat (YesPrice am)"
    using am ten by simp
  show "YesPrice am = (if OrderOutcome maker = OutcomeNo then PriceScale - LimitPriceTick maker
                        else LimitPriceTick maker)" using am yp_def by simp
  show "0 < unat (YesPrice am)" using am g(1) by (simp add: unat_gt_0)
  show "unat (YesPrice am) < 10000" using am g(2) by (simp add: word_less_nat_alt)
  show "orderAcceptsPrice taker (YesPrice am) (PriceScale - YesPrice am)" using am g(3) by simp
qed

lemma match_apply_ok:
  assumes inv: "market_inv m" and live: "\<not> Finalized m"
    and ne: "OwnerAddress maker \<noteq> OwnerAddress taker"
    and v: "validateOrder A maker = Inr r" "validateOrder A taker = Inr r'"
    and am: "amounts_split m q am"
  shows "op_ok {BuyerCollateral, YesOverflow, NoOverflow, MintBackingOverflow, BuyerFree,
      SellerFreeOverflow, SellerYes, SellerNo, MatchNoSemantics} 0 m
    (match_apply m maker taker q am)" (is "op_ok ?E _ _ _")
proof -
  have mono: "op_ok E 0 m x \<Longrightarrow> E \<subseteq> ?E \<Longrightarrow> op_ok ?E 0 m x" for E x
    by (cases x) auto
  note f = validateOrder_facts(1,2) [OF v(1)] validateOrder_facts(1,2) [OF v(2)]
  show ?thesis
  proof (cases "OrderOutcome maker = OrderOutcome taker")
    case True
    then show ?thesis
      using mono [OF applyTransfer_ok [OF inv live ne]] by (simp add: match_apply_def)
  next
    case False
    then have "opposite_outcomes maker taker" using f by (auto simp: doubleton_eq_iff)
    then show ?thesis
      using False mono [OF applyMint_ok [OF inv live ne _ am]]
        mono [OF applyMergeMatch_ok [OF inv live ne _ am]] by (simp add: match_apply_def)
  qed
qed

text \<open>Errors that report a broken model rather than a refused request: the re-checks at the end of
  every operation and the branches only a broken model could take.\<close>

definition internal_errors :: "pm_error set" where
  "internal_errors = {FinalConservation, AggregateYes, AggregateNo, PositionConservation,
     CollateralBacking, MatchBacking, MergeMatchBacking, BuyerPositionOverflow, MatchMakerPrice,
     PositionOverflow}"

lemma op_ok_weaken: "op_ok E d m r \<Longrightarrow> E \<inter> internal_errors = {} \<Longrightarrow> op_ok (- internal_errors) d m r"
  by (cases r) auto

lemma validateOrder_error:
  "validateOrder A v = Inl e \<Longrightarrow> e \<notin> internal_errors"
  by (auto simp: validateOrder_def internal_errors_def split: option.splits if_splits)

lemma match_amounts_error:
  assumes "validateOrder A maker = Inr r" and "match_amounts m maker taker q = Inl e"
  shows "e \<notin> internal_errors"
proof -
  let ?t = "LimitPriceTick maker"
  have t: "0 < unat ?t" "unat ?t < 10000"
    using validateOrder_facts(6,7) [OF assms(1)] by (simp_all add: word_less_nat_alt unat_gt_0)
  then have "unat (PriceScale - ?t) = 10000 - unat ?t"
    using unat_sub [of ?t PriceScale] by (simp add: word_le_nat_alt)
  then have "PriceScale - ?t \<noteq> 0" "PriceScale - ?t < PriceScale" "?t \<noteq> 0" "?t < PriceScale"
    using t by (auto simp: word_less_nat_alt simp flip: unat_gt_0 neq0_conv)
  then have "e \<noteq> MatchMakerPrice"
    using assms(2) by (auto simp: match_amounts_def Let_def mul64_def split: if_splits)
  moreover have "e \<in> {MatchMakerPrice, MatchTakerLimit, MatchValueOverflow}"
    using assms(2) by (auto simp: match_amounts_def Let_def mul64_def split: if_splits)
  ultimately show ?thesis by (auto simp: internal_errors_def)
qed

lemma match_roles_owners:
  "match_roles l r = Some (maker, taker) \<Longrightarrow> OwnerAddress l \<noteq> OwnerAddress r \<Longrightarrow>
   OwnerAddress maker \<noteq> OwnerAddress taker"
  by (auto simp: match_roles_def split: if_splits)

lemma Match_ok:
  assumes inv: "market_inv m"
  shows "op_ok (- internal_errors) 0 m (ebind (Match A m l r q) (\<lambda>(am, m'). Inr m'))"
proof (cases "Finalized m \<or> q = 0 \<or> OwnerAddress l = OwnerAddress r \<or> match_roles l r = None")
  case True
  then show ?thesis by (auto simp: Match_def internal_errors_def)
next
  case False
  then obtain maker taker where roles: "match_roles l r = Some (maker, taker)"
    and live: "\<not> Finalized m" by auto
  have ne: "OwnerAddress maker \<noteq> OwnerAddress taker"
    using match_roles_owners [OF roles] False by blast
  show ?thesis
  proof (cases "validateOrder A maker")
    case (Inl e)
    then show ?thesis using False roles validateOrder_error [OF Inl] by (simp add: Match_def)
  next
    case vm: (Inr rm)
    show ?thesis
    proof (cases "validateOrder A taker")
      case (Inl e)
      then show ?thesis using False roles vm validateOrder_error [OF Inl] by (simp add: Match_def)
    next
      case vt: (Inr rt)
      show ?thesis
      proof (cases "match_amounts m maker taker q")
        case (Inl e)
        then show ?thesis
          using False roles vm vt match_amounts_error [OF vm Inl]
          by (auto simp: Match_def internal_errors_def)
      next
        case (Inr am)
        have "amounts_split m q am"
          using match_amounts_facts(1) [OF Inr] inv by (simp add: market_inv_def)
        note ok = match_apply_ok [OF inv live ne vm vt this]
        show ?thesis
          using ok False roles vm vt Inr
          by (cases "match_apply m maker taker q am")
            (auto simp: Match_def TotalBacking_spec commit_market internal_errors_def)
      qed
    qed
  qed
qed

lemma table_total_mult: "table_total (\<lambda>a. g a * c) m = table_total g m * c"
  by (simp add: table_total_def sum_list_mult_const)

lemma table_total_plus: "table_total (\<lambda>a. g a + h a) m = table_total g m + table_total h m"
  by (simp add: table_total_def sum_list_addf)

lemma table_total_payout:
  "table_total (payout_of m) m' =
     (if FinalOutcome m = OutcomeYes then table_total yes_of m' * unat (LotPayout m)
      else if FinalOutcome m = OutcomeNo then table_total no_of m' * unat (LotPayout m)
      else (table_total yes_of m' + table_total no_of m') * (unat (LotPayout m) div 2))"
  by (simp add: payout_of_def [abs_def] table_total_mult table_total_plus)

lemma even_payout: "market_inv m \<Longrightarrow> 2 * (unat (LotPayout m) div 2) = unat (LotPayout m)"
proof -
  assume "market_inv m"
  then have "10000 dvd unat (LotPayout m)" by (simp add: market_inv_def)
  then have "2 dvd unat (LotPayout m)" by (rule dvd_trans [rotated]) simp
  then show ?thesis by simp
qed

lemma Finalize_ok:
  assumes inv: "market_inv m"
  shows "op_ok {FinalizeInvalid} 0 m (Finalize m w)"
proof (cases "Finalized m \<or> \<not> Outcome_valid w \<or> (w = OutcomeInvalid \<and> LotPayout m mod 2 \<noteq> 0)")
  case True
  then show ?thesis by (auto simp: Finalize_def)
next
  case False
  let ?m = "m\<lparr>Finalized := True, FinalOutcome := w, FinalBacking := LockedCollateral m,
              RemainingPayoutLiability := LockedCollateral m, LockedCollateral := 0\<rparr>"
  have o: "open_inv m" using inv False by (simp add: market_open)
  then have t: "table_total yes_of m = unat (CompleteSets m)"
    "table_total no_of m = unat (CompleteSets m)"
    "unat (CompleteSets m) * unat (LotPayout m) = unat (LockedCollateral m)"
    by (simp_all add: open_inv_def)
  have "(unat (CompleteSets m) + unat (CompleteSets m)) * (unat (LotPayout m) div 2)
      = unat (CompleteSets m) * (2 * (unat (LotPayout m) div 2))" by simp
  also have "\<dots> = unat (LockedCollateral m)" unfolding even_payout [OF inv] by (rule t(3))
  finally have "table_total (payout_of ?m) m = unat (LockedCollateral m)"
    using t by (simp add: table_total_payout)
  then have "final_inv ?m" using o t False by (simp add: final_inv_def open_inv_def)
  then have "market_inv ?m" using inv by (simp add: market_inv_def)
  moreover have "backing ?m = backing m" using False by (simp add: backing_def)
  ultimately show ?thesis
    using False market_CheckInvariants [OF inv] by (simp add: Finalize_def commit_market)
qed

text \<open>A claim on a finalized market pays exactly what the account holds under the outcome; the only
  way it can fail is that the owner's free balance would pass 64 bits.\<close>

definition paid_account :: "ReferenceModel \<Rightarrow> AccountBalance \<Rightarrow> AccountBalance" where
  "paid_account m a = \<lparr>Free = Free a + of_nat (payout_of m a), YesLots = 0, NoLots = 0\<rparr>"

definition claimed_model :: "ReferenceModel \<Rightarrow> string \<Rightarrow> ReferenceModel" where
  "claimed_model m owner = (put_account m owner (paid_account m (account_of m owner)))
     \<lparr>RemainingPayoutLiability :=
        RemainingPayoutLiability m - of_nat (payout_of m (account_of m owner)),
      CumulativeClaimedPayout :=
        CumulativeClaimedPayout m + of_nat (payout_of m (account_of m owner))\<rparr>"

lemma payout_le_remaining:
  "final_inv m \<Longrightarrow> payout_of m (account_of m owner) \<le> unat (RemainingPayoutLiability m)"
  using accounts.at_le_total [of "payout_of m" m owner] by (simp add: final_inv_def)

lemma claim_terms_spec:
  assumes inv: "market_inv m" and fin: "Finalized m"
  shows "\<exists>lots unit. claim_terms m (account_of m owner) = (lots, unit, True) \<and>
    unat lots * unat unit = payout_of m (account_of m owner)"
proof -
  let ?a = "account_of m owner"
  have f: "final_inv m" using inv fin by (rule market_final)
  have le: "yes_of ?a \<le> unat (CompleteSets m)" "no_of ?a \<le> unat (CompleteSets m)"
    using f accounts.at_le_total [of yes_of m owner] accounts.at_le_total [of no_of m owner]
    by (simp_all add: final_inv_def)
  have "10000 dvd unat (LotPayout m)" "unat (LotPayout m) \<noteq> 0"
    using inv by (simp_all add: market_inv_def unat_eq_0)
  then have "10000 \<le> unat (LotPayout m)" by (auto dest: dvd_imp_le)
  then have "unat (CompleteSets m) * 2 \<le> unat (CompleteSets m) * unat (LotPayout m)" by simp
  also have "\<dots> < 2 ^ 64" using f unat_u64_less [of "FinalBacking m"] by (simp add: final_inv_def)
  finally have fits: "yes_of ?a + no_of ?a < 2 ^ 64" using le by simp
  have "FinalOutcome m = OutcomeYes \<or> FinalOutcome m = OutcomeNo \<or> FinalOutcome m = OutcomeInvalid"
  proof -
    have "unat (FinalOutcome m) \<le> 2"
      using f by (simp add: final_inv_def Outcome_valid_def OutcomeInvalid_def word_le_nat_alt)
    then have "unat (FinalOutcome m) = 0 \<or> unat (FinalOutcome m) = 1 \<or> unat (FinalOutcome m) = 2"
      by arith
    then show ?thesis
      by (auto simp: OutcomeYes_def OutcomeNo_def OutcomeInvalid_def word_unat_eq_iff)
  qed
  then show ?thesis
    using fits unat_add_u64 [OF fits]
    by (auto simp: claim_terms_def payout_of_def add64_def unat_div_distrib)
qed

lemma claimed_model_inv:
  assumes inv: "market_inv m" and fin: "Finalized m"
    and fits: "free_of (account_of m owner) + payout_of m (account_of m owner) < 2 ^ 64"
  shows "market_inv (claimed_model m owner)" and "backing (claimed_model m owner) = backing m"
proof -
  let ?a = "account_of m owner" and ?m = "claimed_model m owner"
  let ?p = "payout_of m ?a"
  have f: "final_inv m" using inv fin by (rule market_final)
  have p: "?p \<le> unat (RemainingPayoutLiability m)" using f by (rule payout_le_remaining)
  have p64: "?p < 2 ^ 64" using fits by simp
  have pw: "unat (of_nat ?p :: u64) = ?p" by (rule unat_of_nat_u64 [OF p64])
  have sum: "unat (RemainingPayoutLiability m) + unat (CumulativeClaimedPayout m) = unat (FinalBacking m)"
    using f by (simp add: final_inv_def)
  have r: "unat (RemainingPayoutLiability ?m) = unat (RemainingPayoutLiability m) - ?p"
    using p pw by (simp add: claimed_model_def unat_sub_u64 word_le_nat_alt)
  have "unat (CumulativeClaimedPayout m) + unat (of_nat ?p :: u64) < 2 ^ 64"
    using sum p pw unat_u64_less [of "FinalBacking m"] by simp
  from unat_add_u64 [OF this]
  have c: "unat (CumulativeClaimedPayout ?m) = unat (CumulativeClaimedPayout m) + ?p"
    using pw by (simp add: claimed_model_def)
  have fr: "unat (Free (paid_account m ?a)) = free_of ?a + ?p"
    using fits pw unat_add_u64 [of "Free ?a" "of_nat ?p"] by (simp add: paid_account_def)
  have zero: "payout_of m (paid_account m ?a) = 0" "yes_of (paid_account m ?a) = 0"
    "no_of (paid_account m ?a) = 0"
    by (simp_all add: payout_of_def paid_account_def)
  have same: "payout_of ?m = payout_of m"
    by (simp add: fun_eq_iff payout_of_def claimed_model_def)
  have t: "table_total (payout_of m) ?m + ?p = table_total (payout_of m) m"
    "table_total yes_of ?m \<le> table_total yes_of m" "table_total no_of ?m \<le> table_total no_of m"
    "table_total free_of ?m = table_total free_of m + ?p"
    using accounts.total_put [of "payout_of m" m owner "paid_account m ?a"]
      accounts.total_put [of yes_of m owner "paid_account m ?a"]
      accounts.total_put [of no_of m owner "paid_account m ?a"]
      accounts.total_put [of free_of m owner "paid_account m ?a"] zero fr
    by (simp_all add: claimed_model_def)
  have "final_inv ?m"
    using f t r c p same sum by (simp add: final_inv_def) (simp add: claimed_model_def)
  then show "market_inv ?m"
    using inv by (simp add: market_inv_def) (simp add: claimed_model_def distinct_put)
  show "backing ?m = backing m"
    using t r p fin by (simp add: backing_def) (simp add: claimed_model_def)
qed

lemma Claim_spec:
  assumes inv: "market_inv m" and fin: "Finalized m" and acc: "map_of (Accounts m) owner = Some a"
  shows "Claim m owner =
    (if free_of a + payout_of m a < 2 ^ 64 then Inr (of_nat (payout_of m a), claimed_model m owner)
     else Inl ClaimSolvency)"
proof -
  have a: "account_of m owner = a" using acc by (simp add: account_of_def)
  obtain lots unit where ct: "claim_terms m a = (lots, unit, True)"
    and p: "unat lots * unat unit = payout_of m a"
    using claim_terms_spec [OF inv fin, of owner] a by auto
  have f: "final_inv m" using inv fin by (rule market_final)
  have le: "payout_of m a \<le> unat (RemainingPayoutLiability m)"
    using payout_le_remaining [OF f, of owner] a by simp
  then have p64: "unat lots * unat unit < 2 ^ 64"
    using p unat_u64_less [of "RemainingPayoutLiability m"] by simp
  have w: "lots * unit = of_nat (payout_of m a)" using p by (metis of_nat_mult of_nat_unat ucast_id)
  have u: "unat (of_nat (payout_of m a) :: u64) = payout_of m a"
    using p p64 by (intro unat_of_nat_u64) simp
  have c: "unat (CumulativeClaimedPayout m) + payout_of m a < 2 ^ 64"
    using f le unat_u64_less [of "FinalBacking m"] by (simp add: final_inv_def)
  have r: "\<not> RemainingPayoutLiability m < of_nat (payout_of m a)"
    using le u by (simp add: word_less_nat_alt)
  show ?thesis
  proof (cases "free_of a + payout_of m a < 2 ^ 64")
    case True
    have "commit (claimed_model m owner) = Inr (claimed_model m owner)"
      using claimed_model_inv(1) [OF inv fin, of owner] True a by (simp add: commit_market)
    then show ?thesis
      using True fin acc ct p64 w u c r a
      by (simp add: Claim_def mul64_def add64_def claimed_model_def paid_account_def)
  next
    case False
    then show ?thesis
      using fin acc ct p64 w u by (simp add: Claim_def mul64_def add64_def)
  qed
qed

lemma Claim_ok:
  assumes inv: "market_inv m"
  shows "op_ok {NotFinalized, UnknownClaimAccount, ClaimSolvency} 0 m
    (ebind (Claim m owner) (\<lambda>(p, m'). Inr m'))"
proof (cases "Finalized m \<and> map_of (Accounts m) owner \<noteq> None")
  case True
  then obtain a where acc: "map_of (Accounts m) owner = Some a" by auto
  then have a: "account_of m owner = a" by (simp add: account_of_def)
  show ?thesis
    using Claim_spec [OF inv _ acc] claimed_model_inv [OF inv, of owner] True a
    by (simp add: claimed_model_def)
next
  case False
  then show ?thesis by (auto simp: Claim_def)
qed

subsection \<open>Runs\<close>

text \<open>A call of the model's interface, and a run of calls: a refused call leaves the model as it
  is.\<close>

datatype pm_call =
    CallDeposit string u64
  | CallSplit string u64
  | CallMerge string u64
  | CallMatch PredictionOrderV1 PredictionOrderV1 u64
  | CallFinalize u8
  | CallClaim string

fun pm_exec :: "'a addr_lib \<Rightarrow> ReferenceModel \<Rightarrow> pm_call \<Rightarrow> pm_error + ReferenceModel" where
  "pm_exec A m (CallDeposit owner amount) = Deposit A m owner amount"
| "pm_exec A m (CallSplit owner q) = Split m owner q"
| "pm_exec A m (CallMerge owner q) = Merge m owner q"
| "pm_exec A m (CallMatch l r q) = ebind (Match A m l r q) (\<lambda>(am, m'). Inr m')"
| "pm_exec A m (CallFinalize w) = Finalize m w"
| "pm_exec A m (CallClaim owner) = ebind (Claim m owner) (\<lambda>(p, m'). Inr m')"

fun pm_run :: "'a addr_lib \<Rightarrow> ReferenceModel \<Rightarrow> pm_call list \<Rightarrow> ReferenceModel" where
  "pm_run A m [] = m"
| "pm_run A m (c # cs) = pm_run A (case pm_exec A m c of Inl _ \<Rightarrow> m | Inr m' \<Rightarrow> m') cs"

fun call_amount :: "pm_call \<Rightarrow> nat" where
  "call_amount (CallDeposit owner amount) = unat amount"
| "call_amount _ = 0"

text \<open>The sum of the deposits a run accepted.\<close>

fun accepted_deposits :: "'a addr_lib \<Rightarrow> ReferenceModel \<Rightarrow> pm_call list \<Rightarrow> nat" where
  "accepted_deposits A m [] = 0"
| "accepted_deposits A m (c # cs) =
     (case pm_exec A m c of
        Inl _ \<Rightarrow> accepted_deposits A m cs
      | Inr m' \<Rightarrow> call_amount c + accepted_deposits A m' cs)"

text \<open>A sequence of claims that stops at the first refusal.\<close>

fun pm_claims :: "ReferenceModel \<Rightarrow> string list \<Rightarrow> pm_error + u64 list \<times> ReferenceModel" where
  "pm_claims m [] = Inr ([], m)"
| "pm_claims m (k # ks) =
     ebind (Claim m k) (\<lambda>(p, m1). ebind (pm_claims m1 ks) (\<lambda>(ps, m2). Inr (p # ps, m2)))"

lemma refusals_not_internal:
  "{DepositInvalid, FreeOverflow} \<inter> internal_errors = {}"
  "{SplitZero, SplitCollateral, SplitOverflow} \<inter> internal_errors = {}"
  "{MergeZero, MergeInsufficient} \<inter> internal_errors = {}"
  "{FinalizeInvalid} \<inter> internal_errors = {}"
  "{NotFinalized, UnknownClaimAccount, ClaimSolvency} \<inter> internal_errors = {}"
  by (simp_all add: internal_errors_def)

lemmas refusal_contracts =
  op_ok_weaken [OF Deposit_ok refusals_not_internal(1)]
  op_ok_weaken [OF Split_ok refusals_not_internal(2)]
  op_ok_weaken [OF Merge_ok refusals_not_internal(3)]
  op_ok_weaken [OF Finalize_ok refusals_not_internal(4)]
  op_ok_weaken [OF Claim_ok refusals_not_internal(5)]

lemma pm_exec_ok:
  "market_inv m \<Longrightarrow> op_ok (- internal_errors) (call_amount c) m (pm_exec A m c)"
  by (cases c) (simp_all add: Match_ok refusal_contracts)

lemma pm_run_inv: "market_inv m \<Longrightarrow> market_inv (pm_run A m cs)"
proof (induction cs arbitrary: m)
  case (Cons c cs)
  then show ?case using pm_exec_ok [OF Cons.prems, of c A] by (cases "pm_exec A m c") auto
qed simp

lemma pm_run_backing:
  "market_inv m \<Longrightarrow> backing (pm_run A m cs) = backing m + accepted_deposits A m cs"
proof (induction cs arbitrary: m)
  case (Cons c cs)
  then show ?case using pm_exec_ok [OF Cons.prems, of c A] by (cases "pm_exec A m c") auto
qed simp

lemma pm_run_payout: "market_inv m \<Longrightarrow> LotPayout (pm_run A m cs) = LotPayout m"
proof (induction cs arbitrary: m)
  case (Cons c cs)
  then show ?case using pm_exec_ok [OF Cons.prems, of c A] by (cases "pm_exec A m c") auto
qed simp

lemma New_inv:
  assumes "NewReferenceModel L = Inr m"
  shows "market_inv m" and "backing m = 0" and "LotPayout m = L"
proof -
  have L: "L \<noteq> 0" "L mod 10000 = 0"
    and m: "m = \<lparr>LotPayout = L, CompleteSets = 0, LockedCollateral = 0, Finalized = False,
                FinalOutcome = 0, FinalBacking = 0, RemainingPayoutLiability = 0,
                CumulativeClaimedPayout = 0, Accounts = []\<rparr>"
    using assms by (auto simp: NewReferenceModel_def split: if_splits)
  have "unat (L mod 10000) = unat L mod 10000" by (simp add: unat_mod_distrib)
  then have "10000 dvd unat L" using L by (simp add: dvd_eq_mod_eq_0)
  then show "market_inv m" "backing m = 0" "LotPayout m = L"
    using L m by (simp_all add: market_inv_def open_inv_def table_total_def backing_def)
qed

text \<open>Claims in sequence.\<close>

lemma claimed_model_simps [simp]:
  "Finalized (claimed_model m k) = Finalized m"
  "payout_of (claimed_model m k) = payout_of m"
  "paid_account (claimed_model m k) = paid_account m"
  "account_of (claimed_model m k) k' = (if k' = k then paid_account m (account_of m k) else account_of m k')"
  by (simp_all add: claimed_model_def payout_of_def [abs_def] paid_account_def [abs_def]
      account_of_def put_account_def update_conv')

lemma claimed_keys:
  "k \<in> fst ` set (Accounts m) \<Longrightarrow> map fst (Accounts (claimed_model m k)) = map fst (Accounts m)"
  by (auto simp: claimed_model_def put_account_def update_keys)

lemma Claim_known:
  assumes "market_inv m" "Finalized m" "k \<in> fst ` set (Accounts m)"
    and "free_of (account_of m k) + payout_of m (account_of m k) < 2 ^ 64"
  shows "Claim m k = Inr (of_nat (payout_of m (account_of m k)), claimed_model m k)"
proof -
  from assms(3) obtain a where a: "map_of (Accounts m) k = Some a"
    by (metis map_of_eq_None_iff not_None_eq)
  then show ?thesis using Claim_spec [OF assms(1,2) a] assms(4) by (simp add: account_of_def)
qed

lemma pm_claims_effect:
  assumes "market_inv m" "Finalized m" "distinct ks" "set ks \<subseteq> fst ` set (Accounts m)"
    and "\<And>k. k \<in> set ks \<Longrightarrow> free_of (account_of m k) + payout_of m (account_of m k) < 2 ^ 64"
  shows "\<exists>m'. pm_claims m ks = Inr (map (\<lambda>k. of_nat (payout_of m (account_of m k))) ks, m') \<and>
    market_inv m' \<and> m' = fold (\<lambda>k m. claimed_model m k) ks m"
  using assms
proof (induction ks arbitrary: m)
  case Nil
  then show ?case by simp
next
  case (Cons k ks)
  let ?m = "claimed_model m k"
  have c: "Claim m k = Inr (of_nat (payout_of m (account_of m k)), ?m)"
    using Cons.prems by (intro Claim_known) auto
  have "fst ` set (Accounts ?m) = fst ` set (Accounts m)"
    using claimed_keys [of k m] Cons.prems(4) by (metis list.set_map list.set_intros(1) subsetD)
  then obtain m' where
    "pm_claims ?m ks = Inr (map (\<lambda>k. of_nat (payout_of ?m (account_of ?m k))) ks, m')"
    "market_inv m'" "m' = fold (\<lambda>k m. claimed_model m k) ks ?m"
    using Cons.IH [of ?m] Cons.prems claimed_model_inv(1) [of m k] by force
  moreover have "map (\<lambda>k. of_nat (payout_of ?m (account_of ?m k)) :: u64) ks
      = map (\<lambda>k. of_nat (payout_of m (account_of m k))) ks"
    using Cons.prems(3) by auto
  ultimately show ?case using c by simp
qed

lemma update_commute:
  assumes "k \<in> fst ` set as" "k' \<in> fst ` set as" "k \<noteq> k'"
  shows "AList.update k v (AList.update k' v' as) = AList.update k' v' (AList.update k v as)"
  using assms
proof (induction as)
  case (Cons p as)
  have "AList.update k v (AList.update k' v' as) = AList.update k' v' (AList.update k v as)"
    if "k \<in> fst ` set as" "k' \<in> fst ` set as"
    using Cons.IH that Cons.prems(3) by blast
  then show ?case using Cons.prems by (cases p) auto
qed simp

lemma claimed_model_commute:
  assumes "k \<in> fst ` set (Accounts m)" "k' \<in> fst ` set (Accounts m)" "k \<noteq> k'"
  shows "claimed_model (claimed_model m k) k' = claimed_model (claimed_model m k') k"
proof -
  have "Accounts (claimed_model (claimed_model m k) k') = Accounts (claimed_model (claimed_model m k') k)"
    using assms update_commute [OF assms(2,1)]
    by (simp add: claimed_model_def [of "claimed_model m _"])
      (simp add: claimed_model_def put_account_def)
  then show ?thesis
    using assms(3)
    by (intro ReferenceModel.equality)
      (simp_all add: claimed_model_def [of "claimed_model m _"], simp_all add: claimed_model_def algebra_simps)
qed

lemma fold_claimed_account:
  "distinct ks \<Longrightarrow> account_of (fold (\<lambda>k m. claimed_model m k) ks m) k =
     (if k \<in> set ks then paid_account m (account_of m k) else account_of m k)"
  by (induction ks arbitrary: m) auto

lemma fold_claimed_frame:
  "Finalized (fold (\<lambda>k m. claimed_model m k) ks m) = Finalized m"
  "payout_of (fold (\<lambda>k m. claimed_model m k) ks m) = payout_of m"
  by (induction ks arbitrary: m) auto

lemma fold_claimed_keys:
  "set ks \<subseteq> fst ` set (Accounts m) \<Longrightarrow>
   map fst (Accounts (fold (\<lambda>k m. claimed_model m k) ks m)) = map fst (Accounts m)"
proof (induction ks arbitrary: m)
  case (Cons k ks)
  then have "map fst (Accounts (claimed_model m k)) = map fst (Accounts m)"
    by (intro claimed_keys) simp
  moreover from this have "fst ` set (Accounts (claimed_model m k)) = fst ` set (Accounts m)"
    by (metis list.set_map)
  ultimately show ?case using Cons by simp
qed simp

lemma fold_claimed_permute:
  assumes "mset ks = mset ks'" "distinct ks" "set ks \<subseteq> fst ` set (Accounts m)"
  shows "fold (\<lambda>k m. claimed_model m k) ks m = fold (\<lambda>k m. claimed_model m k) ks' m"
proof (rule fold_permuted_eq [where P = "\<lambda>m. set ks \<subseteq> fst ` set (Accounts m)"])
  show "mset ks = mset ks'" "set ks \<subseteq> fst ` set (Accounts m)" by fact+
next
  fix k and m :: ReferenceModel assume "k \<in> set ks" "set ks \<subseteq> fst ` set (Accounts m)"
  then show "set ks \<subseteq> fst ` set (Accounts (claimed_model m k))"
    using claimed_keys [of k m] by (metis list.set_map subsetD)
next
  fix k k' and m :: ReferenceModel assume "k \<in> set ks" "k' \<in> set ks" "set ks \<subseteq> fst ` set (Accounts m)"
  then show "claimed_model (claimed_model m k') k = claimed_model (claimed_model m k) k'"
    by (cases "k = k'") (auto intro: claimed_model_commute)
qed

lemma table_total_account:
  "distinct (map fst (Accounts m)) \<Longrightarrow> (\<And>k. k \<in> fst ` set (Accounts m) \<Longrightarrow> g (account_of m k) = 0) \<Longrightarrow>
   table_total g m = 0"
  by (force simp: table_total_def account_of_def)

lemma pm_claims_some:
  assumes "market_inv m" "Finalized m" "pm_claims m ks = Inr (ps, m')" "distinct ks"
  shows "set ks \<subseteq> fst ` set (Accounts m)"
    and "\<And>k. k \<in> set ks \<Longrightarrow> free_of (account_of m k) + payout_of m (account_of m k) < 2 ^ 64"
proof -
  have "set ks \<subseteq> fst ` set (Accounts m) \<and>
    (\<forall>k \<in> set ks. free_of (account_of m k) + payout_of m (account_of m k) < 2 ^ 64)"
    using assms
  proof (induction ks arbitrary: m ps)
    case (Cons k ks)
    then obtain a where a: "map_of (Accounts m) k = Some a"
      by (cases "map_of (Accounts m) k") (auto simp: Claim_def)
    then have acc: "account_of m k = a" and key: "k \<in> fst ` set (Accounts m)"
      by (auto simp: account_of_def intro: rev_image_eqI dest: map_of_SomeD)
    have fits: "free_of a + payout_of m a < 2 ^ 64"
      and c: "Claim m k = Inr (of_nat (payout_of m a), claimed_model m k)"
      using Cons.prems Claim_spec [OF Cons.prems(1,2) a] by (auto split: if_splits)
    obtain qs where rest: "pm_claims (claimed_model m k) ks = Inr (qs, m')"
      using Cons.prems(3) c by (auto simp: ebind_eq_Inr split: prod.splits)
    have "set ks \<subseteq> fst ` set (Accounts (claimed_model m k)) \<and>
      (\<forall>k' \<in> set ks. free_of (account_of (claimed_model m k) k') +
        payout_of (claimed_model m k) (account_of (claimed_model m k) k') < 2 ^ 64)"
      using Cons.IH [OF _ _ rest] claimed_model_inv(1) [OF Cons.prems(1,2), of k] fits acc Cons.prems
      by simp
    moreover have "fst ` set (Accounts (claimed_model m k)) = fst ` set (Accounts m)"
      using claimed_keys [OF key] by (metis list.set_map)
    ultimately show ?case using Cons.prems(4) fits acc key by (auto split: if_splits)
  qed simp
  then show "set ks \<subseteq> fst ` set (Accounts m)"
    and "\<And>k. k \<in> set ks \<Longrightarrow> free_of (account_of m k) + payout_of m (account_of m k) < 2 ^ 64"
    by auto
qed

lemma free_plus_payout_le_backing:
  assumes "market_inv m" "Finalized m"
  shows "free_of (account_of m k) + payout_of m (account_of m k) \<le> backing m"
  using assms accounts.at_le_total [of free_of m k] payout_le_remaining [OF market_final [OF assms], of k]
  by (simp add: backing_def)

lemma Match_parts:
  assumes "Match A m l r q = Inr (am, m')"
  shows "\<exists>maker taker ra rb. {maker, taker} = {l, r} \<and> validateOrder A maker = Inr ra \<and>
    validateOrder A taker = Inr rb \<and> match_amounts m maker taker q = Inr am"
proof -
  obtain maker taker where roles: "match_roles l r = Some (maker, taker)"
    using assms by (cases "match_roles l r") (auto simp: Match_def split: if_splits)
  moreover from roles have "{maker, taker} = {l, r}"
    by (auto simp: match_roles_def split: if_splits)
  moreover have "(\<exists>ra. validateOrder A maker = Inr ra) \<and> (\<exists>rb. validateOrder A taker = Inr rb) \<and>
      match_amounts m maker taker q = Inr am"
    using assms roles
    by (simp add: Match_def ebind_def del: split_paired_Ex split: if_split_asm sum.split_asm)
  ultimately show ?thesis by blast
qed

lemma no_price: "p \<le> PriceScale \<Longrightarrow> unat (PriceScale - p) = 10000 - unat p"
  using unat_sub [of p PriceScale] by simp

lemma match_side_price:
  assumes "match_amounts m maker taker q = Inr am" and "10000 dvd unat (LotPayout m)"
  shows "unat (side_value v am) * 10000 = unat q * unat (LotPayout m) *
    (if OrderOutcome v = OutcomeNo then 10000 - unat (YesPrice am) else unat (YesPrice am))"
proof -
  note f = match_amounts_facts [OF assms]
  have s: "unat (YesValue am) + unat (NoValue am) = unat q * unat (LotPayout m)"
    using f(1) by (simp add: amounts_split_def)
  then have "unat (NoValue am) * 10000 = (unat q * unat (LotPayout m)) * 10000 - unat (YesValue am) * 10000"
    by (simp flip: s add: add_mult_distrib)
  also have "\<dots> = (unat q * unat (LotPayout m)) * (10000 - unat (YesPrice am))"
    using f(2,5) by (simp only: diff_mult_distrib2)
  finally show ?thesis using f(2) by (simp add: side_value_def)
qed

lemma match_side_limits:
  assumes "match_amounts m maker taker q = Inr am" and dvd: "10000 dvd unat (LotPayout m)"
    and v: "validateOrder A maker = Inr ra" "validateOrder A taker = Inr rb" and "v \<in> {maker, taker}"
  shows "if OrderAction v = ActionBuy
     then unat (side_value v am) * 10000 \<le> unat q * unat (LotPayout m) * unat (LimitPriceTick v)
     else unat (side_value v am) * 10000 \<ge> unat q * unat (LotPayout m) * unat (LimitPriceTick v)"
proof -
  note f = match_amounts_facts [OF assms(1,2)] and price = match_side_price [OF assms(1,2), of v]
  have yp: "unat (PriceScale - YesPrice am) = 10000 - unat (YesPrice am)"
    using f(5) by (intro no_price) (simp add: word_le_nat_alt)
  have tick: "unat (LimitPriceTick maker) < 10000"
    using validateOrder_facts(7) [OF v(1)] by (simp add: word_less_nat_alt)
  then have maker: "(if OrderOutcome maker = OutcomeNo then 10000 - unat (YesPrice am)
      else unat (YesPrice am)) = unat (LimitPriceTick maker)"
    using f(3) no_price [of "LimitPriceTick maker"] by (simp add: word_le_nat_alt)
  have taker: "if OrderAction taker = ActionBuy
      then (if OrderOutcome taker = OutcomeNo then 10000 - unat (YesPrice am) else unat (YesPrice am))
        \<le> unat (LimitPriceTick taker)
      else (if OrderOutcome taker = OutcomeNo then 10000 - unat (YesPrice am) else unat (YesPrice am))
        \<ge> unat (LimitPriceTick taker)"
    using f(6) yp by (simp add: orderAcceptsPrice_def Let_def word_le_nat_alt split: if_splits)
  consider "v = maker" | "v = taker" using assms(5) by auto
  then show ?thesis
  proof cases
    case 1
    then show ?thesis using price maker by simp
  next
    case 2
    then show ?thesis using price taker by (simp only: split: if_splits) (auto intro: mult_le_mono2)
  qed
qed

text \<open>Fills of one order in sequence: each fill is validated against the lots filled so far.\<close>

fun fill_sequence ::
  "'a addr_lib \<Rightarrow> PredictionOrderV1 \<Rightarrow> u64 \<Rightarrow> u64 \<Rightarrow> u64 \<Rightarrow> (u64 \<times> u64) list \<Rightarrow> pm_error + u64" where
  "fill_sequence A ord marketMinimum tradeClose filled [] = Inr filled"
| "fill_sequence A ord marketMinimum tradeClose filled ((quantity, now) # fills) =
     ebind (ValidateOrderFill A ord filled quantity marketMinimum now tradeClose) (\<lambda>_.
       fill_sequence A ord marketMinimum tradeClose (filled + quantity) fills)"

lemma ValidateOrderFill_facts:
  assumes "ValidateOrderFill A ord filled q mm now close = Inr ()"
  shows "unat filled + unat q \<le> unat (QuantityLots ord)" and "unat q \<noteq> 0"
    and "ValidAfter ord \<le> now" and "now < ValidUntil ord" and "ValidUntil ord \<le> close"
    and "unat (filled + q) = unat filled + unat q"
    and "filled + q = QuantityLots ord \<or> (AllowPartial ord \<and>
      max (unat mm) (unat (MinFillLots ord)) \<le> unat q \<and>
      max (unat mm) (unat (MinFillLots ord)) \<le> unat (QuantityLots ord) - unat (filled + q))"
proof -
  let ?Q = "QuantityLots ord"
  have g: "q \<noteq> 0" "filled \<le> ?Q" "q \<le> ?Q - filled" "ValidAfter ord \<le> now" "now < ValidUntil ord"
    "ValidUntil ord \<le> close"
    and c: "q = ?Q - filled \<or> (AllowPartial ord \<and>
      \<not> q < (if MinFillLots ord > mm then MinFillLots ord else mm) \<and>
      \<not> ?Q - filled - q < (if MinFillLots ord > mm then MinFillLots ord else mm))"
    using assms
    by (auto simp: ValidateOrderFill_def ebind_eq_Inr Let_def not_less not_le split: if_split_asm)
  have r: "unat (?Q - filled) = unat ?Q - unat filled" "unat filled \<le> unat ?Q"
    using g(2) by (simp_all add: unat_sub_u64 word_le_nat_alt)
  show le: "unat filled + unat q \<le> unat ?Q" using g(3) r by (simp add: word_le_nat_alt)
  then have "unat filled + unat q < 2 ^ 64" using unat_u64_less [of ?Q] by simp
  then show s: "unat (filled + q) = unat filled + unat q" by (rule unat_add_u64)
  have "unat (?Q - filled - q) = unat ?Q - unat filled - unat q"
    using g(3) r by (simp add: unat_sub_u64)
  moreover have "unat (if MinFillLots ord > mm then MinFillLots ord else mm)
      = max (unat mm) (unat (MinFillLots ord))"
    by (auto simp: word_less_nat_alt max_def)
  ultimately show "filled + q = ?Q \<or> (AllowPartial ord \<and>
      max (unat mm) (unat (MinFillLots ord)) \<le> unat q \<and>
      max (unat mm) (unat (MinFillLots ord)) \<le> unat ?Q - unat (filled + q))"
    using c s by (auto simp: word_less_nat_alt not_less)
  show "unat q \<noteq> 0" using g(1) by (simp add: unat_eq_0)
  show "ValidAfter ord \<le> now" "now < ValidUntil ord" "ValidUntil ord \<le> close" using g by simp_all
qed

lemma fill_sequence_facts:
  assumes "fill_sequence A ord mm close filled fills = Inr n"
    and "unat filled \<le> unat (QuantityLots ord)"
  shows "unat n = unat filled + sum_list (map (unat \<circ> fst) fills) \<and>
    unat n \<le> unat (QuantityLots ord) \<and>
    (\<forall>(q, now) \<in> set fills. ValidAfter ord \<le> now \<and> now < ValidUntil ord) \<and>
    (fills \<noteq> [] \<longrightarrow> n = QuantityLots ord \<or> (AllowPartial ord \<and>
      max (unat mm) (unat (MinFillLots ord)) \<le> unat (QuantityLots ord) - unat n))"
  using assms
proof (induction fills arbitrary: filled)
  case Nil
  then show ?case by simp
next
  case (Cons f fills)
  obtain q now where f: "f = (q, now)" by (cases f)
  with Cons.prems have v: "ValidateOrderFill A ord filled q mm now close = Inr ()"
    and rest: "fill_sequence A ord mm close (filled + q) fills = Inr n"
    by (auto simp: ebind_eq_Inr)
  note fact = ValidateOrderFill_facts [OF v]
  have "unat (filled + q) \<le> unat (QuantityLots ord)" using fact(1,6) by simp
  from Cons.IH [OF rest this] show ?case
    using f fact rest by (cases fills) auto
qed

subsection \<open>A sample market\<close>

definition sample_addr_lib :: "string addr_lib" where
  "sample_addr_lib = \<lparr>ParseRawAddr = Some, IsStdAddress = (\<lambda>_. True), BitsLen = (\<lambda>_. 256),
     StringRaw = id, Workchain = (\<lambda>_. 0)\<rparr>"

definition sample_order :: "string \<Rightarrow> u8 \<Rightarrow> u8 \<Rightarrow> u16 \<Rightarrow> PredictionOrderV1" where
  "sample_order owner outcome role price =
     \<lparr>GlobalID = 1, WorkchainID = 0, MarketAddress = ''m'', MarketConfigHash = replicate 32 1,
      OwnerAddress = owner, KeyEpoch = 0, Nonce = 1, Salt = replicate 32 1, OrderAction = ActionBuy,
      OrderOutcome = outcome, LiquidityRole = role, QuantityLots = 5, MinFillLots = 2,
      AllowPartial = True, LimitPriceTick = price, ValidAfter = 1, ValidUntil = 9,
      OptionalCounterparty = None\<rparr>"

definition sample_maker :: PredictionOrderV1 where
  "sample_maker = sample_order ''a'' OutcomeYes RoleMaker 6000"

definition sample_taker :: PredictionOrderV1 where
  "sample_taker = sample_order ''b'' OutcomeNo RoleTaker 4500"

definition sample_calls :: "pm_call list" where
  "sample_calls = [CallDeposit ''a'' 90000, CallDeposit ''b'' 90000,
     CallMatch sample_maker sample_taker 2,
     CallSplit ''b'' 1, CallFinalize OutcomeInvalid]"

definition sample_model :: ReferenceModel where
  "sample_model = \<lparr>LotPayout = 10000, CompleteSets = 0, LockedCollateral = 0, Finalized = False,
     FinalOutcome = 0, FinalBacking = 0, RemainingPayoutLiability = 0,
     CumulativeClaimedPayout = 0, Accounts = []\<rparr>"

definition sample_at :: "u64 \<Rightarrow> u64 \<Rightarrow> AccountBalance list \<Rightarrow> ReferenceModel" where
  "sample_at sets locked as = \<lparr>LotPayout = 10000, CompleteSets = sets, LockedCollateral = locked,
     Finalized = False, FinalOutcome = 0, FinalBacking = 0, RemainingPayoutLiability = 0,
     CumulativeClaimedPayout = 0, Accounts = zip [''a'', ''b''] as\<rparr>"

definition sample_final :: ReferenceModel where
  "sample_final = \<lparr>LotPayout = 10000, CompleteSets = 3, LockedCollateral = 0, Finalized = True,
     FinalOutcome = 2, FinalBacking = 30000, RemainingPayoutLiability = 30000,
     CumulativeClaimedPayout = 0,
     Accounts = [(''a'', \<lparr>Free = 78000, YesLots = 2, NoLots = 0\<rparr>),
                 (''b'', \<lparr>Free = 72000, YesLots = 1, NoLots = 3\<rparr>)]\<rparr>"

lemmas enum_eval = PriceScale_def ActionBuy_def ActionSell_def OutcomeYes_def OutcomeNo_def
  OutcomeInvalid_def RoleMaker_def RoleTaker_def Action_valid_def Outcome_valid_def
  LiquidityRole_valid_def

lemmas table_eval = commit_def CheckInvariants_def TotalBacking_def add64_def mul64_def account_of_def
  put_account_def zero_account_def parseCanonicalAddress_def sample_addr_lib_def sample_model_def
  sample_final_def sample_at_def word_le_nat_alt word_less_nat_alt

lemma sample_new: "NewReferenceModel 10000 = Inr sample_model"
  by (simp add: NewReferenceModel_def sample_model_def PriceScale_def)

lemma sample_deposits:
  "Deposit sample_addr_lib sample_model ''a'' 90000 = Inr (sample_at 0 0 [\<lparr>Free = 90000, YesLots = 0, NoLots = 0\<rparr>])"
  "Deposit sample_addr_lib (sample_at 0 0 [\<lparr>Free = 90000, YesLots = 0, NoLots = 0\<rparr>]) ''b'' 90000 =
     Inr (sample_at 0 0 [\<lparr>Free = 90000, YesLots = 0, NoLots = 0\<rparr>, \<lparr>Free = 90000, YesLots = 0, NoLots = 0\<rparr>])"
  by (simp_all add: Deposit_def table_eval)

lemma sample_valid:
  "validateOrder sample_addr_lib sample_maker = Inr (''m'', ''a'', None)"
  "validateOrder sample_addr_lib sample_taker = Inr (''m'', ''b'', None)"
  by (simp_all add: sample_maker_def sample_taker_def sample_addr_lib_def sample_order_def
      validateOrder_def parseCanonicalAddress_def enum_eval Hash32_IsZero_def zero_bytes_def
      word_le_nat_alt word_less_nat_alt)

lemma sample_amounts:
  "match_amounts (sample_at sets locked as) sample_maker sample_taker 2 =
   Inr \<lparr>YesValue = 12000, NoValue = 8000, Notional = 20000, YesPrice = 6000\<rparr>"
  by (simp add: match_amounts_def sample_maker_def sample_taker_def sample_order_def sample_at_def
      enum_eval orderAcceptsPrice_def mul64_def word_le_nat_alt word_less_nat_alt)

lemma sample_apply:
  "match_apply (sample_at 0 0 [\<lparr>Free = 90000, YesLots = 0, NoLots = 0\<rparr>, \<lparr>Free = 90000, YesLots = 0, NoLots = 0\<rparr>]) sample_maker sample_taker 2
       \<lparr>YesValue = 12000, NoValue = 8000, Notional = 20000, YesPrice = 6000\<rparr> =
   Inr (sample_at 2 20000 [\<lparr>Free = 78000, YesLots = 2, NoLots = 0\<rparr>, \<lparr>Free = 82000, YesLots = 0, NoLots = 2\<rparr>])"
  by (simp add: match_apply_def applyMint_def mint_side_def side_value_def sample_maker_def
      sample_taker_def sample_order_def enum_eval table_eval)

lemma sample_backing:
  "TotalBacking (sample_at 0 0 [\<lparr>Free = 90000, YesLots = 0, NoLots = 0\<rparr>, \<lparr>Free = 90000, YesLots = 0, NoLots = 0\<rparr>]) = Inr 180000"
  "TotalBacking (sample_at 2 20000 [\<lparr>Free = 78000, YesLots = 2, NoLots = 0\<rparr>, \<lparr>Free = 82000, YesLots = 0, NoLots = 2\<rparr>]) = Inr 180000"
  "commit (sample_at 2 20000 [\<lparr>Free = 78000, YesLots = 2, NoLots = 0\<rparr>, \<lparr>Free = 82000, YesLots = 0, NoLots = 2\<rparr>]) =
   Inr (sample_at 2 20000 [\<lparr>Free = 78000, YesLots = 2, NoLots = 0\<rparr>, \<lparr>Free = 82000, YesLots = 0, NoLots = 2\<rparr>])"
  by (simp_all add: table_eval)

lemma sample_domains:
  "match_roles sample_maker sample_taker = Some (sample_maker, sample_taker)"
  "OwnerAddress sample_maker = ''a''" "OwnerAddress sample_taker = ''b''"
  "OptionalCounterparty sample_maker = None" "OptionalCounterparty sample_taker = None"
  "GlobalID sample_maker = GlobalID sample_taker" "WorkchainID sample_maker = WorkchainID sample_taker"
  "MarketAddress sample_maker = MarketAddress sample_taker"
  "MarketConfigHash sample_maker = MarketConfigHash sample_taker"
  "\<not> Finalized (sample_at sets locked as)"
  by (simp_all add: match_roles_def sample_maker_def sample_taker_def sample_order_def sample_at_def)

lemma sample_match:
  "Match sample_addr_lib (sample_at 0 0 [\<lparr>Free = 90000, YesLots = 0, NoLots = 0\<rparr>, \<lparr>Free = 90000, YesLots = 0, NoLots = 0\<rparr>]) sample_maker
     sample_taker 2 =
   Inr (\<lparr>YesValue = 12000, NoValue = 8000, Notional = 20000, YesPrice = 6000\<rparr>,
     sample_at 2 20000 [\<lparr>Free = 78000, YesLots = 2, NoLots = 0\<rparr>, \<lparr>Free = 82000, YesLots = 0, NoLots = 2\<rparr>])"
  by (simp add: Match_def sample_domains sample_valid sample_amounts sample_apply sample_backing)

lemma sample_split:
  "Split (sample_at 2 20000 [\<lparr>Free = 78000, YesLots = 2, NoLots = 0\<rparr>, \<lparr>Free = 82000, YesLots = 0, NoLots = 2\<rparr>]) ''b'' 1 =
   Inr (sample_at 3 30000 [\<lparr>Free = 78000, YesLots = 2, NoLots = 0\<rparr>, \<lparr>Free = 72000, YesLots = 1, NoLots = 3\<rparr>])"
  by (simp add: Split_def table_eval)

lemma sample_finalize:
  "Finalize (sample_at 3 30000 [\<lparr>Free = 78000, YesLots = 2, NoLots = 0\<rparr>, \<lparr>Free = 72000, YesLots = 1, NoLots = 3\<rparr>]) OutcomeInvalid =
   Inr sample_final"
  by (simp add: Finalize_def enum_eval table_eval)

lemma sample_open_run:
  "pm_run sample_addr_lib sample_model [CallDeposit ''a'' 90000, CallDeposit ''b'' 90000] =
   sample_at 0 0 [\<lparr>Free = 90000, YesLots = 0, NoLots = 0\<rparr>, \<lparr>Free = 90000, YesLots = 0, NoLots = 0\<rparr>]"
  by (simp add: sample_deposits)

lemma sample_run:
  "pm_run sample_addr_lib sample_model sample_calls = sample_final"
  "accepted_deposits sample_addr_lib sample_model sample_calls = 180000"
  by (simp_all add: sample_calls_def sample_deposits sample_match sample_split sample_finalize)

lemma sample_claims:
  "pm_claims sample_final [''a'', ''b''] = Inr ([10000, 20000], sample_final\<lparr>
     RemainingPayoutLiability := 0, CumulativeClaimedPayout := 30000,
     Accounts := [(''a'', \<lparr>Free = 88000, YesLots = 0, NoLots = 0\<rparr>), (''b'', \<lparr>Free = 92000, YesLots = 0, NoLots = 0\<rparr>)]\<rparr>)"
  by (simp add: Claim_def claim_terms_def enum_eval table_eval)

lemma sample_fills:
  "fill_sequence sample_addr_lib sample_maker 1 20 0 [(2, 3), (3, 8)] = Inr 5"
  by (simp add: ValidateOrderFill_def sample_valid)
    (simp add: sample_maker_def sample_order_def word_le_nat_alt word_less_nat_alt)

subsection \<open>Properties\<close>

text \<open>C17: In every run of the market model from its constructor, on any sequence of deposits,
  splits, merges, matches, finalizations and claims, an open market has exactly as many YES as NO
  lots as complete sets and locks exactly one lot payout per complete set, and a finalized market's
  remaining liability is exactly the sum of what its accounts can still claim.\<close>

theorem market_stays_collateralised:
  assumes "NewReferenceModel L = Inr m0"
  shows "(let m = pm_run A m0 calls in
     if Finalized m
     then table_total (payout_of m) m = unat (RemainingPayoutLiability m) \<and>
          unat (RemainingPayoutLiability m) + unat (CumulativeClaimedPayout m) = unat (FinalBacking m)
     else table_total yes_of m = unat (CompleteSets m) \<and>
          table_total no_of m = unat (CompleteSets m) \<and>
          unat (LockedCollateral m) = unat (CompleteSets m) * unat (LotPayout m))"
proof -
  have inv: "market_inv (pm_run A m0 calls)"
    by (rule pm_run_inv [OF New_inv(1) [OF assms]])
  show ?thesis
    using market_open [OF inv] market_final [OF inv] by (simp add: Let_def open_inv_def final_inv_def)
qed

theorem market_stays_collateralised_witness:
  "NewReferenceModel 10000 = Inr sample_model \<and> Finalized sample_final \<and>
   table_total (payout_of sample_final) sample_final = 30000"
  using market_stays_collateralised [OF sample_new, of sample_addr_lib sample_calls]
  by (simp add: sample_new sample_run) (simp add: sample_final_def)

text \<open>C31: The defensive re-checks of the market model never fire: in every run, no call is
  answered with an invariant, backing or position-overflow error, and the maker-price and
  complete-set-backing guards of \<^verbatim>\<open>Match\<close> are never the reason for a refusal.\<close>

theorem recheck_never_fires:
  assumes "NewReferenceModel L = Inr m0" and "e \<in> internal_errors"
  shows "pm_exec A (pm_run A m0 calls) call \<noteq> Inl e"
proof
  assume "pm_exec A (pm_run A m0 calls) call = Inl e"
  then show False
    using pm_exec_ok [OF pm_run_inv [OF New_inv(1) [OF assms(1)], of A calls], of call A] assms(2)
    by simp
qed

theorem recheck_never_fires_witness:
  "NewReferenceModel 10000 = Inr sample_model \<and>
   pm_exec sample_addr_lib sample_final (CallClaim ''a'') \<noteq> Inl FinalConservation"
  using recheck_never_fires [OF sample_new, of FinalConservation sample_addr_lib sample_calls
      "CallClaim ''a''"]
  by (simp add: sample_new sample_run internal_errors_def)

text \<open>Value is conserved: after any run the free balances plus the locked collateral (or, once
  finalized, the remaining liability) are exactly the accepted deposits, over unbounded numbers.\<close>

theorem backing_is_accepted_deposits:
  assumes "NewReferenceModel L = Inr m0"
  shows "backing (pm_run A m0 calls) = accepted_deposits A m0 calls"
  using pm_run_backing [OF New_inv(1) [OF assms], of A calls] New_inv(2) [OF assms] by simp

theorem backing_is_accepted_deposits_witness:
  "NewReferenceModel 10000 = Inr sample_model \<and> backing sample_final = 180000"
  using backing_is_accepted_deposits [OF sample_new, of sample_addr_lib sample_calls]
  by (simp add: sample_new sample_run)

text \<open>C18: Claim order cannot affect payouts or solvency: if the claims of distinct owners succeed in
  one order, they succeed in every other order, each owner is paid the same and the final model is
  the same.\<close>

theorem claim_order_irrelevant:
  assumes "NewReferenceModel L = Inr m0" and "m = pm_run A m0 calls" and "Finalized m"
    and "distinct owners" and "mset owners' = mset owners"
    and "pm_claims m owners = Inr (ps, m')"
  shows "\<exists>ps'. pm_claims m owners' = Inr (ps', m') \<and> mset (zip owners' ps') = mset (zip owners ps)"
proof -
  have inv: "market_inv m" using pm_run_inv [OF New_inv(1) [OF assms(1)]] assms(2) by simp
  note some = pm_claims_some [OF inv assms(3,6,4)]
  have d': "distinct owners'" and s': "set owners' = set owners"
    using assms(4,5) by (metis mset_eq_imp_distinct_iff, metis mset_eq_setD)
  let ?pay = "\<lambda>k. of_nat (payout_of m (account_of m k)) :: u64"
  have "pm_claims m owners = Inr (map ?pay owners, fold (\<lambda>k m. claimed_model m k) owners m)"
    using pm_claims_effect [OF inv assms(3,4) some] by auto
  moreover have "pm_claims m owners' = Inr (map ?pay owners', fold (\<lambda>k m. claimed_model m k) owners' m)"
    using pm_claims_effect [OF inv assms(3) d'] some s' by auto
  moreover have "fold (\<lambda>k m. claimed_model m k) owners m = fold (\<lambda>k m. claimed_model m k) owners' m"
    using some(1) assms(4,5) by (intro fold_claimed_permute) simp_all
  moreover have "zip ks (map ?pay ks) = map (\<lambda>k. (k, ?pay k)) ks" for ks
    by (simp add: zip_map2 zip_same_conv_map)
  ultimately show ?thesis using assms(5,6) by (auto simp flip: mset_map) (metis mset_map)
qed

theorem claim_order_irrelevant_witness:
  "\<exists>ps. pm_claims sample_final [''b'', ''a''] = Inr (ps, sample_final\<lparr>
     RemainingPayoutLiability := 0, CumulativeClaimedPayout := 30000,
     Accounts := [(''a'', \<lparr>Free = 88000, YesLots = 0, NoLots = 0\<rparr>),
                  (''b'', \<lparr>Free = 92000, YesLots = 0, NoLots = 0\<rparr>)]\<rparr>) \<and>
     mset (zip [''b'', ''a''] ps) = {#(''a'', 10000), (''b'', 20000)#}"
proof -
  have f: "Finalized sample_final" by (simp add: sample_final_def)
  show ?thesis
    using claim_order_irrelevant [OF sample_new sample_run(1) [symmetric] f _ _ sample_claims,
        of "[''b'', ''a'']"] by simp
qed





text \<open>A sequence of accepted fills never overfills an order and never strands dust: the filled
  lots are exactly the sum of the fills and at most the order's quantity, every fill is inside the
  order's validity interval, and after the last fill the order is complete or (partial fills
  allowed) at least the effective minimum remains.\<close>

theorem fills_never_overfill:
  assumes "fill_sequence A ord marketMinimum tradeClose 0 fills = Inr n" and "fills \<noteq> []"
  shows "unat n = sum_list (map (unat \<circ> fst) fills) \<and> n \<le> QuantityLots ord \<and>
    list_all (\<lambda>(q, now). ValidAfter ord \<le> now \<and> now < ValidUntil ord) fills \<and>
    (n = QuantityLots ord \<or> (AllowPartial ord \<and>
      max (unat marketMinimum) (unat (MinFillLots ord)) \<le> unat (QuantityLots ord) - unat n))"
  using fill_sequence_facts [OF assms(1)] assms(2) by (auto simp: list_all_iff word_le_nat_alt)

theorem fills_never_overfill_witness:
  "fill_sequence sample_addr_lib sample_maker 1 20 0 [(2, 3), (3, 8)] = Inr 5 \<and>
   unat (5 :: u64) = (\<Sum>f\<leftarrow>[(2, 3), (3, 8)]. unat (fst f :: u64))"
  using fills_never_overfill [OF sample_fills] sample_fills by (simp add: comp_def)

end
