(* ===== verification/Durable_Dir.thy ===== *)
theory Durable_Dir
  imports Go_Prelude "HOL-Library.AList"
begin

text \<open>
  The owner-private journal directories shared by the relay journal
  (\<^verbatim>\<open>pkg/nativecore/relay_journal.go\<close>), the buyer budget journal (\<^verbatim>\<open>pkg/buyersdk/journal.go\<close>)
  and the execution gate (\<^verbatim>\<open>pkg/executiongate/store.go\<close>). A directory is an association list from
  file names to decoded records: JSON text is represented by the record it encodes, and a file that
  decodes to no record of the component is a separate constructor of its content type. Writers
  publish a synced temporary file by \<^verbatim>\<open>link\<close> or \<^verbatim>\<open>rename\<close> and then sync the directory; every write
  takes an explicit fault, so that a failure before the publication and one after it (the file is
  there, the caller sees an error or has crashed) are both behaviours of the model.

  The locales are the contracts the journals promise their callers: a monotone log never moves a
  rank down, a phase log hands out each lease at most once, a binding log never changes a value once
  bound.
\<close>

subsection \<open>Files and faults\<close>

type_synonym 'f dir = "(string \<times> 'f) list"

text \<open>A write succeeds, fails with no effect, or takes effect and then fails (the directory sync
  reports an error, or the process dies before the caller learns of it).\<close>

datatype io_fault = IoOk | IoFailBefore | IoFailAfter

text \<open>The outcomes of the system calls of one journal operation: taking the file lock, the file
  reads in the order the operation issues them, listing the directory, and the first and second
  published write.\<close>

record op_io =
  LockOk :: bool
  ReadOk :: "nat \<Rightarrow> bool"
  ReadDirOk :: bool
  FirstWrite :: io_fault
  SecondWrite :: io_fault

definition io_ok :: op_io where
  "io_ok = \<lparr>LockOk = True, ReadOk = (\<lambda>_. True), ReadDirOk = True, FirstWrite = IoOk,
     SecondWrite = IoOk\<rparr>"

text \<open>\<^verbatim>\<open>os.ReadDir\<close> returns the entries sorted by name.\<close>

definition ReadDir :: "'f dir \<Rightarrow> 'f dir" where
  "ReadDir d = sort_key fst d"

text \<open>Link a synced temporary file to a name: \<open>Some False\<close> when the name is taken, None on an
  error.\<close>

definition atomicCreate :: "io_fault \<Rightarrow> string \<Rightarrow> 'f \<Rightarrow> 'f dir \<Rightarrow> bool option \<times> 'f dir" where
  "atomicCreate io path raw d =
     (if io = IoFailBefore then (None, d)
      else if map_of d path \<noteq> None then (Some False, d)
      else (if io = IoFailAfter then None else Some True, AList.update path raw d))"

text \<open>Rename a synced temporary file over a name: whether the call succeeded.\<close>

definition atomicReplace :: "io_fault \<Rightarrow> string \<Rightarrow> 'f \<Rightarrow> 'f dir \<Rightarrow> bool \<times> 'f dir" where
  "atomicReplace io path raw d =
     (if io = IoFailBefore then (False, d) else (io = IoOk, AList.update path raw d))"

lemma map_of_atomicCreate:
  "map_of (snd (atomicCreate io path raw d)) p =
     (if p = path \<and> map_of d path = None \<and> io \<noteq> IoFailBefore then Some raw else map_of d p)"
  by (auto simp: atomicCreate_def update_conv')

lemma map_of_atomicReplace:
  "map_of (snd (atomicReplace io path raw d)) p =
     (if p = path \<and> io \<noteq> IoFailBefore then Some raw else map_of d p)"
  by (simp add: atomicReplace_def update_conv')

lemma atomicCreate_created:
  "fst (atomicCreate io path raw d) = Some True \<Longrightarrow>
   map_of d path = None \<and> map_of (snd (atomicCreate io path raw d)) path = Some raw"
  by (auto simp: atomicCreate_def update_conv' split: if_splits)

lemma atomicCreate_not_created:
  "fst (atomicCreate io path raw d) = Some False \<Longrightarrow>
   map_of d path \<noteq> None \<and> snd (atomicCreate io path raw d) = d"
  by (auto simp: atomicCreate_def split: if_splits)

lemma distinct_atomicCreate:
  "distinct (map fst d) \<Longrightarrow> distinct (map fst (snd (atomicCreate io path raw d)))"
  by (simp add: atomicCreate_def distinct_update)

lemma distinct_atomicReplace:
  "distinct (map fst d) \<Longrightarrow> distinct (map fst (snd (atomicReplace io path raw d)))"
  by (simp add: atomicReplace_def distinct_update)

lemma mset_ReadDir [simp]: "mset (ReadDir d) = mset d"
  by (simp add: ReadDir_def)

lemma set_ReadDir [simp]: "set (ReadDir d) = set d"
  by (simp add: ReadDir_def)

text \<open>Sums over the entries of a directory do not depend on the listing order.\<close>

lemma sum_ReadDir: "sum_list (map f (ReadDir d)) = sum_list (map f d :: nat list)"
  by (metis mset_ReadDir mset_map sum_mset_sum_list)

lemma update_new: "map_of d p = None \<Longrightarrow> AList.update p x d = d @ [(p, x)]"
  by (induction d) auto

lemma Unix_window:
  assumes "Unix now \<le> T + W div 1000000000"
  shows "Unix (now - W) \<le> T"
proof -
  have "now - W \<le> now - (W div 1000000000) * 1000000000"
    using div_mult_mod_eq [of W 1000000000] pos_mod_sign [of 1000000000 W] by linarith
  then have "Unix (now - W) \<le> (now - (W div 1000000000) * 1000000000) div 1000000000"
    unfolding Unix_def by (rule zdiv_mono1) simp
  also have "\<dots> = Unix now - W div 1000000000"
    using div_mult_self1 [of 1000000000 now "- (W div 1000000000)"] by (simp add: Unix_def)
  finally show ?thesis using assms by simp
qed

lemma sum_update_existing:
  assumes "map_of d p = Some y" and "f (p, x) = f (p, y)"
  shows "sum_list (map f (AList.update p x d)) = sum_list (map f d :: nat list)"
  using assms by (induction d) (auto split: if_splits)

subsection \<open>Contracts\<close>

text \<open>The keys granted along a run.\<close>

primrec granted ::
  "('s \<Rightarrow> 'op \<Rightarrow> 's) \<Rightarrow> ('s \<Rightarrow> 'op \<Rightarrow> 'k option) \<Rightarrow> 's \<Rightarrow> 'op list \<Rightarrow> 'k list" where
  "granted next grants s [] = []"
| "granted next grants s (c # cs) =
     (case grants s c of None \<Rightarrow> [] | Some k \<Rightarrow> [k]) @ granted next grants (next s c) cs"

text \<open>A monotone log: the rank of a key never goes down.\<close>

locale monotone_log =
  fixes rank :: "'s \<Rightarrow> 'k \<Rightarrow> 'r :: order"
    and next_state :: "'s \<Rightarrow> 'op \<Rightarrow> 's"
  assumes rank_mono: "rank s k \<le> rank (next_state s c) k"
begin

lemma rank_run: "rank s k \<le> rank (foldl next_state s cs) k"
proof (induction cs arbitrary: s)
  case (Cons c cs)
  show ?case using order_trans [OF rank_mono Cons.IH] by simp
qed simp

lemma rank_between: "rank (foldl next_state s cs) k \<le> rank (foldl next_state s (cs @ ds)) k"
  using rank_run [of "foldl next_state s cs" k ds] by simp

end

text \<open>A phase log: every key moves upwards through the ranks absent (0), prepared (1), broadcasting
  (2) and complete (3), and a lease on a key is granted only on the way out of prepared.\<close>

locale phase_log = monotone_log rank next_state
  for rank :: "'s \<Rightarrow> 'k \<Rightarrow> nat" and next_state :: "'s \<Rightarrow> 'op \<Rightarrow> 's" +
  fixes grants :: "'s \<Rightarrow> 'op \<Rightarrow> 'k option"
  assumes grant_prepared: "grants s c = Some k \<Longrightarrow> rank s k \<le> 1"
    and grant_advances: "grants s c = Some k \<Longrightarrow> 2 \<le> rank (next_state s c) k"
begin

lemma granted_rank: "k \<in> set (granted next_state grants s cs) \<Longrightarrow> rank s k \<le> 1"
proof (induction cs arbitrary: s)
  case (Cons c cs)
  then consider "grants s c = Some k" | "k \<in> set (granted next_state grants (next_state s c) cs)"
    by (auto split: option.splits)
  then show ?case
  proof cases
    case 1
    then show ?thesis by (rule grant_prepared)
  next
    case 2
    then show ?thesis using Cons.IH [OF 2] order_trans [OF rank_mono] by blast
  qed
qed simp

lemma granted_once: "distinct (granted next_state grants s cs)"
proof (induction cs arbitrary: s)
  case (Cons c cs)
  show ?case
  proof (cases "grants s c")
    case None
    then show ?thesis using Cons by simp
  next
    case (Some k)
    then have "k \<notin> set (granted next_state grants (next_state s c) cs)"
      using granted_rank [of k "next_state s c" cs] grant_advances [OF Some] by fastforce
    then show ?thesis using Some Cons by simp
  qed
qed simp

end

text \<open>A binding log: once a key is bound it stays bound to the same value.\<close>

locale binding_log =
  fixes bound :: "'s \<Rightarrow> 'k \<Rightarrow> 'v option"
    and next_state :: "'s \<Rightarrow> 'op \<Rightarrow> 's"
  assumes bound_step: "bound s k = Some v \<Longrightarrow> bound (next_state s c) k = Some v"
begin

lemma bound_run: "bound s k = Some v \<Longrightarrow> bound (foldl next_state s cs) k = Some v"
  by (induction cs arbitrary: s) (simp_all add: bound_step)

lemma bound_unique:
  assumes "bound (foldl next_state s cs) k = Some v"
    and "bound (foldl next_state s (cs @ ds)) k = Some w"
  shows "w = v"
  using bound_run [OF assms(1), of ds] assms(2) by simp

end

text \<open>A record log: a key that holds a record keeps one, and it only moves along a preorder. A binding
  log is the case in which it does not move at all.\<close>

locale record_log =
  fixes at :: "'s \<Rightarrow> 'k \<Rightarrow> 'v option"
    and next_state :: "'s \<Rightarrow> 'op \<Rightarrow> 's"
    and moves :: "'v \<Rightarrow> 'v \<Rightarrow> bool"
  assumes moves_refl: "moves v v"
    and moves_trans: "moves u v \<Longrightarrow> moves v w \<Longrightarrow> moves u w"
    and at_step: "at s k = Some v \<Longrightarrow> \<exists>w. at (next_state s c) k = Some w \<and> moves v w"
begin

lemma at_run: "at s k = Some v \<Longrightarrow> \<exists>w. at (foldl next_state s cs) k = Some w \<and> moves v w"
proof (induction cs arbitrary: s v)
  case Nil
  then show ?case using moves_refl by simp
next
  case (Cons c cs)
  obtain u where u: "at (next_state s c) k = Some u" "moves v u" using at_step [OF Cons.prems] by blast
  then show ?case using Cons.IH [OF u(1)] moves_trans by (metis foldl_Cons)
qed

end

sublocale binding_log \<subseteq> as_records: record_log bound next_state "(=)"
  by unfold_locales (auto intro: bound_step)

end
