(* ===== verification/Relay_Journal.thy ===== *)
theory Relay_Journal
  imports Durable_Dir
begin

text \<open>
  The Native relay journal, \<^verbatim>\<open>pkg/nativecore/relay_journal.go\<close>: request keys are retry aliases, a
  state slot is the canonical fee-spend claim, and an action identity binds the exact signed intent
  that occupies a slot. The hash of a file name is the parameter \<open>H\<close>: nothing below assumes that
  it is free of collisions, because every record carries the identity it was written for.

  The lemmas show, over every run of journal calls with arbitrary arguments, clocks and write
  faults, that a slot grants at most one broadcast lease, that slots and request keys never change
  their binding, and that no sliding window ever exceeds the spend limits.
\<close>

subsection \<open>Records\<close>

record RelaySpendLimits =
  Window :: int
  MaxActionsPerTarget :: u64
  MaxFundingPerTargetNanoTOS :: u64
  MaxActionsPerWallet :: u64
  MaxFundingPerWalletNanoTOS :: u64

definition RelaySpendLimits_valid :: "RelaySpendLimits \<Rightarrow> bool" where
  "RelaySpendLimits_valid l = (Window l \<ge> Minute \<and> Window l \<le> 31 * 24 * 60 * Minute \<and>
     MaxActionsPerTarget l > 0 \<and> MaxFundingPerTargetNanoTOS l > 0 \<and>
     MaxActionsPerWallet l > 0 \<and> MaxFundingPerWalletNanoTOS l > 0 \<and>
     MaxActionsPerTarget l \<le> MaxActionsPerWallet l \<and>
     MaxFundingPerTargetNanoTOS l \<le> MaxFundingPerWalletNanoTOS l)"

definition permitsSingle :: "RelaySpendLimits \<Rightarrow> u64 \<Rightarrow> bool" where
  "permitsSingle l funding = (RelaySpendLimits_valid l \<and>
     funding \<le> MaxFundingPerTargetNanoTOS l \<and> funding \<le> MaxFundingPerWalletNanoTOS l)"

record RelayIntent =
  ActionHash :: string
  Destination :: string
  QueryID :: u64
  BodyHash :: string
  StateInitHash :: string
  FundingNanoTOS :: u64
  StateSlotIdentity :: string
  TargetObjectID :: string

definition RelayIntent_valid :: "RelayIntent \<Rightarrow> bool" where
  "RelayIntent_valid i = (ActionHash i \<noteq> [] \<and> Destination i \<noteq> [] \<and> QueryID i \<noteq> 0 \<and>
     BodyHash i \<noteq> [] \<and> StateInitHash i \<noteq> [] \<and> FundingNanoTOS i \<noteq> 0 \<and>
     StateSlotIdentity i \<noteq> [] \<and> TargetObjectID i \<noteq> [])"

record relayRequestRecord =
  RequestKey :: string
  RequestAction :: string

definition relaySlotPrepared :: string where "relaySlotPrepared = ''prepared''"
definition relaySlotBroadcasting :: string where "relaySlotBroadcasting = ''broadcasting''"
definition relaySlotComplete :: string where "relaySlotComplete = ''complete''"

record relaySlotRecord =
  SlotIdentity :: string
  ActionIdentity :: string
  Intent :: RelayIntent
  Phase :: string
  ClaimedUnix :: int

definition relaySlotRecord_valid :: "relaySlotRecord \<Rightarrow> bool" where
  "relaySlotRecord_valid r = (SlotIdentity r \<noteq> [] \<and> ActionIdentity r \<noteq> [] \<and>
     RelayIntent_valid (Intent r) \<and> SlotIdentity r = StateSlotIdentity (Intent r) \<and>
     ClaimedUnix r > 0 \<and>
     (Phase r = relaySlotPrepared \<or> Phase r = relaySlotBroadcasting \<or> Phase r = relaySlotComplete))"

definition slot_matches :: "relaySlotRecord \<Rightarrow> string \<Rightarrow> RelayIntent \<Rightarrow> bool" where
  "slot_matches r actionIdentity intent = (ActionIdentity r = actionIdentity \<and>
     SlotIdentity r = StateSlotIdentity intent \<and> Intent r = intent)"

text \<open>What a file of the journal decodes to.\<close>

datatype relay_file =
    RequestFile relayRequestRecord
  | SlotFile relaySlotRecord
  | JunkFile

datatype relay_error =
    EmptyIdentity | LockFailed | KeyReused | SlotClaimed | SlotMismatch | BadPhase
  | BadSlotRecord | BadRequestRecord | ClaimFailed | WriteFailed | ListFailed | EntryReadFailed
  | EmptyLease | LeaseMismatch | CompletionMismatch | NoLease
  | WalletOverflow | TargetOverflow | WalletLimit | TargetLimit

subsection \<open>Reading\<close>

definition requestPath :: "(string \<Rightarrow> bytes) \<Rightarrow> string \<Rightarrow> string" where
  "requestPath H key = ''request-'' @ hex_encode (H key) @ ''.json''"

definition slotPath :: "(string \<Rightarrow> bytes) \<Rightarrow> string \<Rightarrow> string" where
  "slotPath H identity = ''slot-'' @ hex_encode (H identity) @ ''.json''"

definition readSlot ::
  "(string \<Rightarrow> bytes) \<Rightarrow> bool \<Rightarrow> relay_file dir \<Rightarrow> string \<Rightarrow> relay_error + relaySlotRecord option" where
  "readSlot H ok d identity =
     (if \<not> ok then Inl BadSlotRecord
      else case map_of d (slotPath H identity) of
        None \<Rightarrow> Inr None
      | Some (SlotFile r) \<Rightarrow>
          if \<not> relaySlotRecord_valid r \<or> SlotIdentity r \<noteq> identity then Inl BadSlotRecord
          else Inr (Some r)
      | Some _ \<Rightarrow> Inl BadSlotRecord)"

definition readRequest ::
  "(string \<Rightarrow> bytes) \<Rightarrow> bool \<Rightarrow> relay_file dir \<Rightarrow> string \<Rightarrow> relay_error + relayRequestRecord option" where
  "readRequest H ok d key =
     (if \<not> ok then Inl BadRequestRecord
      else case map_of d (requestPath H key) of
        None \<Rightarrow> Inr None
      | Some (RequestFile r) \<Rightarrow>
          if RequestKey r \<noteq> key \<or> RequestAction r = [] then Inl BadRequestRecord
          else Inr (Some r)
      | Some _ \<Rightarrow> Inl BadRequestRecord)"

text \<open>The results of \<^verbatim>\<open>Lookup\<close> are found, complete, the hash of the action in the slot, and the
  error.\<close>

definition Lookup ::
  "(string \<Rightarrow> bytes) \<Rightarrow> op_io \<Rightarrow> relay_file dir \<Rightarrow> string \<Rightarrow> string \<Rightarrow> RelayIntent
   \<Rightarrow> bool \<times> bool \<times> string \<times> relay_error option" where
  "Lookup H io d requestKey actionIdentity intent =
     (if requestKey = [] \<or> actionIdentity = [] \<or> \<not> RelayIntent_valid intent
        then (False, False, [], Some EmptyIdentity)
      else case readRequest H (ReadOk io 0) d requestKey of
        Inl e \<Rightarrow> (False, False, [], Some e)
      | Inr request \<Rightarrow>
          if (case request of None \<Rightarrow> False | Some q \<Rightarrow> RequestAction q \<noteq> actionIdentity)
          then (False, False, [], Some KeyReused)
          else case readSlot H (ReadOk io 1) d (StateSlotIdentity intent) of
            Inl e \<Rightarrow> (False, False, [], Some e)
          | Inr None \<Rightarrow> (False, False, [], None)
          | Inr (Some slot) \<Rightarrow>
              if ActionIdentity slot \<noteq> actionIdentity
                then (True, False, ActionHash (Intent slot), Some SlotClaimed)
              else if \<not> slot_matches slot actionIdentity intent
                then (True, False, ActionHash (Intent slot), Some SlotMismatch)
              else if Phase slot = relaySlotPrepared then (False, False, [], None)
              else if Phase slot = relaySlotBroadcasting
                then (True, False, ActionHash (Intent slot), None)
              else if Phase slot = relaySlotComplete
                then (True, True, ActionHash (Intent slot), None)
              else (True, False, ActionHash (Intent slot), Some BadPhase))"

subsection \<open>Spend limits\<close>

record spend_counters =
  walletActions :: u64
  walletFunding :: u64
  targetActions :: u64
  targetFunding :: u64

definition is_slot_name :: "string \<Rightarrow> bool" where
  "is_slot_name name = (has_prefix name ''slot-'' \<and> has_suffix name ''.json'')"

text \<open>The loop of \<^verbatim>\<open>enforceSpendLimits\<close> over the directory entries; \<open>n\<close> numbers the file reads.\<close>

fun spend_loop ::
  "(nat \<Rightarrow> bool) \<Rightarrow> string \<Rightarrow> int \<Rightarrow> nat \<Rightarrow> relay_file dir \<Rightarrow> spend_counters
   \<Rightarrow> relay_error + spend_counters" where
  "spend_loop ok target cutoff n [] c = Inr c"
| "spend_loop ok target cutoff n ((name, file) # entries) c =
     (if \<not> is_slot_name name then spend_loop ok target cutoff n entries c
      else if \<not> ok n then Inl EntryReadFailed
      else case file of
        SlotFile slot \<Rightarrow>
          if \<not> relaySlotRecord_valid slot then Inl BadSlotRecord
          else if ClaimedUnix slot < cutoff then spend_loop ok target cutoff (n + 1) entries c
          else let f = FundingNanoTOS (Intent slot) in
            if walletActions c = - 1 \<or> walletFunding c > - 1 - f then Inl WalletOverflow
            else let c = c\<lparr>walletActions := walletActions c + 1,
                           walletFunding := walletFunding c + f\<rparr> in
              if TargetObjectID (Intent slot) = target then
                (if targetActions c = - 1 \<or> targetFunding c > - 1 - f then Inl TargetOverflow
                 else spend_loop ok target cutoff (n + 1) entries
                   (c\<lparr>targetActions := targetActions c + 1, targetFunding := targetFunding c + f\<rparr>))
              else spend_loop ok target cutoff (n + 1) entries c
      | _ \<Rightarrow> Inl BadSlotRecord)"

definition enforceSpendLimits ::
  "op_io \<Rightarrow> relay_file dir \<Rightarrow> RelayIntent \<Rightarrow> RelaySpendLimits \<Rightarrow> int \<Rightarrow> relay_error + unit" where
  "enforceSpendLimits io d intent limits now =
     (if \<not> ReadDirOk io then Inl ListFailed
      else let cutoff = Unix (now - Window limits) in
        ebind (spend_loop (\<lambda>n. ReadOk io (3 + n)) (TargetObjectID intent) cutoff 0 (ReadDir d)
                 \<lparr>walletActions = 0, walletFunding = 0, targetActions = 0, targetFunding = 0\<rparr>) (\<lambda>c.
          if walletActions c \<ge> MaxActionsPerWallet limits \<or>
             walletFunding c > MaxFundingPerWalletNanoTOS limits - FundingNanoTOS intent
            then Inl WalletLimit
          else if targetActions c \<ge> MaxActionsPerTarget limits \<or>
             targetFunding c > MaxFundingPerTargetNanoTOS limits - FundingNanoTOS intent
            then Inl TargetLimit
          else Inr ()))"

subsection \<open>Claiming, leasing and completing\<close>

text \<open>The tail of \<^verbatim>\<open>beginLocked\<close>: bind the request key and report the slot's phase.\<close>

definition bind_request ::
  "(string \<Rightarrow> bytes) \<Rightarrow> op_io \<Rightarrow> string \<Rightarrow> string \<Rightarrow> relaySlotRecord \<Rightarrow> relay_file dir
   \<Rightarrow> (bool \<times> string \<times> relay_error option) \<times> relay_file dir" where
  "bind_request H io requestKey actionIdentity slot d =
     (let request = \<lparr>RequestKey = requestKey, RequestAction = actionIdentity\<rparr>;
          (created, d') = atomicCreate (SecondWrite io) (requestPath H requestKey) (RequestFile request) d
      in if created = None then ((False, [], Some WriteFailed), d')
         else if created = Some False \<and> readRequest H (ReadOk io 2) d' requestKey \<noteq> Inr (Some request)
           then ((False, [], Some KeyReused), d')
         else if Phase slot = relaySlotPrepared then ((False, [], None), d')
         else if Phase slot = relaySlotBroadcasting then ((False, ActionHash (Intent slot), None), d')
         else if Phase slot = relaySlotComplete then ((True, ActionHash (Intent slot), None), d')
         else ((False, ActionHash (Intent slot), Some BadPhase), d'))"

definition beginLocked ::
  "(string \<Rightarrow> bytes) \<Rightarrow> op_io \<Rightarrow> string \<Rightarrow> string \<Rightarrow> RelayIntent \<Rightarrow> RelaySpendLimits \<Rightarrow> int
   \<Rightarrow> relay_file dir \<Rightarrow> (bool \<times> string \<times> relay_error option) \<times> relay_file dir" where
  "beginLocked H io requestKey actionIdentity intent limits now d =
     (case readRequest H (ReadOk io 0) d requestKey of
        Inl e \<Rightarrow> ((False, [], Some e), d)
      | Inr request \<Rightarrow>
          if (case request of None \<Rightarrow> False | Some q \<Rightarrow> RequestAction q \<noteq> actionIdentity)
          then ((False, [], Some KeyReused), d)
          else case readSlot H (ReadOk io 1) d (StateSlotIdentity intent) of
            Inl e \<Rightarrow> ((False, [], Some e), d)
          | Inr (Some slot) \<Rightarrow>
              if ActionIdentity slot \<noteq> actionIdentity
                then ((False, ActionHash (Intent slot), Some SlotClaimed), d)
              else if \<not> slot_matches slot actionIdentity intent
                then ((False, ActionHash (Intent slot), Some SlotMismatch), d)
              else bind_request H io requestKey actionIdentity slot d
          | Inr None \<Rightarrow>
              (case enforceSpendLimits io d intent limits now of
                 Inl e \<Rightarrow> ((False, [], Some e), d)
               | Inr _ \<Rightarrow>
                   let slot = \<lparr>SlotIdentity = StateSlotIdentity intent,
                               ActionIdentity = actionIdentity, Intent = intent,
                               Phase = relaySlotPrepared, ClaimedUnix = Unix now\<rparr>;
                       (created, d') = atomicCreate (FirstWrite io)
                                         (slotPath H (StateSlotIdentity intent)) (SlotFile slot) d
                   in if created \<noteq> Some True then ((False, [], Some ClaimFailed), d')
                      else bind_request H io requestKey actionIdentity slot d'))"

definition Begin ::
  "(string \<Rightarrow> bytes) \<Rightarrow> op_io \<Rightarrow> string \<Rightarrow> string \<Rightarrow> RelayIntent \<Rightarrow> RelaySpendLimits \<Rightarrow> int
   \<Rightarrow> relay_file dir \<Rightarrow> (bool \<times> string \<times> relay_error option) \<times> relay_file dir" where
  "Begin H io requestKey actionIdentity intent limits now d =
     (if requestKey = [] \<or> actionIdentity = [] \<or> \<not> RelayIntent_valid intent \<or>
         \<not> permitsSingle limits (FundingNanoTOS intent) \<or> now = zero_time
        then ((False, [], Some EmptyIdentity), d)
      else if \<not> LockOk io then ((False, [], Some LockFailed), d)
      else beginLocked H io requestKey actionIdentity intent limits now d)"

text \<open>The results of \<^verbatim>\<open>AcquireBroadcastLease\<close> are acquired, complete and the error.\<close>

definition AcquireBroadcastLease ::
  "(string \<Rightarrow> bytes) \<Rightarrow> op_io \<Rightarrow> string \<Rightarrow> RelayIntent \<Rightarrow> relay_file dir
   \<Rightarrow> (bool \<times> bool \<times> relay_error option) \<times> relay_file dir" where
  "AcquireBroadcastLease H io actionIdentity intent d =
     (if actionIdentity = [] \<or> \<not> RelayIntent_valid intent
        then ((False, False, Some EmptyLease), d)
      else if \<not> LockOk io then ((False, False, Some LockFailed), d)
      else case readSlot H (ReadOk io 0) d (StateSlotIdentity intent) of
        Inr (Some slot) \<Rightarrow>
          if \<not> slot_matches slot actionIdentity intent then ((False, False, Some LeaseMismatch), d)
          else if Phase slot = relaySlotPrepared then
            (let (ok, d') = atomicReplace (FirstWrite io) (slotPath H (StateSlotIdentity intent))
                              (SlotFile (slot\<lparr>Phase := relaySlotBroadcasting\<rparr>)) d
             in if \<not> ok then ((False, False, Some WriteFailed), d')
                else ((True, False, None), d'))
          else if Phase slot = relaySlotBroadcasting then ((False, False, None), d)
          else if Phase slot = relaySlotComplete then ((False, True, None), d)
          else ((False, False, Some BadPhase), d)
      | _ \<Rightarrow> ((False, False, Some LeaseMismatch), d))"

definition Complete ::
  "(string \<Rightarrow> bytes) \<Rightarrow> op_io \<Rightarrow> string \<Rightarrow> RelayIntent \<Rightarrow> relay_file dir
   \<Rightarrow> relay_error option \<times> relay_file dir" where
  "Complete H io actionIdentity intent d =
     (if actionIdentity = [] \<or> \<not> RelayIntent_valid intent then (Some CompletionMismatch, d)
      else if \<not> LockOk io then (Some LockFailed, d)
      else case readSlot H (ReadOk io 0) d (StateSlotIdentity intent) of
        Inr (Some slot) \<Rightarrow>
          if \<not> slot_matches slot actionIdentity intent then (Some CompletionMismatch, d)
          else if Phase slot = relaySlotComplete then (None, d)
          else if Phase slot \<noteq> relaySlotBroadcasting then (Some NoLease, d)
          else let (ok, d') = atomicReplace (FirstWrite io) (slotPath H (StateSlotIdentity intent))
                                (SlotFile (slot\<lparr>Phase := relaySlotComplete\<rparr>)) d
               in (if ok then None else Some WriteFailed, d')
      | _ \<Rightarrow> (Some CompletionMismatch, d))"

subsection \<open>One file at a time\<close>

text \<open>The life of a file of the journal: it is created once, as a request or as a prepared slot, and
  a slot only moves forward through its phases with everything else unchanged.\<close>

inductive file_step :: "relay_file option \<Rightarrow> relay_file option \<Rightarrow> bool" where
  keep: "file_step f f"
| new_request: "file_step None (Some (RequestFile r))"
| new_slot: "Phase r = relaySlotPrepared \<Longrightarrow> file_step None (Some (SlotFile r))"
| lease: "Phase r = relaySlotPrepared \<Longrightarrow>
    file_step (Some (SlotFile r)) (Some (SlotFile (r\<lparr>Phase := relaySlotBroadcasting\<rparr>)))"
| finish: "Phase r = relaySlotBroadcasting \<Longrightarrow>
    file_step (Some (SlotFile r)) (Some (SlotFile (r\<lparr>Phase := relaySlotComplete\<rparr>)))"

inductive_simps file_step_None: "file_step None g"

lemma file_step_simps [simp]:
  "file_step f f"
  "file_step None (Some (RequestFile q))"
  "file_step None (Some (SlotFile r)) = (Phase r = relaySlotPrepared)"
  "Phase r = relaySlotPrepared \<Longrightarrow>
     file_step (Some (SlotFile r)) (Some (SlotFile (r\<lparr>Phase := relaySlotBroadcasting\<rparr>)))"
  "Phase r = relaySlotBroadcasting \<Longrightarrow>
     file_step (Some (SlotFile r)) (Some (SlotFile (r\<lparr>Phase := relaySlotComplete\<rparr>)))"
  by (auto simp: file_step_None intro: file_step.intros)

text \<open>A call of the journal, with the outcomes of its system calls.\<close>

datatype relay_call =
    CallBegin op_io string string RelayIntent RelaySpendLimits int
  | CallAcquire op_io string RelayIntent
  | CallComplete op_io string RelayIntent

fun relay_next :: "(string \<Rightarrow> bytes) \<Rightarrow> relay_file dir \<Rightarrow> relay_call \<Rightarrow> relay_file dir" where
  "relay_next H d (CallBegin io key action intent limits now) =
     snd (Begin H io key action intent limits now d)"
| "relay_next H d (CallAcquire io action intent) = snd (AcquireBroadcastLease H io action intent d)"
| "relay_next H d (CallComplete io action intent) = snd (Complete H io action intent d)"

text \<open>The slot a call was granted the broadcast lease of.\<close>

fun relay_grants :: "(string \<Rightarrow> bytes) \<Rightarrow> relay_file dir \<Rightarrow> relay_call \<Rightarrow> string option" where
  "relay_grants H d (CallAcquire io action intent) =
     (if fst (fst (AcquireBroadcastLease H io action intent d))
      then Some (slotPath H (StateSlotIdentity intent)) else None)"
| "relay_grants H d _ = None"

lemma paths_differ [simp]: "slotPath H a \<noteq> requestPath H' b" "requestPath H' b \<noteq> slotPath H a"
  by (simp_all add: slotPath_def requestPath_def)

lemma phases_differ [simp]:
  "relaySlotPrepared \<noteq> relaySlotBroadcasting" "relaySlotBroadcasting \<noteq> relaySlotPrepared"
  "relaySlotPrepared \<noteq> relaySlotComplete" "relaySlotComplete \<noteq> relaySlotPrepared"
  "relaySlotBroadcasting \<noteq> relaySlotComplete" "relaySlotComplete \<noteq> relaySlotBroadcasting"
  by (simp_all add: relaySlotPrepared_def relaySlotBroadcasting_def relaySlotComplete_def)

lemma readSlot_SomeD:
  "readSlot H ok d identity = Inr (Some r) \<Longrightarrow>
   map_of d (slotPath H identity) = Some (SlotFile r) \<and> relaySlotRecord_valid r \<and> SlotIdentity r = identity"
  by (auto simp: readSlot_def split: if_splits option.splits relay_file.splits)

lemma readSlot_NoneD: "readSlot H ok d identity = Inr None \<Longrightarrow> map_of d (slotPath H identity) = None"
  by (auto simp: readSlot_def split: if_splits option.splits relay_file.splits)

lemma snd_bind_request:
  "snd (bind_request H io key action slot d) =
     snd (atomicCreate (SecondWrite io) (requestPath H key)
       (RequestFile \<lparr>RequestKey = key, RequestAction = action\<rparr>) d)"
  by (simp add: bind_request_def Let_def split: prod.splits)

abbreviation fresh_slot :: "string \<Rightarrow> RelayIntent \<Rightarrow> int \<Rightarrow> relaySlotRecord" where
  "fresh_slot action intent now \<equiv> \<lparr>SlotIdentity = StateSlotIdentity intent, ActionIdentity = action,
     Intent = intent, Phase = relaySlotPrepared, ClaimedUnix = Unix now\<rparr>"

text \<open>Every way \<^verbatim>\<open>Begin\<close> can leave the directory.\<close>

lemma Begin_cases:
  obtains (same) "snd (Begin H io key action intent limits now d) = d"
  | (again) "snd (Begin H io key action intent limits now d) =
         snd (atomicCreate (SecondWrite io) (requestPath H key)
           (RequestFile \<lparr>RequestKey = key, RequestAction = action\<rparr>) d)"
  | (claim) "RelayIntent_valid intent" "action \<noteq> []" "permitsSingle limits (FundingNanoTOS intent)"
      "map_of d (slotPath H (StateSlotIdentity intent)) = None"
      "enforceSpendLimits io d intent limits now = Inr ()"
      "snd (Begin H io key action intent limits now d) \<in>
        {snd (atomicCreate (FirstWrite io) (slotPath H (StateSlotIdentity intent))
          (SlotFile (fresh_slot action intent now)) d),
         snd (atomicCreate (SecondWrite io) (requestPath H key)
          (RequestFile \<lparr>RequestKey = key, RequestAction = action\<rparr>)
          (snd (atomicCreate (FirstWrite io) (slotPath H (StateSlotIdentity intent))
            (SlotFile (fresh_slot action intent now)) d)))}"
proof (cases "readSlot H (ReadOk io 1) d (StateSlotIdentity intent) = Inr None \<and>
    enforceSpendLimits io d intent limits now = Inr ()")
  case True
  note n = readSlot_NoneD [OF conjunct1 [OF True]]
  show thesis
  proof (cases "snd (Begin H io key action intent limits now d) = d")
    case False
    then have "RelayIntent_valid intent \<and> action \<noteq> [] \<and> permitsSingle limits (FundingNanoTOS intent)"
      by (auto simp: Begin_def split: if_splits)
    moreover have "snd (Begin H io key action intent limits now d) \<in>
        {snd (atomicCreate (FirstWrite io) (slotPath H (StateSlotIdentity intent))
          (SlotFile (fresh_slot action intent now)) d),
         snd (atomicCreate (SecondWrite io) (requestPath H key)
          (RequestFile \<lparr>RequestKey = key, RequestAction = action\<rparr>)
          (snd (atomicCreate (FirstWrite io) (slotPath H (StateSlotIdentity intent))
            (SlotFile (fresh_slot action intent now)) d)))}"
      using True False
      by (simp add: Begin_def beginLocked_def Let_def case_prod_beta snd_bind_request
          split: if_split_asm sum.split_asm)
    ultimately show thesis using True n claim by blast
  qed (rule same)
next
  case False
  have "snd (Begin H io key action intent limits now d) = d \<or>
      snd (Begin H io key action intent limits now d) =
         snd (atomicCreate (SecondWrite io) (requestPath H key)
           (RequestFile \<lparr>RequestKey = key, RequestAction = action\<rparr>) d)"
    using False
    by (auto simp: Begin_def beginLocked_def snd_bind_request split: sum.split option.split)
  then show thesis using same again by blast
qed

lemma Begin_file_step: "file_step (map_of d p) (map_of (snd (Begin H io key action intent limits now d)) p)"
proof (cases rule: Begin_cases [of H io key action intent limits now d])
  case same
  then show ?thesis by (simp add: file_step.keep)
next
  case again
  then show ?thesis by (auto simp: map_of_atomicCreate)
next
  case claim
  have "file_step (map_of d p) (map_of d' p)" if
    "d' \<in> {snd (atomicCreate (FirstWrite io) (slotPath H (StateSlotIdentity intent))
          (SlotFile (fresh_slot action intent now)) d),
         snd (atomicCreate (SecondWrite io) (requestPath H key)
          (RequestFile \<lparr>RequestKey = key, RequestAction = action\<rparr>)
          (snd (atomicCreate (FirstWrite io) (slotPath H (StateSlotIdentity intent))
            (SlotFile (fresh_slot action intent now)) d)))}" for d'
    using that claim(4) by (auto simp: map_of_atomicCreate)
  from this [OF claim(6)] show ?thesis .
qed

lemma Acquire_file_step:
  "file_step (map_of d p) (map_of (snd (AcquireBroadcastLease H io action intent d)) p)"
proof (cases "\<exists>slot. readSlot H (ReadOk io 0) d (StateSlotIdentity intent) = Inr (Some slot)")
  case True
  then obtain slot where r: "readSlot H (ReadOk io 0) d (StateSlotIdentity intent) = Inr (Some slot)" ..
  with readSlot_SomeD have "map_of d (slotPath H (StateSlotIdentity intent)) = Some (SlotFile slot)"
    by blast
  then show ?thesis
    using r by (auto simp: AcquireBroadcastLease_def Let_def case_prod_beta map_of_atomicReplace)
next
  case False
  then show ?thesis
    by (auto simp: AcquireBroadcastLease_def split: sum.split option.split)
qed

lemma Complete_file_step:
  "file_step (map_of d p) (map_of (snd (Complete H io action intent d)) p)"
proof (cases "\<exists>slot. readSlot H (ReadOk io 0) d (StateSlotIdentity intent) = Inr (Some slot)")
  case True
  then obtain slot where r: "readSlot H (ReadOk io 0) d (StateSlotIdentity intent) = Inr (Some slot)" ..
  with readSlot_SomeD have "map_of d (slotPath H (StateSlotIdentity intent)) = Some (SlotFile slot)"
    by blast
  then show ?thesis
    using r by (auto simp: Complete_def Let_def case_prod_beta map_of_atomicReplace)
next
  case False
  then show ?thesis
    by (auto simp: Complete_def split: sum.split option.split)
qed

lemma relay_file_step: "file_step (map_of d p) (map_of (relay_next H d c) p)"
  by (cases c) (simp_all add: Begin_file_step Acquire_file_step Complete_file_step)

text \<open>The rank of a file in the phase log.\<close>

definition phase_rank :: "relay_file dir \<Rightarrow> string \<Rightarrow> nat" where
  "phase_rank d p = (case map_of d p of
     None \<Rightarrow> 0
   | Some (SlotFile r) \<Rightarrow>
       if Phase r = relaySlotPrepared then 1 else if Phase r = relaySlotBroadcasting then 2 else 3
   | Some _ \<Rightarrow> 3)"

lemma file_step_rank:
  assumes "file_step (map_of d p) (map_of d' p)"
  shows "phase_rank d p \<le> phase_rank d' p"
  using assms by cases (auto simp: phase_rank_def)

lemma Acquire_granted:
  assumes "fst (fst (AcquireBroadcastLease H io action intent d))"
  shows "\<exists>slot. map_of d (slotPath H (StateSlotIdentity intent)) = Some (SlotFile slot) \<and>
    slot_matches slot action intent \<and> Phase slot = relaySlotPrepared \<and>
    map_of (snd (AcquireBroadcastLease H io action intent d)) (slotPath H (StateSlotIdentity intent))
      = Some (SlotFile (slot\<lparr>Phase := relaySlotBroadcasting\<rparr>))"
proof -
  obtain slot where r: "readSlot H (ReadOk io 0) d (StateSlotIdentity intent) = Inr (Some slot)"
    using assms by (auto simp: AcquireBroadcastLease_def split: sum.split_asm option.split_asm if_splits)
  have "slot_matches slot action intent" "Phase slot = relaySlotPrepared"
    and w: "fst (atomicReplace (FirstWrite io) (slotPath H (StateSlotIdentity intent))
              (SlotFile (slot\<lparr>Phase := relaySlotBroadcasting\<rparr>)) d)"
    and s: "snd (AcquireBroadcastLease H io action intent d) = snd (atomicReplace (FirstWrite io)
        (slotPath H (StateSlotIdentity intent)) (SlotFile (slot\<lparr>Phase := relaySlotBroadcasting\<rparr>)) d)"
    using assms r by (auto simp: AcquireBroadcastLease_def Let_def case_prod_beta split: if_splits)
  moreover have "FirstWrite io \<noteq> IoFailBefore" using w by (auto simp: atomicReplace_def)
  ultimately show ?thesis using readSlot_SomeD [OF r] by (simp add: map_of_atomicReplace)
qed

interpretation relay_phases: phase_log phase_rank "relay_next H" "relay_grants H" for H
proof unfold_locales
  fix d c p
  show "phase_rank d p \<le> phase_rank (relay_next H d c) p"
    by (rule file_step_rank [OF relay_file_step])
next
  fix d c p assume "relay_grants H d c = Some p"
  then show "phase_rank d p \<le> 1" and "2 \<le> phase_rank (relay_next H d c) p"
    by (cases c; auto dest!: Acquire_granted simp: phase_rank_def split: if_splits)+
qed

text \<open>What a slot is bound to: the action and the intent that claimed it, and the claim time.\<close>

definition slot_owner :: "relay_file dir \<Rightarrow> string \<Rightarrow> (string \<times> RelayIntent \<times> int) option" where
  "slot_owner d p = (case map_of d p of
     Some (SlotFile r) \<Rightarrow> Some (ActionIdentity r, Intent r, ClaimedUnix r) | _ \<Rightarrow> None)"

definition request_owner :: "relay_file dir \<Rightarrow> string \<Rightarrow> relayRequestRecord option" where
  "request_owner d p = (case map_of d p of Some (RequestFile r) \<Rightarrow> Some r | _ \<Rightarrow> None)"

interpretation slot_bindings: binding_log slot_owner "relay_next H" for H
proof unfold_locales
  fix d p v c
  show "slot_owner d p = Some v \<Longrightarrow> slot_owner (relay_next H d c) p = Some v"
    using relay_file_step [of d p H c] by cases (auto simp: slot_owner_def)
qed

interpretation request_bindings: binding_log request_owner "relay_next H" for H
proof unfold_locales
  fix d p v c
  show "request_owner d p = Some v \<Longrightarrow> request_owner (relay_next H d c) p = Some v"
    using relay_file_step [of d p H c] by cases (auto simp: request_owner_def)
qed

subsection \<open>Spend limits in every sliding window\<close>

text \<open>The sum of a quantity of the intent and claim time over the slot files of a directory.\<close>

definition slot_sum :: "(RelayIntent \<Rightarrow> int \<Rightarrow> nat) \<Rightarrow> relay_file dir \<Rightarrow> nat" where
  "slot_sum g d = (\<Sum>(name, f)\<leftarrow>d. if is_slot_name name
     then (case f of SlotFile r \<Rightarrow> g (Intent r) (ClaimedUnix r) | _ \<Rightarrow> 0) else 0)"

lemma slot_sum_simps [simp]:
  "slot_sum g [] = 0"
  "slot_sum g ((name, f) # d) = (if is_slot_name name
     then (case f of SlotFile r \<Rightarrow> g (Intent r) (ClaimedUnix r) | _ \<Rightarrow> 0) else 0) + slot_sum g d"
  "slot_sum g (d @ e) = slot_sum g d + slot_sum g e"
  by (simp_all add: slot_sum_def)

lemma slot_sum_ReadDir: "slot_sum g (ReadDir d) = slot_sum g d"
  unfolding slot_sum_def by (rule sum_ReadDir)

lemma slot_sum_mono: "(\<And>i c. g i c \<le> h i c) \<Longrightarrow> slot_sum g d \<le> slot_sum h d"
  by (auto simp: slot_sum_def intro!: sum_list_mono split: relay_file.split)

definition actions_since :: "int \<Rightarrow> RelayIntent \<Rightarrow> int \<Rightarrow> nat" where
  "actions_since cutoff i c = (if c < cutoff then 0 else 1)"

definition funding_since :: "int \<Rightarrow> RelayIntent \<Rightarrow> int \<Rightarrow> nat" where
  "funding_since cutoff i c = (if c < cutoff then 0 else unat (FundingNanoTOS i))"

definition for_target :: "string \<Rightarrow> (RelayIntent \<Rightarrow> int \<Rightarrow> nat) \<Rightarrow> RelayIntent \<Rightarrow> int \<Rightarrow> nat" where
  "for_target target g i c = (if TargetObjectID i = target then g i c else 0)"

lemma unat_Suc_u64: "w \<noteq> - 1 \<Longrightarrow> unat (w + 1 :: u64) = unat w + 1"
proof -
  assume "w \<noteq> - 1"
  then have "unat w \<noteq> unat (- 1 :: u64)" by (simp add: word_unat_eq_iff)
  then have "unat w + unat (1 :: u64) < 2 ^ 64"
    using unat_u64_less [of w] unat_minus_one_u64 by simp
  from unat_add_u64 [OF this] show ?thesis by simp
qed

lemma unat_add_guarded: "\<not> a > - 1 - b \<Longrightarrow> unat (a + b :: u64) = unat a + unat b"
proof -
  assume "\<not> a > - 1 - b"
  then have "unat a \<le> unat (- 1 :: u64) - unat b"
    using unat_sub [of b "- 1"] word_order.extremum [of b] by (simp add: not_less word_le_nat_alt)
  then have "unat a + unat b < 2 ^ 64"
    using unat_minus_one_u64 unat_u64_less [of b] by simp
  then show ?thesis by (rule unat_add_u64)
qed

lemma spend_loop_counts:
  assumes "spend_loop ok target cutoff n d c = Inr c'"
  shows "unat (walletActions c') = unat (walletActions c) + slot_sum (actions_since cutoff) d"
    and "unat (walletFunding c') = unat (walletFunding c) + slot_sum (funding_since cutoff) d"
    and "unat (targetActions c') =
      unat (targetActions c) + slot_sum (for_target target (actions_since cutoff)) d"
    and "unat (targetFunding c') =
      unat (targetFunding c) + slot_sum (for_target target (funding_since cutoff)) d"
proof -
  have "unat (walletActions c') = unat (walletActions c) + slot_sum (actions_since cutoff) d \<and>
    unat (walletFunding c') = unat (walletFunding c) + slot_sum (funding_since cutoff) d \<and>
    unat (targetActions c') =
      unat (targetActions c) + slot_sum (for_target target (actions_since cutoff)) d \<and>
    unat (targetFunding c') =
      unat (targetFunding c) + slot_sum (for_target target (funding_since cutoff)) d"
    using assms
  proof (induction ok target cutoff n d c rule: spend_loop.induct)
    case (1 ok target cutoff n c)
    then show ?case by simp
  next
    case (2 ok target cutoff n name f entries c)
    show ?case
    proof (cases "is_slot_name name")
      case False
      then show ?thesis using 2 by simp
    next
      case True
      with 2(5) obtain slot where s: "ok n" "f = SlotFile slot" "relaySlotRecord_valid slot"
        by (auto split: if_splits relay_file.splits)
      show ?thesis
      proof (cases "ClaimedUnix slot < cutoff")
        case old: True
        then show ?thesis using True s 2(5) 2(2) [OF _ _ s(2)]
          by (simp add: actions_since_def funding_since_def for_target_def)
      next
        case False
        let ?f = "FundingNanoTOS (Intent slot)"
        have w: "walletActions c \<noteq> - 1" "\<not> walletFunding c > - 1 - ?f"
          using 2(5) True s False by (auto simp: Let_def split: if_splits)
        show ?thesis
        proof (cases "TargetObjectID (Intent slot) = target")
          case t: True
          have "targetActions c \<noteq> - 1" "\<not> targetFunding c > - 1 - ?f"
            using 2(5) True s False w t by (auto simp: Let_def split: if_splits)
          then show ?thesis using True s False w t 2(5) 2(3) [OF _ _ s(2)]
            by (simp add: Let_def actions_since_def funding_since_def for_target_def
                unat_Suc_u64 unat_add_guarded)
        next
          case o: False
          then show ?thesis using True s False w 2(5) 2(4) [OF _ _ s(2)]
            by (simp add: Let_def actions_since_def funding_since_def for_target_def
                unat_Suc_u64 unat_add_guarded)
        qed
      qed
    qed
  qed
  then show "unat (walletActions c') = unat (walletActions c) + slot_sum (actions_since cutoff) d"
    and "unat (walletFunding c') = unat (walletFunding c) + slot_sum (funding_since cutoff) d"
    and "unat (targetActions c') =
      unat (targetActions c) + slot_sum (for_target target (actions_since cutoff)) d"
    and "unat (targetFunding c') =
      unat (targetFunding c) + slot_sum (for_target target (funding_since cutoff)) d"
    by auto
qed

lemma enforceSpendLimits_ok:
  assumes "enforceSpendLimits io d intent limits now = Inr ()"
    and "permitsSingle limits (FundingNanoTOS intent)"
  defines "cutoff \<equiv> Unix (now - Window limits)"
  shows "slot_sum (actions_since cutoff) d + 1 \<le> unat (MaxActionsPerWallet limits)"
    and "slot_sum (funding_since cutoff) d + unat (FundingNanoTOS intent)
      \<le> unat (MaxFundingPerWalletNanoTOS limits)"
    and "slot_sum (for_target (TargetObjectID intent) (actions_since cutoff)) d + 1
      \<le> unat (MaxActionsPerTarget limits)"
    and "slot_sum (for_target (TargetObjectID intent) (funding_since cutoff)) d
        + unat (FundingNanoTOS intent) \<le> unat (MaxFundingPerTargetNanoTOS limits)"
proof -
  obtain c where c: "spend_loop (\<lambda>n. ReadOk io (3 + n)) (TargetObjectID intent) cutoff 0 (ReadDir d)
      \<lparr>walletActions = 0, walletFunding = 0, targetActions = 0, targetFunding = 0\<rparr> = Inr c"
    and l: "walletActions c < MaxActionsPerWallet limits"
      "walletFunding c \<le> MaxFundingPerWalletNanoTOS limits - FundingNanoTOS intent"
      "targetActions c < MaxActionsPerTarget limits"
      "targetFunding c \<le> MaxFundingPerTargetNanoTOS limits - FundingNanoTOS intent"
    using assms(1)
    by (auto simp: enforceSpendLimits_def cutoff_def Let_def ebind_eq_Inr not_le not_less split: if_splits)
  note n = spend_loop_counts [OF c, simplified slot_sum_ReadDir]
  have s: "unat (MaxFundingPerWalletNanoTOS limits - FundingNanoTOS intent) =
      unat (MaxFundingPerWalletNanoTOS limits) - unat (FundingNanoTOS intent)"
    "unat (FundingNanoTOS intent) \<le> unat (MaxFundingPerWalletNanoTOS limits)"
    "unat (MaxFundingPerTargetNanoTOS limits - FundingNanoTOS intent) =
      unat (MaxFundingPerTargetNanoTOS limits) - unat (FundingNanoTOS intent)"
    "unat (FundingNanoTOS intent) \<le> unat (MaxFundingPerTargetNanoTOS limits)"
    using assms(2) by (simp_all add: permitsSingle_def unat_sub word_le_nat_alt)
  show "slot_sum (actions_since cutoff) d + 1 \<le> unat (MaxActionsPerWallet limits)"
    "slot_sum (funding_since cutoff) d + unat (FundingNanoTOS intent)
      \<le> unat (MaxFundingPerWalletNanoTOS limits)"
    "slot_sum (for_target (TargetObjectID intent) (actions_since cutoff)) d + 1
      \<le> unat (MaxActionsPerTarget limits)"
    "slot_sum (for_target (TargetObjectID intent) (funding_since cutoff)) d
        + unat (FundingNanoTOS intent) \<le> unat (MaxFundingPerTargetNanoTOS limits)"
    using l n s by (simp_all add: word_less_nat_alt word_le_nat_alt)
qed

text \<open>The claims of a window of \<open>W\<close> nanoseconds that starts at second \<open>T\<close>.\<close>

definition in_window :: "int \<Rightarrow> int \<Rightarrow> int \<Rightarrow> bool" where
  "in_window W T c = (T \<le> c \<and> c \<le> T + W div 1000000000)"

definition window_actions :: "int \<Rightarrow> int \<Rightarrow> RelayIntent \<Rightarrow> int \<Rightarrow> nat" where
  "window_actions W T i c = (if in_window W T c then 1 else 0)"

definition window_funding :: "int \<Rightarrow> int \<Rightarrow> RelayIntent \<Rightarrow> int \<Rightarrow> nat" where
  "window_funding W T i c = (if in_window W T c then unat (FundingNanoTOS i) else 0)"

definition limits_hold :: "RelaySpendLimits \<Rightarrow> relay_file dir \<Rightarrow> bool" where
  "limits_hold limits d = (\<forall>T target.
     slot_sum (window_actions (Window limits) T) d \<le> unat (MaxActionsPerWallet limits) \<and>
     slot_sum (window_funding (Window limits) T) d \<le> unat (MaxFundingPerWalletNanoTOS limits) \<and>
     slot_sum (for_target target (window_actions (Window limits) T)) d
       \<le> unat (MaxActionsPerTarget limits) \<and>
     slot_sum (for_target target (window_funding (Window limits) T)) d
       \<le> unat (MaxFundingPerTargetNanoTOS limits))"

lemma limits_hold_frame: "(\<And>g. slot_sum g d' = slot_sum g d) \<Longrightarrow> limits_hold l d' = limits_hold l d"
  by (simp add: limits_hold_def)

lemma is_slot_name_paths [simp]: "is_slot_name (slotPath H i)" "\<not> is_slot_name (requestPath H k)"
  using has_suffix_append [of "''slot-'' @ hex_encode (H i)" "''.json''"]
  by (simp_all add: is_slot_name_def slotPath_def requestPath_def)

lemma slot_sum_new_request:
  "slot_sum g (snd (atomicCreate io (requestPath H k) f d)) = slot_sum g d"
  by (simp add: atomicCreate_def update_new)

lemma slot_sum_new_slot:
  "map_of d (slotPath H i) = None \<Longrightarrow>
   slot_sum g (snd (atomicCreate io (slotPath H i) (SlotFile r) d)) =
     slot_sum g d + (if io = IoFailBefore then 0 else g (Intent r) (ClaimedUnix r))"
  by (simp add: atomicCreate_def update_new)

lemma slot_sum_rephase:
  assumes "map_of d (slotPath H i) = Some (SlotFile r)"
  shows "slot_sum g (snd (atomicReplace io (slotPath H i) (SlotFile (r\<lparr>Phase := ph\<rparr>)) d)) = slot_sum g d"
  unfolding slot_sum_def
  by (simp add: atomicReplace_def sum_update_existing [OF assms])

lemma window_le_since:
  assumes "in_window (Window limits) T (Unix now)"
  shows "window_actions (Window limits) T i c \<le> actions_since (Unix (now - Window limits)) i c"
    and "window_funding (Window limits) T i c \<le> funding_since (Unix (now - Window limits)) i c"
  using Unix_window [of now T "Window limits"] assms
  by (auto simp: window_actions_def window_funding_def actions_since_def funding_since_def in_window_def)

lemma claim_bound: "x' = x \<or> x' = x + y \<Longrightarrow> x \<le> M \<Longrightarrow> x + y \<le> M \<Longrightarrow> x' \<le> (M :: nat)"
  by auto

lemma limits_hold_claim:
  assumes inv: "limits_hold limits d" and ok: "enforceSpendLimits io d intent limits now = Inr ()"
    and p: "permitsSingle limits (FundingNanoTOS intent)"
    and d': "\<And>g. slot_sum g d' = slot_sum g d \<or> slot_sum g d' = slot_sum g d + g intent (Unix now)"
  shows "limits_hold limits d'"
  unfolding limits_hold_def
proof (intro allI)
  fix T target
  let ?W = "Window limits" and ?u = "Unix (now - Window limits)"
  note lim = enforceSpendLimits_ok [OF ok p]
  note old = inv [unfolded limits_hold_def, rule_format, of T target]
  have le: "slot_sum (window_actions ?W T) d \<le> slot_sum (actions_since ?u) d"
      "slot_sum (window_funding ?W T) d \<le> slot_sum (funding_since ?u) d"
      "slot_sum (for_target target (window_actions ?W T)) d \<le> slot_sum (for_target target (actions_since ?u)) d"
      "slot_sum (for_target target (window_funding ?W T)) d \<le> slot_sum (for_target target (funding_since ?u)) d"
    if "in_window ?W T (Unix now)"
    using window_le_since [OF that] by (auto intro!: slot_sum_mono simp: for_target_def)
  have "slot_sum (window_actions ?W T) d + window_actions ?W T intent (Unix now)
      \<le> unat (MaxActionsPerWallet limits)"
    using le(1) lim(1) old by (cases "in_window ?W T (Unix now)") (simp_all add: window_actions_def)
  moreover have "slot_sum (window_funding ?W T) d + window_funding ?W T intent (Unix now)
      \<le> unat (MaxFundingPerWalletNanoTOS limits)"
    using le(2) lim(2) old by (cases "in_window ?W T (Unix now)") (simp_all add: window_funding_def)
  moreover have "slot_sum (for_target target (window_actions ?W T)) d +
      for_target target (window_actions ?W T) intent (Unix now) \<le> unat (MaxActionsPerTarget limits)"
    using le(3) lim(3) old
    by (cases "in_window ?W T (Unix now)"; cases "TargetObjectID intent = target")
      (simp_all add: window_actions_def [of _ _ intent] for_target_def [of _ _ intent])
  moreover have "slot_sum (for_target target (window_funding ?W T)) d +
      for_target target (window_funding ?W T) intent (Unix now) \<le> unat (MaxFundingPerTargetNanoTOS limits)"
    using le(4) lim(4) old
    by (cases "in_window ?W T (Unix now)"; cases "TargetObjectID intent = target")
      (simp_all add: window_funding_def [of _ _ intent] for_target_def [of _ _ intent])
  ultimately show "slot_sum (window_actions ?W T) d' \<le> unat (MaxActionsPerWallet limits) \<and>
     slot_sum (window_funding ?W T) d' \<le> unat (MaxFundingPerWalletNanoTOS limits) \<and>
     slot_sum (for_target target (window_actions ?W T)) d' \<le> unat (MaxActionsPerTarget limits) \<and>
     slot_sum (for_target target (window_funding ?W T)) d'
       \<le> unat (MaxFundingPerTargetNanoTOS limits)"
    using old by (auto intro: claim_bound [OF d'])
qed

lemma Acquire_slot_sum: "slot_sum g (snd (AcquireBroadcastLease H io action intent d)) = slot_sum g d"
proof (cases "\<exists>slot. readSlot H (ReadOk io 0) d (StateSlotIdentity intent) = Inr (Some slot)")
  case True
  then obtain slot where r: "readSlot H (ReadOk io 0) d (StateSlotIdentity intent) = Inr (Some slot)" ..
  then show ?thesis
    using readSlot_SomeD [OF r]
    by (simp add: AcquireBroadcastLease_def Let_def case_prod_beta slot_sum_rephase)
next
  case False
  then show ?thesis by (auto simp: AcquireBroadcastLease_def split: sum.split option.split)
qed

lemma Complete_slot_sum: "slot_sum g (snd (Complete H io action intent d)) = slot_sum g d"
proof (cases "\<exists>slot. readSlot H (ReadOk io 0) d (StateSlotIdentity intent) = Inr (Some slot)")
  case True
  then obtain slot where r: "readSlot H (ReadOk io 0) d (StateSlotIdentity intent) = Inr (Some slot)" ..
  then show ?thesis
    using readSlot_SomeD [OF r]
    by (simp add: Complete_def Let_def case_prod_beta slot_sum_rephase)
next
  case False
  then show ?thesis by (auto simp: Complete_def split: sum.split option.split)
qed

lemma Begin_limits:
  assumes "limits_hold limits d"
  shows "limits_hold limits (snd (Begin H io key action intent limits now d))"
proof (cases rule: Begin_cases [of H io key action intent limits now d])
  case claim
  show ?thesis
  proof (rule limits_hold_claim [OF assms claim(5,3)])
    fix g
    show "slot_sum g (snd (Begin H io key action intent limits now d)) = slot_sum g d \<or>
      slot_sum g (snd (Begin H io key action intent limits now d)) = slot_sum g d + g intent (Unix now)"
      using claim(6) by (auto simp: slot_sum_new_request slot_sum_new_slot [OF claim(4)])
  qed
qed (use assms in \<open>simp_all add: limits_hold_frame [OF slot_sum_new_request]\<close>)

fun call_limits :: "relay_call \<Rightarrow> RelaySpendLimits option" where
  "call_limits (CallBegin io key action intent limits now) = Some limits"
| "call_limits _ = None"

lemma relay_next_limits:
  assumes "limits_hold limits d" and "call_limits c \<in> {None, Some limits}"
  shows "limits_hold limits (relay_next H d c)"
  using assms
  by (cases c) (simp_all add: Begin_limits limits_hold_frame [OF Acquire_slot_sum]
      limits_hold_frame [OF Complete_slot_sum])

lemma relay_run_limits:
  assumes "limits_hold limits d" and "list_all (\<lambda>c. call_limits c \<in> {None, Some limits}) cs"
  shows "limits_hold limits (foldl (relay_next H) d cs)"
  using assms by (induction cs arbitrary: d) (simp_all add: relay_next_limits)

subsection \<open>Successful calls\<close>

lemma file_step_slot:
  assumes "file_step (Some (SlotFile r)) g"
  shows "\<exists>r'. g = Some (SlotFile r') \<and> ActionIdentity r' = ActionIdentity r \<and> Intent r' = Intent r \<and>
    SlotIdentity r' = SlotIdentity r \<and> ClaimedUnix r' = ClaimedUnix r \<and>
    (relaySlotRecord_valid r \<longrightarrow> relaySlotRecord_valid r')"
  using assms by cases (auto simp: relaySlotRecord_valid_def)

lemma run_slot:
  assumes "map_of d p = Some (SlotFile r)"
  shows "\<exists>r'. map_of (foldl (relay_next H) d cs) p = Some (SlotFile r') \<and>
    ActionIdentity r' = ActionIdentity r \<and> Intent r' = Intent r \<and>
    SlotIdentity r' = SlotIdentity r \<and> ClaimedUnix r' = ClaimedUnix r \<and>
    (relaySlotRecord_valid r \<longrightarrow> relaySlotRecord_valid r')"
  using assms
proof (induction cs arbitrary: d r)
  case (Cons c cs)
  obtain r1 where r1: "map_of (relay_next H d c) p = Some (SlotFile r1)"
    "ActionIdentity r1 = ActionIdentity r" "Intent r1 = Intent r" "SlotIdentity r1 = SlotIdentity r"
    "ClaimedUnix r1 = ClaimedUnix r" "relaySlotRecord_valid r \<longrightarrow> relaySlotRecord_valid r1"
    using file_step_slot [of r "map_of (relay_next H d c) p"] relay_file_step [of d p H c] Cons.prems
    by force
  show ?case using Cons.IH [OF r1(1)] r1 by force
qed simp

lemma run_request:
  "map_of d p = Some (RequestFile q) \<Longrightarrow> map_of (foldl (relay_next H) d cs) p = Some (RequestFile q)"
  using request_bindings.bound_run [of d p q H cs]
  by (auto simp: request_owner_def split: option.splits relay_file.splits)

lemma readRequest_SomeD:
  "readRequest H ok d key = Inr (Some q) \<Longrightarrow>
   map_of d (requestPath H key) = Some (RequestFile q) \<and> RequestKey q = key \<and> RequestAction q \<noteq> []"
  by (auto simp: readRequest_def split: if_splits option.splits relay_file.splits)

lemma readRequest_NoneD: "readRequest H ok d key = Inr None \<Longrightarrow> map_of d (requestPath H key) = None"
  by (auto simp: readRequest_def split: if_splits option.splits relay_file.splits)

text \<open>A successful tail of \<^verbatim>\<open>beginLocked\<close> leaves the request key bound to the action.\<close>

lemma bind_request_success:
  assumes "fst (bind_request H io key action slot d) = (complete, hash, None)" and "action \<noteq> []"
  shows "map_of (snd (bind_request H io key action slot d)) (requestPath H key)
      = Some (RequestFile \<lparr>RequestKey = key, RequestAction = action\<rparr>)"
    and "\<And>p. p \<noteq> requestPath H key \<Longrightarrow> map_of (snd (bind_request H io key action slot d)) p = map_of d p"
    and "(complete, hash) = (if Phase slot = relaySlotPrepared then (False, [])
      else if Phase slot = relaySlotBroadcasting then (False, ActionHash (Intent slot))
      else (True, ActionHash (Intent slot)))"
proof -
  let ?q = "\<lparr>RequestKey = key, RequestAction = action\<rparr>"
  let ?c = "atomicCreate (SecondWrite io) (requestPath H key) (RequestFile ?q) d"
  have c: "fst ?c = Some True \<or> (fst ?c = Some False \<and>
      readRequest H (ReadOk io 2) (snd ?c) key = Inr (Some ?q))"
    and ph: "(complete, hash) = (if Phase slot = relaySlotPrepared then (False, [])
      else if Phase slot = relaySlotBroadcasting then (False, ActionHash (Intent slot))
      else (True, ActionHash (Intent slot)))"
    using assms(1) by (auto simp: bind_request_def Let_def case_prod_beta split: if_splits)
  then show "map_of (snd (bind_request H io key action slot d)) (requestPath H key) = Some (RequestFile ?q)"
    using atomicCreate_created [of "SecondWrite io" "requestPath H key" "RequestFile ?q" d]
      readRequest_SomeD [of H "ReadOk io 2" "snd ?c" key ?q] by (auto simp: snd_bind_request)
  show "(complete, hash) = (if Phase slot = relaySlotPrepared then (False, [])
      else if Phase slot = relaySlotBroadcasting then (False, ActionHash (Intent slot))
      else (True, ActionHash (Intent slot)))" by (rule ph)
  show "\<And>p. p \<noteq> requestPath H key \<Longrightarrow> map_of (snd (bind_request H io key action slot d)) p = map_of d p"
    by (simp add: snd_bind_request map_of_atomicCreate)
qed

text \<open>A successful \<^verbatim>\<open>Begin\<close>: the slot and the request key are durably bound.\<close>

lemma Begin_success:
  assumes "fst (Begin H io key action intent limits now d) = (complete, hash, None)"
  shows "\<exists>slot. map_of (snd (Begin H io key action intent limits now d))
        (slotPath H (StateSlotIdentity intent)) = Some (SlotFile slot) \<and>
      slot_matches slot action intent \<and>
      (complete, hash) = (if Phase slot = relaySlotPrepared then (False, [])
        else if Phase slot = relaySlotBroadcasting then (False, ActionHash (Intent slot))
        else (True, ActionHash (Intent slot))) \<and>
      (relaySlotRecord_valid slot \<or> slot = fresh_slot action intent now)"
    and "map_of (snd (Begin H io key action intent limits now d)) (requestPath H key)
      = Some (RequestFile \<lparr>RequestKey = key, RequestAction = action\<rparr>)"
    and "action \<noteq> []" and "RelayIntent_valid intent"
proof -
  have g: "action \<noteq> []" "RelayIntent_valid intent"
    and b: "Begin H io key action intent limits now d = beginLocked H io key action intent limits now d"
    using assms by (auto simp: Begin_def split: if_splits)
  show "action \<noteq> []" "RelayIntent_valid intent" by (fact g)+
  have "\<exists>slot d1. Begin H io key action intent limits now d = bind_request H io key action slot d1 \<and>
      map_of d1 (slotPath H (StateSlotIdentity intent)) = Some (SlotFile slot) \<and>
      slot_matches slot action intent \<and>
      (relaySlotRecord_valid slot \<or> slot = fresh_slot action intent now)"
  proof (cases "readSlot H (ReadOk io 1) d (StateSlotIdentity intent)")
    case (Inl e)
    then show ?thesis using assms b by (auto simp: beginLocked_def split: sum.splits if_splits)
  next
    case (Inr s)
    show ?thesis
    proof (cases s)
      case None
      let ?c = "atomicCreate (FirstWrite io) (slotPath H (StateSlotIdentity intent))
        (SlotFile (fresh_slot action intent now)) d"
      have "fst ?c = Some True" "beginLocked H io key action intent limits now d =
          bind_request H io key action (fresh_slot action intent now) (snd ?c)"
        using assms b Inr None
        by (auto simp: beginLocked_def Let_def case_prod_beta split: sum.splits if_splits)
      then show ?thesis
        using b
        by (intro exI [of _ "fresh_slot action intent now"] exI [of _ "snd ?c"])
          (auto simp: slot_matches_def dest: atomicCreate_created)
    next
      case (Some slot)
      have "slot_matches slot action intent"
        "beginLocked H io key action intent limits now d = bind_request H io key action slot d"
        using assms b Inr Some by (auto simp: beginLocked_def split: sum.splits if_splits)
      then show ?thesis using b Inr Some readSlot_SomeD [of H _ d _ slot] by auto
    qed
  qed
  then obtain slot d1 where e: "Begin H io key action intent limits now d = bind_request H io key action slot d1"
    and s: "map_of d1 (slotPath H (StateSlotIdentity intent)) = Some (SlotFile slot)"
      "slot_matches slot action intent" "relaySlotRecord_valid slot \<or> slot = fresh_slot action intent now"
    by blast
  note r = bind_request_success [OF assms [unfolded e] g(1)]
  show "\<exists>slot. map_of (snd (Begin H io key action intent limits now d))
        (slotPath H (StateSlotIdentity intent)) = Some (SlotFile slot) \<and>
      slot_matches slot action intent \<and>
      (complete, hash) = (if Phase slot = relaySlotPrepared then (False, [])
        else if Phase slot = relaySlotBroadcasting then (False, ActionHash (Intent slot))
        else (True, ActionHash (Intent slot))) \<and>
      (relaySlotRecord_valid slot \<or> slot = fresh_slot action intent now)"
    using s r by (auto simp: e)
  show "map_of (snd (Begin H io key action intent limits now d)) (requestPath H key)
      = Some (RequestFile \<lparr>RequestKey = key, RequestAction = action\<rparr>)"
    using r(1) by (simp add: e)
qed

text \<open>A call for a bound key or slot under another action is refused and changes nothing.\<close>

lemma Begin_other_action:
  assumes "map_of d (requestPath H key) = Some (RequestFile \<lparr>RequestKey = key, RequestAction = action\<rparr>)"
    and "action' \<noteq> action"
  shows "snd (snd (fst (Begin H io key action' intent limits now d))) \<noteq> None"
    and "snd (Begin H io key action' intent limits now d) = d"
  using assms by (auto simp: Begin_def beginLocked_def readRequest_def)

lemma Begin_other_slot_owner:
  assumes "map_of d (slotPath H (StateSlotIdentity intent)) = Some (SlotFile slot)"
    and "\<not> (action' = ActionIdentity slot \<and> intent = Intent slot)"
  shows "snd (snd (fst (Begin H io key action' intent limits now d))) \<noteq> None"
    and "snd (Begin H io key action' intent limits now d) = d"
proof -
  have "readSlot H ok d (StateSlotIdentity intent) = Inr None \<Longrightarrow> False" for ok
    using readSlot_NoneD [of H ok d] assms(1) by simp
  moreover have "readSlot H ok d (StateSlotIdentity intent) = Inr (Some r) \<Longrightarrow> r = slot" for ok r
    using readSlot_SomeD [of H ok d _ r] assms(1) by auto
  moreover have "\<not> slot_matches slot action' intent" using assms(2) by (auto simp: slot_matches_def)
  ultimately have "snd (snd (fst (Begin H io key action' intent limits now d))) \<noteq> None \<and>
      snd (Begin H io key action' intent limits now d) = d"
    by (auto simp: Begin_def beginLocked_def split: sum.split option.split)
  then show "snd (snd (fst (Begin H io key action' intent limits now d))) \<noteq> None"
    and "snd (Begin H io key action' intent limits now d) = d" by auto
qed

subsection \<open>A sample journal\<close>

definition relay_sample_intent :: RelayIntent where
  "relay_sample_intent = \<lparr>ActionHash = ''h'', Destination = ''d'', QueryID = 7, BodyHash = ''b'',
     StateInitHash = ''i'', FundingNanoTOS = 5, StateSlotIdentity = ''s'', TargetObjectID = ''t''\<rparr>"

definition relay_sample_limits :: RelaySpendLimits where
  "relay_sample_limits = \<lparr>Window = Minute, MaxActionsPerTarget = 2, MaxFundingPerTargetNanoTOS = 10,
     MaxActionsPerWallet = 2, MaxFundingPerWalletNanoTOS = 10\<rparr>"

definition relay_sample_begin :: "string \<Rightarrow> relay_call" where
  "relay_sample_begin key = CallBegin io_ok key ''a'' relay_sample_intent relay_sample_limits 5000000000"

definition relay_sample_slot :: relaySlotRecord where
  "relay_sample_slot = \<lparr>SlotIdentity = ''s'', ActionIdentity = ''a'', Intent = relay_sample_intent,
     Phase = relaySlotPrepared, ClaimedUnix = 5\<rparr>"

definition relay_sample_dir :: "relay_file dir" where
  "relay_sample_dir = [(slotPath str_bytes ''s'', SlotFile relay_sample_slot),
     (requestPath str_bytes ''k'', RequestFile \<lparr>RequestKey = ''k'', RequestAction = ''a''\<rparr>)]"

lemmas relay_sample_defs = relay_sample_intent_def relay_sample_limits_def relay_sample_begin_def relay_sample_slot_def
  relay_sample_dir_def

lemma relay_sample_permits [simp]:
  "RelayIntent_valid relay_sample_intent" "permitsSingle relay_sample_limits (FundingNanoTOS relay_sample_intent)"
  "relaySlotRecord_valid relay_sample_slot" "StateSlotIdentity relay_sample_intent = ''s''"
  "(5000000000 :: int) \<noteq> zero_time" "Unix 5000000000 = 5"
  by (simp_all add: relay_sample_defs RelayIntent_valid_def permitsSingle_def RelaySpendLimits_valid_def
      relaySlotRecord_valid_def Minute_def Unix_def zero_time_def word_le_nat_alt word_less_nat_alt)

lemma relay_sample_enforce: "enforceSpendLimits io_ok [] relay_sample_intent relay_sample_limits 5000000000 = Inr ()"
  by (simp add: enforceSpendLimits_def io_ok_def ReadDir_def)
    (simp add: relay_sample_defs word_le_nat_alt word_less_nat_alt)

lemma relay_sample_Begin:
  "Begin str_bytes io_ok ''k'' ''a'' relay_sample_intent relay_sample_limits 5000000000 [] =
     ((False, [], None), relay_sample_dir)"
  using relay_sample_enforce
  by (simp add: Begin_def beginLocked_def bind_request_def readRequest_def readSlot_def io_ok_def
      atomicCreate_def) (simp add: relay_sample_defs)

subsection \<open>Properties\<close>

text \<open>C1: The relayer broadcasts each state slot at most once: in every run of journal calls, from
  any directory, with any arguments, clocks, read failures and write faults (a crash after a write
  included), no slot file grants \<^verbatim>\<open>AcquireBroadcastLease\<close> twice.\<close>

theorem relay_broadcast_at_most_once:
  "distinct (granted (relay_next H) (relay_grants H) d calls)"
  by (rule relay_phases.granted_once)

text \<open>A broadcast lease is only granted to the exact action and intent that claimed the slot, and
  the slot is durably in its broadcasting phase when the caller learns of the lease.\<close>

theorem lease_only_for_claimed_intent:
  assumes "AcquireBroadcastLease H io action intent d = ((True, complete, err), d')"
  shows "err = None \<and> readSlot H True d (StateSlotIdentity intent) \<noteq> Inr None \<and>
    (\<exists>slot. readSlot H True d' (StateSlotIdentity intent) = Inr (Some slot) \<and>
      ActionIdentity slot = action \<and> Intent slot = intent \<and> Phase slot = relaySlotBroadcasting)"
proof -
  obtain slot where r: "readSlot H (ReadOk io 0) d (StateSlotIdentity intent) = Inr (Some slot)"
    using assms by (auto simp: AcquireBroadcastLease_def split: sum.split_asm option.split_asm if_splits)
  note f = readSlot_SomeD [OF r]
  obtain slot' where s: "map_of d (slotPath H (StateSlotIdentity intent)) = Some (SlotFile slot')"
    "slot_matches slot' action intent"
    "map_of d' (slotPath H (StateSlotIdentity intent))
      = Some (SlotFile (slot'\<lparr>Phase := relaySlotBroadcasting\<rparr>))"
    using Acquire_granted [of H io action intent d] assms by auto
  have "err = None" using assms r
    by (auto simp: AcquireBroadcastLease_def Let_def case_prod_beta split: if_splits)
  then show ?thesis
    using f s by (auto simp: readSlot_def slot_matches_def relaySlotRecord_valid_def)
qed

theorem lease_only_for_claimed_intent_witness:
  "\<exists>slot. readSlot str_bytes True (snd (AcquireBroadcastLease str_bytes io_ok ''a'' relay_sample_intent
     relay_sample_dir)) ''s'' = Inr (Some slot) \<and> Phase slot = relaySlotBroadcasting"
proof -
  have "AcquireBroadcastLease str_bytes io_ok ''a'' relay_sample_intent relay_sample_dir = ((True, False, None),
      snd (AcquireBroadcastLease str_bytes io_ok ''a'' relay_sample_intent relay_sample_dir))"
    by (simp add: AcquireBroadcastLease_def io_ok_def readSlot_def relay_sample_dir_def atomicReplace_def
        slot_matches_def) (simp add: relay_sample_defs)
  from lease_only_for_claimed_intent [OF this] show ?thesis by auto
qed

text \<open>C2: The relay's fee spending is bounded in every sliding window: after any run from an empty
  journal whose claims all use the same limits, whatever the clock did and whichever writes failed,
  the slots claimed in any window of the configured length number at most the wallet limit and are
  funded with at most the wallet's maximum, and the same holds for every single target object.\<close>

theorem relay_limits_in_every_window:
  assumes "list_all (\<lambda>c. call_limits c \<in> {None, Some limits}) calls"
  shows "limits_hold limits (foldl (relay_next H) [] calls)"
  by (rule relay_run_limits [OF _ assms]) (simp add: limits_hold_def)

theorem relay_limits_in_every_window_witness:
  "limits_hold relay_sample_limits (foldl (relay_next str_bytes) [] [relay_sample_begin ''k''])"
  using relay_limits_in_every_window [of relay_sample_limits "[relay_sample_begin ''k'']" str_bytes]
  by (simp add: relay_sample_begin_def)

text \<open>C30: A successful \<^verbatim>\<open>Begin\<close> binds its request key and its state slot for good: after any further
  calls, a \<^verbatim>\<open>Begin\<close> that reuses the key for another action, or the slot for another action or another
  intent, reports an error and changes no file.\<close>

theorem relay_bindings_are_final:
  assumes "fst (Begin H io key action intent limits now d) = (complete, hash, None)"
    and "d' = foldl (relay_next H) (snd (Begin H io key action intent limits now d)) calls"
    and "action' \<noteq> action \<and> (key' = key \<or> StateSlotIdentity intent' = StateSlotIdentity intent) \<or>
         intent' \<noteq> intent \<and> StateSlotIdentity intent' = StateSlotIdentity intent"
  shows "snd (snd (fst (Begin H io' key' action' intent' limits' now' d'))) \<noteq> None \<and>
    snd (Begin H io' key' action' intent' limits' now' d') = d'"
proof -
  obtain slot where "map_of (snd (Begin H io key action intent limits now d))
      (slotPath H (StateSlotIdentity intent)) = Some (SlotFile slot)" "slot_matches slot action intent"
    using Begin_success(1) [OF assms(1)] by blast
  then obtain slot' where s: "map_of d' (slotPath H (StateSlotIdentity intent)) = Some (SlotFile slot')"
    "ActionIdentity slot' = action" "Intent slot' = intent"
    using run_slot [of _ _ slot H calls] assms(2) by (force simp: slot_matches_def)
  have q: "map_of d' (requestPath H key) = Some (RequestFile \<lparr>RequestKey = key, RequestAction = action\<rparr>)"
    using run_request [OF Begin_success(2) [OF assms(1)]] assms(2) by simp
  consider "action' \<noteq> action" "key' = key"
    | "StateSlotIdentity intent' = StateSlotIdentity intent" "\<not> (action' = action \<and> intent' = intent)"
    using assms(3) by blast
  then show ?thesis
  proof cases
    case 1
    then show ?thesis using Begin_other_action [OF q 1(1)] by simp
  next
    case 2
    then show ?thesis
      using Begin_other_slot_owner [of d' H intent' slot' action'] s by simp
  qed
qed

theorem relay_bindings_are_final_witness:
  "snd (snd (fst (Begin str_bytes io_ok ''k'' ''other'' relay_sample_intent relay_sample_limits 9000000000
     relay_sample_dir))) \<noteq> None"
  using relay_bindings_are_final [of str_bytes io_ok "''k''" "''a''" relay_sample_intent relay_sample_limits
      5000000000 "[]" False "[]" relay_sample_dir "[]" "''other''" "''k''" relay_sample_intent]
  by (simp add: relay_sample_Begin)

text \<open>A prepared claim is always recoverable: after a successful \<^verbatim>\<open>Begin\<close> that reports an
  unbroadcast slot with a positive clock, a fault-free \<^verbatim>\<open>AcquireBroadcastLease\<close> for the same action
  and intent acquires the lease, and a fault-free \<^verbatim>\<open>Complete\<close> after it succeeds.\<close>

theorem prepared_claim_can_be_broadcast:
  assumes "Begin H io key action intent limits now d = ((False, [], None), d1)" and "Unix now > 0"
  shows "\<exists>d2 d3. AcquireBroadcastLease H io_ok action intent d1 = ((True, False, None), d2) \<and>
    Complete H io_ok action intent d2 = (None, d3) \<and>
    Lookup H io_ok d3 key action intent = (True, True, ActionHash intent, None)"
proof -
  let ?p = "slotPath H (StateSlotIdentity intent)"
  obtain slot where s: "map_of d1 ?p = Some (SlotFile slot)" "slot_matches slot action intent"
    "(False, []) = (if Phase slot = relaySlotPrepared then (False, [])
        else if Phase slot = relaySlotBroadcasting then (False, ActionHash (Intent slot))
        else (True, ActionHash (Intent slot)))"
    "relaySlotRecord_valid slot \<or> slot = fresh_slot action intent now"
    using Begin_success(1) [of H io key action intent limits now d False "[]"] assms(1) by auto
  have g: "action \<noteq> []" "RelayIntent_valid intent" "key \<noteq> []"
    using assms(1) by (auto simp: Begin_def split: if_splits)
  have q: "map_of d1 (requestPath H key) = Some (RequestFile \<lparr>RequestKey = key, RequestAction = action\<rparr>)"
    using Begin_success(2) [of H io key action intent limits now d False "[]"] assms(1) by simp
  have v: "relaySlotRecord_valid slot"
    using s(4) assms(2) g by (auto simp: relaySlotRecord_valid_def RelayIntent_valid_def)
  have ph: "Phase slot = relaySlotPrepared"
    using s(2,3) g by (auto simp: slot_matches_def RelayIntent_valid_def split: if_splits)
  define b c where "b = slot\<lparr>Phase := relaySlotBroadcasting\<rparr>" and "c = slot\<lparr>Phase := relaySlotComplete\<rparr>"
  have vb: "relaySlotRecord_valid b" "relaySlotRecord_valid c"
    using v by (auto simp: b_def c_def relaySlotRecord_valid_def)
  let ?d2 = "AList.update ?p (SlotFile b) d1" and ?d3 = "AList.update ?p (SlotFile c) (AList.update ?p (SlotFile b) d1)"
  have "AcquireBroadcastLease H io_ok action intent d1 = ((True, False, None), ?d2)"
    using s v ph g by (simp add: AcquireBroadcastLease_def io_ok_def readSlot_def atomicReplace_def
        slot_matches_def b_def)
  moreover have "Complete H io_ok action intent ?d2 = (None, ?d3)"
    using s vb g by (simp add: Complete_def io_ok_def readSlot_def atomicReplace_def update_conv'
        slot_matches_def) (simp add: b_def c_def)
  moreover have "Lookup H io_ok ?d3 key action intent = (True, True, ActionHash intent, None)"
    using s vb g q by (simp add: Lookup_def io_ok_def readSlot_def readRequest_def update_conv'
        slot_matches_def) (simp add: c_def)
  ultimately show ?thesis by blast
qed

theorem prepared_claim_can_be_broadcast_witness:
  "\<exists>d2. AcquireBroadcastLease str_bytes io_ok ''a'' relay_sample_intent relay_sample_dir = ((True, False, None), d2)"
  using prepared_claim_can_be_broadcast [OF relay_sample_Begin] by auto

end
