(* ===== verification/Budget_Journal.thy ===== *)
theory Budget_Journal
  imports Durable_Dir
begin

text \<open>
  The buyer's budget journal, \<^verbatim>\<open>pkg/buyersdk/journal.go\<close>: a purchase identity claims budget once,
  moves through the phases prepared, broadcasting and complete, and is charged against a limit on the
  number and the total amount of purchases of an asset in a sliding window. As in the relay journal
  the file-name hash \<open>H\<close> is a parameter and every system call has an explicit outcome.
\<close>

subsection \<open>Amounts and records\<close>

definition positiveAtomic :: "string \<Rightarrow> int option" where
  "positiveAtomic v =
     (if v = [] \<or> hd v = CHR ''0'' \<or> trim_space v \<noteq> v then None
      else case SetString10 v of
        None \<Rightarrow> None
      | Some n \<Rightarrow> if n \<le> 0 \<or> n \<ge> 2 ^ 120 \<or> format_int n \<noteq> v then None else Some n)"

record BudgetLimits =
  Window :: int
  MaxPurchases :: u64
  MaxPerPurchaseAtomic :: string
  MaxTotalAtomic :: string

record fundingIntent =
  Identity :: string
  NetworkID :: string
  EscrowAddress :: string
  QuoteCommitment :: string
  AssetIdentity :: string
  BuyerWallet :: string
  AmountAtomic :: string
  QueryID :: u64

definition budgetPrepared :: string where "budgetPrepared = ''prepared''"
definition budgetBroadcasting :: string where "budgetBroadcasting = ''broadcasting''"
definition budgetComplete :: string where "budgetComplete = ''complete''"

record budgetRecord =
  Intent :: fundingIntent
  Phase :: string
  ClaimedUnix :: int

record budgetRequest =
  RequestKey :: string
  RequestIdentity :: string

definition fundingIntent_valid :: "fundingIntent \<Rightarrow> bool" where
  "fundingIntent_valid i = (Identity i \<noteq> [] \<and> NetworkID i \<noteq> [] \<and> EscrowAddress i \<noteq> [] \<and>
     QuoteCommitment i \<noteq> [] \<and> AssetIdentity i \<noteq> [] \<and> BuyerWallet i \<noteq> [] \<and>
     QueryID i \<noteq> 0 \<and> positiveAtomic (AmountAtomic i) \<noteq> None)"

definition permits :: "BudgetLimits \<Rightarrow> string \<Rightarrow> bool" where
  "permits l amount =
     (Window l \<ge> Minute \<and> Window l \<le> 31 * 24 * 60 * Minute \<and> MaxPurchases l > 0 \<and>
      (case (positiveAtomic amount, positiveAtomic (MaxPerPurchaseAtomic l),
             positiveAtomic (MaxTotalAtomic l)) of
         (Some value, Some per, Some tot) \<Rightarrow> value \<le> per \<and> value \<le> tot
       | _ \<Rightarrow> False))"

datatype budget_file =
    RequestFile budgetRequest
  | PurchaseFile budgetRecord
  | JunkFile

datatype budget_error =
    InvalidClaim | LockFailed | BadRequest | KeyReused | BadRecord | RecordMissing
  | IdentityConflict | ClaimFailed | WriteFailed | ListFailed | BudgetExceeded
  | LeaseMismatch | CompletionMismatch | NoLease

subsection \<open>Reading\<close>

definition recordPath :: "(string \<Rightarrow> bytes) \<Rightarrow> string \<Rightarrow> string" where
  "recordPath H identity = ''purchase-'' @ hex_encode (H identity) @ ''.json''"

definition requestPath :: "(string \<Rightarrow> bytes) \<Rightarrow> string \<Rightarrow> string" where
  "requestPath H key = ''request-'' @ hex_encode (H key) @ ''.json''"

definition budgetRecord_valid :: "budgetRecord \<Rightarrow> bool" where
  "budgetRecord_valid r = (fundingIntent_valid (Intent r) \<and> ClaimedUnix r > 0 \<and>
     (Phase r = budgetPrepared \<or> Phase r = budgetBroadcasting \<or> Phase r = budgetComplete))"

text \<open>\<^verbatim>\<open>readRecordPath\<close> on the decoded content of a file.\<close>

definition readRecordFile :: "bool \<Rightarrow> budget_file \<Rightarrow> budget_error + budgetRecord" where
  "readRecordFile ok f =
     (case f of
        PurchaseFile r \<Rightarrow> if \<not> ok \<or> \<not> budgetRecord_valid r then Inl BadRecord else Inr r
      | _ \<Rightarrow> Inl BadRecord)"

definition readRecord ::
  "(string \<Rightarrow> bytes) \<Rightarrow> bool \<Rightarrow> budget_file dir \<Rightarrow> string \<Rightarrow> budget_error + budgetRecord option" where
  "readRecord H ok d identity =
     (if \<not> ok then Inl BadRecord
      else case map_of d (recordPath H identity) of
        None \<Rightarrow> Inr None
      | Some f \<Rightarrow> ebind (readRecordFile ok f) (\<lambda>r. Inr (Some r)))"

definition readRequest ::
  "(string \<Rightarrow> bytes) \<Rightarrow> bool \<Rightarrow> budget_file dir \<Rightarrow> string \<Rightarrow> budget_error + budgetRequest option" where
  "readRequest H ok d key =
     (if \<not> ok then Inl BadRequest
      else case map_of d (requestPath H key) of
        None \<Rightarrow> Inr None
      | Some (RequestFile q) \<Rightarrow>
          if RequestKey q \<noteq> key \<or> RequestIdentity q = [] then Inl BadRequest else Inr (Some q)
      | Some _ \<Rightarrow> Inl BadRequest)"

subsection \<open>The budget\<close>

definition is_purchase_name :: "string \<Rightarrow> bool" where
  "is_purchase_name name = (has_prefix name ''purchase-'' \<and> has_suffix name ''.json'')"

text \<open>The loop of \<^verbatim>\<open>enforce\<close>: the purchases counted and their total amount.\<close>

fun budget_loop ::
  "(nat \<Rightarrow> bool) \<Rightarrow> string \<Rightarrow> int \<Rightarrow> nat \<Rightarrow> budget_file dir \<Rightarrow> u64 \<Rightarrow> int \<Rightarrow> budget_error + u64 \<times> int" where
  "budget_loop ok asset cutoff n [] cnt tot = Inr (cnt, tot)"
| "budget_loop ok asset cutoff n ((name, f) # entries) cnt tot =
     (if \<not> is_purchase_name name then budget_loop ok asset cutoff n entries cnt tot
      else ebind (readRecordFile (ok n) f) (\<lambda>r.
        if ClaimedUnix r < cutoff \<or> AssetIdentity (Intent r) \<noteq> asset
        then budget_loop ok asset cutoff (n + 1) entries cnt tot
        else budget_loop ok asset cutoff (n + 1) entries (cnt + 1)
          (tot + (case positiveAtomic (AmountAtomic (Intent r)) of None \<Rightarrow> 0 | Some v \<Rightarrow> v))))"

definition enforce ::
  "op_io \<Rightarrow> budget_file dir \<Rightarrow> BudgetLimits \<Rightarrow> fundingIntent \<Rightarrow> int \<Rightarrow> budget_error + unit" where
  "enforce io d limits intent now =
     (if \<not> ReadDirOk io then Inl ListFailed
      else let cutoff = Unix (now - Window limits) in
        ebind (budget_loop (\<lambda>n. ReadOk io (3 + n)) (AssetIdentity intent) cutoff 0 (ReadDir d) 0 0)
          (\<lambda>(cnt, tot).
            case (positiveAtomic (MaxTotalAtomic limits), positiveAtomic (AmountAtomic intent)) of
              (Some maximum, Some amount) \<Rightarrow>
                if cnt \<ge> MaxPurchases limits \<or> tot + amount > maximum then Inl BudgetExceeded
                else Inr ()
            | _ \<Rightarrow> Inl BudgetExceeded))"

subsection \<open>Claiming, leasing and completing\<close>

definition bind_key ::
  "(string \<Rightarrow> bytes) \<Rightarrow> op_io \<Rightarrow> string \<Rightarrow> budgetRecord \<Rightarrow> budget_file dir
   \<Rightarrow> (string \<times> budget_error option) \<times> budget_file dir" where
  "bind_key H io requestKey r d =
     (let request = \<lparr>RequestKey = requestKey, RequestIdentity = Identity (Intent r)\<rparr>;
          (created, d') = atomicCreate (SecondWrite io) (requestPath H requestKey) (RequestFile request) d
      in if created = None then (([], Some WriteFailed), d')
         else if created = Some False \<and> readRequest H (ReadOk io 2) d' requestKey \<noteq> Inr (Some request)
           then (([], Some KeyReused), d')
         else ((Phase r, None), d'))"

definition begin_budget ::
  "(string \<Rightarrow> bytes) \<Rightarrow> op_io \<Rightarrow> string \<Rightarrow> fundingIntent \<Rightarrow> BudgetLimits \<Rightarrow> int \<Rightarrow> budget_file dir
   \<Rightarrow> (string \<times> budget_error option) \<times> budget_file dir" where
  "begin_budget H io requestKey intent limits now d =
     (if requestKey = [] \<or> \<not> fundingIntent_valid intent \<or> \<not> permits limits (AmountAtomic intent) \<or>
         now = zero_time then (([], Some InvalidClaim), d)
      else if \<not> LockOk io then (([], Some LockFailed), d)
      else case readRequest H (ReadOk io 0) d requestKey of
        Inl e \<Rightarrow> (([], Some e), d)
      | Inr request \<Rightarrow>
          if (case request of None \<Rightarrow> False | Some q \<Rightarrow> RequestIdentity q \<noteq> Identity intent)
          then (([], Some KeyReused), d)
          else case readRecord H (ReadOk io 1) d (Identity intent) of
            Inl e \<Rightarrow> (([], Some e), d)
          | Inr found \<Rightarrow>
              if request \<noteq> None \<and> found = None then (([], Some RecordMissing), d)
              else case found of
                Some r \<Rightarrow>
                  if Intent r \<noteq> intent then (([], Some IdentityConflict), d)
                  else bind_key H io requestKey r d
              | None \<Rightarrow>
                  (case enforce io d limits intent now of
                     Inl e \<Rightarrow> (([], Some e), d)
                   | Inr _ \<Rightarrow>
                       let r = \<lparr>Intent = intent, Phase = budgetPrepared, ClaimedUnix = Unix now\<rparr>;
                           (created, d') = atomicCreate (FirstWrite io)
                                             (recordPath H (Identity intent)) (PurchaseFile r) d
                       in if created \<noteq> Some True then (([], Some ClaimFailed), d')
                          else bind_key H io requestKey r d'))"

definition acquire ::
  "(string \<Rightarrow> bytes) \<Rightarrow> op_io \<Rightarrow> fundingIntent \<Rightarrow> budget_file dir
   \<Rightarrow> (bool \<times> string \<times> budget_error option) \<times> budget_file dir" where
  "acquire H io intent d =
     (if \<not> LockOk io then ((False, [], Some LockFailed), d)
      else case readRecord H (ReadOk io 0) d (Identity intent) of
        Inr (Some r) \<Rightarrow>
          if Intent r \<noteq> intent then ((False, [], Some LeaseMismatch), d)
          else if Phase r = budgetPrepared then
            (let (ok, d') = atomicReplace (FirstWrite io) (recordPath H (Identity intent))
                              (PurchaseFile (r\<lparr>Phase := budgetBroadcasting\<rparr>)) d
             in if \<not> ok then ((False, Phase r, Some WriteFailed), d')
                else ((True, budgetBroadcasting, None), d'))
          else ((False, Phase r, None), d)
      | _ \<Rightarrow> ((False, [], Some LeaseMismatch), d))"

definition complete ::
  "(string \<Rightarrow> bytes) \<Rightarrow> op_io \<Rightarrow> fundingIntent \<Rightarrow> budget_file dir
   \<Rightarrow> budget_error option \<times> budget_file dir" where
  "complete H io intent d =
     (if \<not> LockOk io then (Some LockFailed, d)
      else case readRecord H (ReadOk io 0) d (Identity intent) of
        Inr (Some r) \<Rightarrow>
          if Intent r \<noteq> intent then (Some CompletionMismatch, d)
          else if Phase r = budgetComplete then (None, d)
          else if Phase r \<noteq> budgetBroadcasting then (Some NoLease, d)
          else let (ok, d') = atomicReplace (FirstWrite io) (recordPath H (Identity intent))
                                (PurchaseFile (r\<lparr>Phase := budgetComplete\<rparr>)) d
               in (if ok then None else Some WriteFailed, d')
      | _ \<Rightarrow> (Some CompletionMismatch, d))"

subsection \<open>Amounts\<close>

text \<open>An amount has exactly one accepted spelling: the canonical decimal of a positive number below
  \<open>2 ^ 120\<close>.\<close>

lemma positiveAtomic_iff:
  "positiveAtomic v = Some n \<longleftrightarrow>
     canonical_dec v \<and> v \<noteq> ''0'' \<and> n = int (dec_value v) \<and> dec_value v < 2 ^ 120"
proof
  assume "positiveAtomic v = Some n"
  then have g: "v \<noteq> []" "hd v \<noteq> CHR ''0''" "SetString10 v = Some n" "0 < n" "n < 2 ^ 120" "format_int n = v"
    by (auto simp: positiveAtomic_def split: if_splits option.splits)
  then have v: "v = dec_string (nat n)" by (simp add: format_int_def)
  then have c: "canonical_dec v" by (simp add: canonical_dec_string)
  have "dec_value v = nat n" using v by simp
  then show "canonical_dec v \<and> v \<noteq> ''0'' \<and> n = int (dec_value v) \<and> dec_value v < 2 ^ 120"
    using c g by auto
next
  assume r: "canonical_dec v \<and> v \<noteq> ''0'' \<and> n = int (dec_value v) \<and> dec_value v < 2 ^ 120"
  then have d: "list_all is_dec_digit v" "v \<noteq> []" "hd v \<noteq> CHR ''0''"
    by (auto simp: canonical_dec_def)
  then have "is_dec_digit (hd v)" by (cases v) auto
  then have "hd v \<noteq> CHR ''-''" "hd v \<noteq> CHR ''+''" by (auto simp: is_dec_digit_def)
  then have "SetString10 v = Some n" using d r by (simp add: SetString10_def)
  moreover have "0 < dec_value v" using r dec_value_pos by blast
  moreover have "format_int n = v" using r dec_string_dec_value by (simp add: format_int_def)
  moreover have "n < 2 ^ 120" using r by (metis of_nat_less_iff of_nat_numeral of_nat_power)
  ultimately show "positiveAtomic v = Some n"
    using d r trim_space_digits by (simp add: positiveAtomic_def)
qed

lemma positiveAtomic_pos: "positiveAtomic v = Some n \<Longrightarrow> 0 < n"
  by (auto simp: positiveAtomic_def split: if_splits option.splits)

subsection \<open>One file at a time\<close>

inductive purchase_step :: "budget_file option \<Rightarrow> budget_file option \<Rightarrow> bool" where
  keep: "purchase_step f f"
| new_request: "purchase_step None (Some (RequestFile q))"
| new_purchase: "Phase r = budgetPrepared \<Longrightarrow> purchase_step None (Some (PurchaseFile r))"
| lease: "Phase r = budgetPrepared \<Longrightarrow>
    purchase_step (Some (PurchaseFile r)) (Some (PurchaseFile (r\<lparr>Phase := budgetBroadcasting\<rparr>)))"
| finish: "Phase r = budgetBroadcasting \<Longrightarrow>
    purchase_step (Some (PurchaseFile r)) (Some (PurchaseFile (r\<lparr>Phase := budgetComplete\<rparr>)))"

inductive_simps purchase_step_None: "purchase_step None g"

lemma purchase_step_simps [simp]:
  "purchase_step f f"
  "purchase_step None (Some (RequestFile q))"
  "purchase_step None (Some (PurchaseFile r)) = (Phase r = budgetPrepared)"
  "Phase r = budgetPrepared \<Longrightarrow>
     purchase_step (Some (PurchaseFile r)) (Some (PurchaseFile (r\<lparr>Phase := budgetBroadcasting\<rparr>)))"
  "Phase r = budgetBroadcasting \<Longrightarrow>
     purchase_step (Some (PurchaseFile r)) (Some (PurchaseFile (r\<lparr>Phase := budgetComplete\<rparr>)))"
  by (auto simp: purchase_step_None intro: purchase_step.intros)

datatype budget_call =
    CallBegin op_io string fundingIntent BudgetLimits int
  | CallAcquire op_io fundingIntent
  | CallComplete op_io fundingIntent

fun budget_next :: "(string \<Rightarrow> bytes) \<Rightarrow> budget_file dir \<Rightarrow> budget_call \<Rightarrow> budget_file dir" where
  "budget_next H d (CallBegin io key intent limits now) = snd (begin_budget H io key intent limits now d)"
| "budget_next H d (CallAcquire io intent) = snd (acquire H io intent d)"
| "budget_next H d (CallComplete io intent) = snd (complete H io intent d)"

fun budget_grants :: "(string \<Rightarrow> bytes) \<Rightarrow> budget_file dir \<Rightarrow> budget_call \<Rightarrow> string option" where
  "budget_grants H d (CallAcquire io intent) =
     (if fst (fst (acquire H io intent d)) then Some (recordPath H (Identity intent)) else None)"
| "budget_grants H d _ = None"

lemma budget_paths_differ [simp]:
  "recordPath H a \<noteq> requestPath H' b" "requestPath H' b \<noteq> recordPath H a"
  by (simp_all add: recordPath_def requestPath_def)

lemma budget_phases_differ [simp]:
  "budgetPrepared \<noteq> budgetBroadcasting" "budgetBroadcasting \<noteq> budgetPrepared"
  "budgetPrepared \<noteq> budgetComplete" "budgetComplete \<noteq> budgetPrepared"
  "budgetBroadcasting \<noteq> budgetComplete" "budgetComplete \<noteq> budgetBroadcasting"
  by (simp_all add: budgetPrepared_def budgetBroadcasting_def budgetComplete_def)

lemma readRecord_SomeD:
  "readRecord H ok d identity = Inr (Some r) \<Longrightarrow>
   map_of d (recordPath H identity) = Some (PurchaseFile r) \<and> budgetRecord_valid r"
  by (auto simp: readRecord_def readRecordFile_def ebind_eq_Inr
      split: if_splits option.splits budget_file.splits)

lemma readRecord_NoneD: "readRecord H ok d identity = Inr None \<Longrightarrow> map_of d (recordPath H identity) = None"
  by (auto simp: readRecord_def ebind_eq_Inr split: if_splits option.splits)

lemma snd_bind_key:
  "snd (bind_key H io key r d) = snd (atomicCreate (SecondWrite io) (requestPath H key)
     (RequestFile \<lparr>RequestKey = key, RequestIdentity = Identity (Intent r)\<rparr>) d)"
  by (simp add: bind_key_def Let_def split: prod.splits)

abbreviation fresh_purchase :: "fundingIntent \<Rightarrow> int \<Rightarrow> budgetRecord" where
  "fresh_purchase intent now \<equiv> \<lparr>Intent = intent, Phase = budgetPrepared, ClaimedUnix = Unix now\<rparr>"

lemma begin_budget_cases:
  obtains (same) "snd (begin_budget H io key intent limits now d) = d"
  | (again) "snd (begin_budget H io key intent limits now d) =
         snd (atomicCreate (SecondWrite io) (requestPath H key)
           (RequestFile \<lparr>RequestKey = key, RequestIdentity = Identity intent\<rparr>) d)"
  | (claim) "fundingIntent_valid intent" "permits limits (AmountAtomic intent)"
      "map_of d (recordPath H (Identity intent)) = None" "enforce io d limits intent now = Inr ()"
      "snd (begin_budget H io key intent limits now d) \<in>
        {snd (atomicCreate (FirstWrite io) (recordPath H (Identity intent))
          (PurchaseFile (fresh_purchase intent now)) d),
         snd (atomicCreate (SecondWrite io) (requestPath H key)
          (RequestFile \<lparr>RequestKey = key, RequestIdentity = Identity intent\<rparr>)
          (snd (atomicCreate (FirstWrite io) (recordPath H (Identity intent))
            (PurchaseFile (fresh_purchase intent now)) d)))}"
proof (cases "readRecord H (ReadOk io 1) d (Identity intent) = Inr None \<and>
    enforce io d limits intent now = Inr ()")
  case True
  note n = readRecord_NoneD [OF conjunct1 [OF True]]
  show thesis
  proof (cases "snd (begin_budget H io key intent limits now d) = d")
    case False
    then have "fundingIntent_valid intent \<and> permits limits (AmountAtomic intent)"
      by (auto simp: begin_budget_def split: if_splits)
    moreover have "snd (begin_budget H io key intent limits now d) \<in>
        {snd (atomicCreate (FirstWrite io) (recordPath H (Identity intent))
          (PurchaseFile (fresh_purchase intent now)) d),
         snd (atomicCreate (SecondWrite io) (requestPath H key)
          (RequestFile \<lparr>RequestKey = key, RequestIdentity = Identity intent\<rparr>)
          (snd (atomicCreate (FirstWrite io) (recordPath H (Identity intent))
            (PurchaseFile (fresh_purchase intent now)) d)))}"
      using True False
      by (simp add: begin_budget_def Let_def case_prod_beta snd_bind_key
          split: if_split_asm sum.split_asm)
    ultimately show thesis using True n claim by blast
  qed (rule same)
next
  case False
  have "snd (begin_budget H io key intent limits now d) = d \<or>
      snd (begin_budget H io key intent limits now d) =
         snd (atomicCreate (SecondWrite io) (requestPath H key)
           (RequestFile \<lparr>RequestKey = key, RequestIdentity = Identity intent\<rparr>) d)"
    using False
    by (auto simp: begin_budget_def snd_bind_key split: sum.split option.split)
  then show thesis using same again by blast
qed

lemma begin_purchase_step:
  "purchase_step (map_of d p) (map_of (snd (begin_budget H io key intent limits now d)) p)"
proof (cases rule: begin_budget_cases [of H io key intent limits now d])
  case claim
  have "purchase_step (map_of d p) (map_of d' p)" if
    "d' \<in> {snd (atomicCreate (FirstWrite io) (recordPath H (Identity intent))
          (PurchaseFile (fresh_purchase intent now)) d),
         snd (atomicCreate (SecondWrite io) (requestPath H key)
          (RequestFile \<lparr>RequestKey = key, RequestIdentity = Identity intent\<rparr>)
          (snd (atomicCreate (FirstWrite io) (recordPath H (Identity intent))
            (PurchaseFile (fresh_purchase intent now)) d)))}" for d'
    using that claim(3) by (auto simp: map_of_atomicCreate)
  from this [OF claim(5)] show ?thesis .
qed (auto simp: map_of_atomicCreate)

lemma acquire_purchase_step:
  "purchase_step (map_of d p) (map_of (snd (acquire H io intent d)) p)"
proof (cases "\<exists>r. readRecord H (ReadOk io 0) d (Identity intent) = Inr (Some r)")
  case True
  then obtain r where r: "readRecord H (ReadOk io 0) d (Identity intent) = Inr (Some r)" ..
  with readRecord_SomeD have "map_of d (recordPath H (Identity intent)) = Some (PurchaseFile r)" by blast
  then show ?thesis
    using r by (auto simp: acquire_def Let_def case_prod_beta map_of_atomicReplace)
next
  case False
  then show ?thesis by (auto simp: acquire_def split: sum.split option.split)
qed

lemma complete_purchase_step:
  "purchase_step (map_of d p) (map_of (snd (complete H io intent d)) p)"
proof (cases "\<exists>r. readRecord H (ReadOk io 0) d (Identity intent) = Inr (Some r)")
  case True
  then obtain r where r: "readRecord H (ReadOk io 0) d (Identity intent) = Inr (Some r)" ..
  with readRecord_SomeD have "map_of d (recordPath H (Identity intent)) = Some (PurchaseFile r)" by blast
  then show ?thesis
    using r by (auto simp: complete_def Let_def case_prod_beta map_of_atomicReplace)
next
  case False
  then show ?thesis by (auto simp: complete_def split: sum.split option.split)
qed

lemma budget_purchase_step: "purchase_step (map_of d p) (map_of (budget_next H d c) p)"
  by (cases c) (simp_all add: begin_purchase_step acquire_purchase_step complete_purchase_step)

definition budget_rank :: "budget_file dir \<Rightarrow> string \<Rightarrow> nat" where
  "budget_rank d p = (case map_of d p of
     None \<Rightarrow> 0
   | Some (PurchaseFile r) \<Rightarrow>
       if Phase r = budgetPrepared then 1 else if Phase r = budgetBroadcasting then 2 else 3
   | Some _ \<Rightarrow> 3)"

lemma acquire_granted:
  assumes "fst (fst (acquire H io intent d))"
  shows "\<exists>r. map_of d (recordPath H (Identity intent)) = Some (PurchaseFile r) \<and> budgetRecord_valid r \<and>
    Intent r = intent \<and> Phase r = budgetPrepared \<and>
    map_of (snd (acquire H io intent d)) (recordPath H (Identity intent))
      = Some (PurchaseFile (r\<lparr>Phase := budgetBroadcasting\<rparr>))"
proof -
  obtain r where r: "readRecord H (ReadOk io 0) d (Identity intent) = Inr (Some r)"
    using assms by (auto simp: acquire_def split: sum.split_asm option.split_asm if_splits)
  have "Intent r = intent" "Phase r = budgetPrepared"
    and w: "fst (atomicReplace (FirstWrite io) (recordPath H (Identity intent))
              (PurchaseFile (r\<lparr>Phase := budgetBroadcasting\<rparr>)) d)"
    and s: "snd (acquire H io intent d) = snd (atomicReplace (FirstWrite io)
        (recordPath H (Identity intent)) (PurchaseFile (r\<lparr>Phase := budgetBroadcasting\<rparr>)) d)"
    using assms r by (auto simp: acquire_def Let_def case_prod_beta split: if_splits)
  moreover have "FirstWrite io \<noteq> IoFailBefore" using w by (auto simp: atomicReplace_def)
  ultimately show ?thesis using readRecord_SomeD [OF r] by (simp add: map_of_atomicReplace)
qed

interpretation budget_phases: phase_log budget_rank "budget_next H" "budget_grants H" for H
proof unfold_locales
  fix d c p
  show "budget_rank d p \<le> budget_rank (budget_next H d c) p"
    using budget_purchase_step [of d p H c] by cases (auto simp: budget_rank_def)
next
  fix d c p assume "budget_grants H d c = Some p"
  then show "budget_rank d p \<le> 1" and "2 \<le> budget_rank (budget_next H d c) p"
    by (cases c; auto dest!: acquire_granted simp: budget_rank_def split: if_splits)+
qed

text \<open>What a purchase file is bound to: its intent and claim time.\<close>

definition purchase_owner :: "budget_file dir \<Rightarrow> string \<Rightarrow> (fundingIntent \<times> int) option" where
  "purchase_owner d p = (case map_of d p of
     Some (PurchaseFile r) \<Rightarrow> Some (Intent r, ClaimedUnix r) | _ \<Rightarrow> None)"

definition key_owner :: "budget_file dir \<Rightarrow> string \<Rightarrow> budgetRequest option" where
  "key_owner d p = (case map_of d p of Some (RequestFile q) \<Rightarrow> Some q | _ \<Rightarrow> None)"

interpretation purchase_bindings: binding_log purchase_owner "budget_next H" for H
proof unfold_locales
  fix d p v c
  show "purchase_owner d p = Some v \<Longrightarrow> purchase_owner (budget_next H d c) p = Some v"
    using budget_purchase_step [of d p H c] by cases (auto simp: purchase_owner_def)
qed

interpretation key_bindings: binding_log key_owner "budget_next H" for H
proof unfold_locales
  fix d p v c
  show "key_owner d p = Some v \<Longrightarrow> key_owner (budget_next H d c) p = Some v"
    using budget_purchase_step [of d p H c] by cases (auto simp: key_owner_def)
qed

subsection \<open>The budget in every sliding window\<close>

definition purchase_sum :: "(fundingIntent \<Rightarrow> int \<Rightarrow> nat) \<Rightarrow> budget_file dir \<Rightarrow> nat" where
  "purchase_sum g d = (\<Sum>(name, f)\<leftarrow>d. if is_purchase_name name
     then (case f of PurchaseFile r \<Rightarrow> g (Intent r) (ClaimedUnix r) | _ \<Rightarrow> 0) else 0)"

lemma purchase_sum_simps [simp]:
  "purchase_sum g [] = 0"
  "purchase_sum g ((name, f) # d) = (if is_purchase_name name
     then (case f of PurchaseFile r \<Rightarrow> g (Intent r) (ClaimedUnix r) | _ \<Rightarrow> 0) else 0) + purchase_sum g d"
  "purchase_sum g (d @ e) = purchase_sum g d + purchase_sum g e"
  by (simp_all add: purchase_sum_def)

lemma purchase_sum_ReadDir: "purchase_sum g (ReadDir d) = purchase_sum g d"
  unfolding purchase_sum_def by (rule sum_ReadDir)

lemma purchase_sum_mono: "(\<And>i c. g i c \<le> h i c) \<Longrightarrow> purchase_sum g d \<le> purchase_sum h d"
  by (auto simp: purchase_sum_def intro!: sum_list_mono split: budget_file.split)

definition amount_of :: "fundingIntent \<Rightarrow> nat" where
  "amount_of i = (case positiveAtomic (AmountAtomic i) of None \<Rightarrow> 0 | Some v \<Rightarrow> nat v)"

definition purchases_since :: "string \<Rightarrow> int \<Rightarrow> fundingIntent \<Rightarrow> int \<Rightarrow> nat" where
  "purchases_since asset cutoff i c = (if c < cutoff \<or> AssetIdentity i \<noteq> asset then 0 else 1)"

definition spent_since :: "string \<Rightarrow> int \<Rightarrow> fundingIntent \<Rightarrow> int \<Rightarrow> nat" where
  "spent_since asset cutoff i c = (if c < cutoff \<or> AssetIdentity i \<noteq> asset then 0 else amount_of i)"

lemma amount_of_int:
  "(case positiveAtomic (AmountAtomic i) of None \<Rightarrow> 0 | Some v \<Rightarrow> v) = int (amount_of i)"
  using positiveAtomic_pos by (fastforce simp: amount_of_def split: option.splits)

lemma budget_loop_counts:
  assumes "budget_loop ok asset cutoff n d cnt tot = Inr (cnt', tot')"
  shows "cnt' = cnt + of_nat (purchase_sum (purchases_since asset cutoff) d) \<and>
    tot' = tot + int (purchase_sum (spent_since asset cutoff) d)"
  using assms
proof (induction ok asset cutoff n d cnt tot rule: budget_loop.induct)
  case (1 ok asset cutoff n cnt tot)
  then show ?case by simp
next
  case (2 ok asset cutoff n name f entries cnt tot)
  show ?case
  proof (cases "is_purchase_name name")
    case False
    then show ?thesis using 2 by simp
  next
    case True
    with 2(4) obtain r where r: "readRecordFile (ok n) f = Inr r" by (auto simp: ebind_eq_Inr)
    then have f: "f = PurchaseFile r"
      by (auto simp: readRecordFile_def split: budget_file.splits if_splits)
    show ?thesis
    proof (cases "ClaimedUnix r < cutoff \<or> AssetIdentity (Intent r) \<noteq> asset")
      case old: True
      then show ?thesis using True r f 2(4) 2(2) [OF _ old]
        by (simp add: purchases_since_def spent_since_def)
    next
      case new: False
      then show ?thesis using True r f 2(4) 2(3) [OF _ new]
        by (simp add: purchases_since_def spent_since_def amount_of_int)
    qed
  qed
qed

definition purchase_count :: "budget_file dir \<Rightarrow> nat" where
  "purchase_count d = purchase_sum (\<lambda>i c. 1) d"

lemma enforce_ok:
  assumes "enforce io d limits intent now = Inr ()" and "purchase_count d < 2 ^ 64"
    and "positiveAtomic (MaxTotalAtomic limits) = Some maximum"
  defines "cutoff \<equiv> Unix (now - Window limits)"
  shows "purchase_sum (purchases_since (AssetIdentity intent) cutoff) d + 1 \<le> unat (MaxPurchases limits)"
    and "int (purchase_sum (spent_since (AssetIdentity intent) cutoff) d + amount_of intent) \<le> maximum"
proof -
  let ?n = "purchase_sum (purchases_since (AssetIdentity intent) cutoff) d"
  obtain cnt tot amount where l: "budget_loop (\<lambda>n. ReadOk io (3 + n)) (AssetIdentity intent) cutoff 0
      (ReadDir d) 0 0 = Inr (cnt, tot)"
    and g: "cnt < MaxPurchases limits" "positiveAtomic (AmountAtomic intent) = Some amount"
      "tot + amount \<le> maximum"
    using assms(1,3)
    by (auto simp: enforce_def cutoff_def Let_def ebind_eq_Inr not_le not_less split: if_splits option.splits)
  note c = budget_loop_counts [OF l, simplified purchase_sum_ReadDir]
  have "?n \<le> purchase_count d"
    unfolding purchase_count_def by (rule purchase_sum_mono) (simp add: purchases_since_def)
  then have "?n < 2 ^ 64" using assms(2) by simp
  from unat_of_nat_u64 [OF this] show "?n + 1 \<le> unat (MaxPurchases limits)"
    using c g(1) by (simp add: word_less_nat_alt)
  have "amount = int (amount_of intent)" using g(2) amount_of_int [of intent] by simp
  then show "int (purchase_sum (spent_since (AssetIdentity intent) cutoff) d + amount_of intent) \<le> maximum"
    using c g(3) by simp
qed

definition in_budget_window :: "int \<Rightarrow> int \<Rightarrow> int \<Rightarrow> bool" where
  "in_budget_window W T c = (T \<le> c \<and> c \<le> T + W div 1000000000)"

definition window_purchases :: "string \<Rightarrow> int \<Rightarrow> int \<Rightarrow> fundingIntent \<Rightarrow> int \<Rightarrow> nat" where
  "window_purchases asset W T i c =
     (if in_budget_window W T c \<and> AssetIdentity i = asset then 1 else 0)"

definition window_spent :: "string \<Rightarrow> int \<Rightarrow> int \<Rightarrow> fundingIntent \<Rightarrow> int \<Rightarrow> nat" where
  "window_spent asset W T i c =
     (if in_budget_window W T c \<and> AssetIdentity i = asset then amount_of i else 0)"

definition budget_holds :: "BudgetLimits \<Rightarrow> budget_file dir \<Rightarrow> bool" where
  "budget_holds limits d = (\<forall>T asset.
     purchase_sum (window_purchases asset (Window limits) T) d \<le> unat (MaxPurchases limits) \<and>
     int (purchase_sum (window_spent asset (Window limits) T) d)
       \<le> (case positiveAtomic (MaxTotalAtomic limits) of None \<Rightarrow> 0 | Some v \<Rightarrow> v))"

lemma is_purchase_name_paths [simp]:
  "is_purchase_name (recordPath H i)" "\<not> is_purchase_name (requestPath H k)"
  using has_suffix_append [of "''purchase-'' @ hex_encode (H i)" "''.json''"]
  by (simp_all add: is_purchase_name_def recordPath_def requestPath_def)

lemma purchase_sum_new_request:
  "purchase_sum g (snd (atomicCreate io (requestPath H k) f d)) = purchase_sum g d"
  by (simp add: atomicCreate_def update_new)

lemma purchase_sum_new:
  "map_of d (recordPath H i) = None \<Longrightarrow>
   purchase_sum g (snd (atomicCreate io (recordPath H i) (PurchaseFile r) d)) =
     purchase_sum g d + (if io = IoFailBefore then 0 else g (Intent r) (ClaimedUnix r))"
  by (simp add: atomicCreate_def update_new)

lemma purchase_sum_rephase:
  assumes "map_of d (recordPath H i) = Some (PurchaseFile r)"
  shows "purchase_sum g (snd (atomicReplace io (recordPath H i) (PurchaseFile (r\<lparr>Phase := ph\<rparr>)) d))
    = purchase_sum g d"
  unfolding purchase_sum_def by (simp add: atomicReplace_def sum_update_existing [OF assms])

lemma acquire_purchase_sum: "purchase_sum g (snd (acquire H io intent d)) = purchase_sum g d"
proof (cases "\<exists>r. readRecord H (ReadOk io 0) d (Identity intent) = Inr (Some r)")
  case True
  then obtain r where r: "readRecord H (ReadOk io 0) d (Identity intent) = Inr (Some r)" ..
  then show ?thesis
    using readRecord_SomeD [OF r] by (simp add: acquire_def Let_def case_prod_beta purchase_sum_rephase)
next
  case False
  then show ?thesis by (auto simp: acquire_def split: sum.split option.split)
qed

lemma complete_purchase_sum: "purchase_sum g (snd (complete H io intent d)) = purchase_sum g d"
proof (cases "\<exists>r. readRecord H (ReadOk io 0) d (Identity intent) = Inr (Some r)")
  case True
  then obtain r where r: "readRecord H (ReadOk io 0) d (Identity intent) = Inr (Some r)" ..
  then show ?thesis
    using readRecord_SomeD [OF r] by (simp add: complete_def Let_def case_prod_beta purchase_sum_rephase)
next
  case False
  then show ?thesis by (auto simp: complete_def split: sum.split option.split)
qed

lemma begin_purchase_sum:
  "purchase_sum g (snd (begin_budget H io key intent limits now d)) = purchase_sum g d \<or>
   (fundingIntent_valid intent \<and> permits limits (AmountAtomic intent) \<and>
    enforce io d limits intent now = Inr () \<and>
    purchase_sum g (snd (begin_budget H io key intent limits now d)) =
      purchase_sum g d + g intent (Unix now))"
proof (cases rule: begin_budget_cases [of H io key intent limits now d])
  case claim
  then show ?thesis by (auto simp: purchase_sum_new_request purchase_sum_new [OF claim(3)])
qed (simp_all add: purchase_sum_new_request)

lemma budget_count_next: "purchase_count (budget_next H d c) \<le> purchase_count d + 1"
proof (cases c)
  case (CallBegin io key intent limits now)
  then show ?thesis
    using begin_purchase_sum [of "\<lambda>i c. 1" H io key intent limits now d]
    by (auto simp: purchase_count_def)
qed (simp_all add: purchase_count_def acquire_purchase_sum complete_purchase_sum)

lemma window_le_since_budget:
  assumes "in_budget_window (Window limits) T (Unix now)"
  shows "window_purchases asset (Window limits) T i c
      \<le> purchases_since asset (Unix (now - Window limits)) i c"
    and "window_spent asset (Window limits) T i c \<le> spent_since asset (Unix (now - Window limits)) i c"
  using Unix_window [of now T "Window limits"] assms
  by (auto simp: window_purchases_def window_spent_def purchases_since_def spent_since_def
      in_budget_window_def)

lemma budget_holds_begin:
  assumes inv: "budget_holds limits d" and n: "purchase_count d < 2 ^ 64"
  shows "budget_holds limits (snd (begin_budget H io key intent limits now d))"
  unfolding budget_holds_def
proof (intro allI)
  fix T asset
  let ?d = "snd (begin_budget H io key intent limits now d)" and ?W = "Window limits"
  let ?p = "window_purchases asset ?W T" and ?s = "window_spent asset ?W T"
  note old = inv [unfolded budget_holds_def, rule_format, of asset T]
  have "purchase_sum ?p ?d \<le> unat (MaxPurchases limits)"
  proof -
    have "purchase_sum ?p d + ?p intent (Unix now) \<le> unat (MaxPurchases limits)"
      if ok: "enforce io d limits intent now = Inr ()" and p: "permits limits (AmountAtomic intent)"
    proof (cases "in_budget_window ?W T (Unix now) \<and> AssetIdentity intent = asset")
      case True
      obtain mx where "positiveAtomic (MaxTotalAtomic limits) = Some mx"
        using p by (auto simp: permits_def split: option.splits)
      note lim = enforce_ok(1) [OF ok n this]
      have "purchase_sum ?p d \<le> purchase_sum (purchases_since asset (Unix (now - ?W))) d"
        using True by (intro purchase_sum_mono window_le_since_budget) simp
      then show ?thesis using lim True by (simp add: window_purchases_def [of _ _ _ intent])
    next
      case False
      then show ?thesis using old by (auto simp: window_purchases_def [of _ _ _ intent])
    qed
    then show ?thesis using begin_purchase_sum [of ?p H io key intent limits now d] old by auto
  qed
  moreover have "int (purchase_sum ?s ?d)
      \<le> (case positiveAtomic (MaxTotalAtomic limits) of None \<Rightarrow> 0 | Some v \<Rightarrow> v)"
  proof -
    have "int (purchase_sum ?s d + ?s intent (Unix now))
        \<le> (case positiveAtomic (MaxTotalAtomic limits) of None \<Rightarrow> 0 | Some v \<Rightarrow> v)"
      if ok: "enforce io d limits intent now = Inr ()" and p: "permits limits (AmountAtomic intent)"
    proof (cases "in_budget_window ?W T (Unix now) \<and> AssetIdentity intent = asset")
      case True
      obtain mx where m: "positiveAtomic (MaxTotalAtomic limits) = Some mx"
        using p by (auto simp: permits_def split: option.splits)
      note lim = enforce_ok(2) [OF ok n m]
      have "purchase_sum ?s d \<le> purchase_sum (spent_since asset (Unix (now - ?W))) d"
        using True by (intro purchase_sum_mono window_le_since_budget) simp
      then show ?thesis using lim True m by (simp add: window_spent_def [of _ _ _ intent])
    next
      case False
      then show ?thesis using old by (auto simp: window_spent_def [of _ _ _ intent])
    qed
    then show ?thesis using begin_purchase_sum [of ?s H io key intent limits now d] old by auto
  qed
  ultimately show "purchase_sum ?p ?d \<le> unat (MaxPurchases limits) \<and>
     int (purchase_sum ?s ?d)
       \<le> (case positiveAtomic (MaxTotalAtomic limits) of None \<Rightarrow> 0 | Some v \<Rightarrow> v)" ..
qed

fun budget_call_limits :: "budget_call \<Rightarrow> BudgetLimits option" where
  "budget_call_limits (CallBegin io key intent limits now) = Some limits"
| "budget_call_limits _ = None"

lemma budget_run_holds:
  assumes "budget_holds limits d" "list_all (\<lambda>c. budget_call_limits c \<in> {None, Some limits}) cs"
    and "purchase_count d + length cs < 2 ^ 64"
  shows "budget_holds limits (foldl (budget_next H) d cs)"
  using assms
proof (induction cs arbitrary: d)
  case (Cons c cs)
  have "budget_holds limits (budget_next H d c)"
    using Cons.prems budget_holds_begin [OF Cons.prems(1)]
    by (cases c) (simp_all add: budget_holds_def acquire_purchase_sum complete_purchase_sum)
  moreover have "purchase_count (budget_next H d c) + length cs < 2 ^ 64"
    using budget_count_next [of H d c] Cons.prems(3) by simp
  ultimately show ?case using Cons.IH Cons.prems(2) by simp
qed simp

subsection \<open>Successful claims\<close>

lemma run_purchase:
  "map_of d p = Some (PurchaseFile r) \<Longrightarrow>
   \<exists>r'. map_of (foldl (budget_next H) d cs) p = Some (PurchaseFile r') \<and> Intent r' = Intent r"
  using purchase_bindings.bound_run [of d p "(Intent r, ClaimedUnix r)" H cs]
  by (auto simp: purchase_owner_def split: option.splits budget_file.splits)

lemma run_key:
  "map_of d p = Some (RequestFile q) \<Longrightarrow> map_of (foldl (budget_next H) d cs) p = Some (RequestFile q)"
  using key_bindings.bound_run [of d p q H cs]
  by (auto simp: key_owner_def split: option.splits budget_file.splits)

lemma readRequest_SomeD_budget:
  "readRequest H ok d key = Inr (Some q) \<Longrightarrow> map_of d (requestPath H key) = Some (RequestFile q)"
  by (auto simp: readRequest_def split: if_splits option.splits budget_file.splits)

lemma bind_key_success:
  assumes "fst (bind_key H io key r d) = (ph, None)"
  shows "map_of (snd (bind_key H io key r d)) (requestPath H key)
      = Some (RequestFile \<lparr>RequestKey = key, RequestIdentity = Identity (Intent r)\<rparr>)"
    and "map_of (snd (bind_key H io key r d)) (recordPath H i) = map_of d (recordPath H i)"
    and "ph = Phase r"
proof -
  let ?q = "\<lparr>RequestKey = key, RequestIdentity = Identity (Intent r)\<rparr>"
  let ?c = "atomicCreate (SecondWrite io) (requestPath H key) (RequestFile ?q) d"
  have c: "fst ?c = Some True \<or> (fst ?c = Some False \<and>
      readRequest H (ReadOk io 2) (snd ?c) key = Inr (Some ?q))" and ph: "ph = Phase r"
    using assms by (auto simp: bind_key_def Let_def case_prod_beta split: if_splits)
  then show "map_of (snd (bind_key H io key r d)) (requestPath H key) = Some (RequestFile ?q)"
    using atomicCreate_created [of "SecondWrite io" "requestPath H key" "RequestFile ?q" d]
      readRequest_SomeD_budget [of H "ReadOk io 2" "snd ?c" key ?q] by (auto simp: snd_bind_key)
  show "ph = Phase r" by (rule ph)
  show "map_of (snd (bind_key H io key r d)) (recordPath H i) = map_of d (recordPath H i)"
    by (simp add: snd_bind_key map_of_atomicCreate)
qed

lemma begin_budget_success:
  assumes "fst (begin_budget H io key intent limits now d) = (ph, None)"
  shows "\<exists>r. map_of (snd (begin_budget H io key intent limits now d)) (recordPath H (Identity intent))
        = Some (PurchaseFile r) \<and> Intent r = intent \<and> Phase r = ph"
    and "map_of (snd (begin_budget H io key intent limits now d)) (requestPath H key)
      = Some (RequestFile \<lparr>RequestKey = key, RequestIdentity = Identity intent\<rparr>)"
proof -
  have "\<exists>r d1. begin_budget H io key intent limits now d = bind_key H io key r d1 \<and>
      map_of d1 (recordPath H (Identity intent)) = Some (PurchaseFile r) \<and> Intent r = intent"
  proof (cases "readRecord H (ReadOk io 1) d (Identity intent)")
    case (Inl e)
    then show ?thesis using assms by (auto simp: begin_budget_def split: sum.splits if_splits)
  next
    case (Inr s)
    show ?thesis
    proof (cases s)
      case None
      let ?c = "atomicCreate (FirstWrite io) (recordPath H (Identity intent))
        (PurchaseFile (fresh_purchase intent now)) d"
      have "fst ?c = Some True" "begin_budget H io key intent limits now d =
          bind_key H io key (fresh_purchase intent now) (snd ?c)"
        using assms Inr None
        by (auto simp: begin_budget_def Let_def case_prod_beta split: sum.splits if_splits)
      then show ?thesis
        by (intro exI [of _ "fresh_purchase intent now"] exI [of _ "snd ?c"])
          (auto dest: atomicCreate_created)
    next
      case (Some r)
      have "Intent r = intent" "begin_budget H io key intent limits now d = bind_key H io key r d"
        using assms Inr Some by (auto simp: begin_budget_def split: sum.splits if_splits)
      then show ?thesis using Inr Some readRecord_SomeD [of H _ d _ r] by auto
    qed
  qed
  then obtain r d1 where e: "begin_budget H io key intent limits now d = bind_key H io key r d1"
    and r: "map_of d1 (recordPath H (Identity intent)) = Some (PurchaseFile r)" "Intent r = intent"
    by blast
  note b = bind_key_success [OF assms [unfolded e]]
  show "\<exists>r. map_of (snd (begin_budget H io key intent limits now d)) (recordPath H (Identity intent))
        = Some (PurchaseFile r) \<and> Intent r = intent \<and> Phase r = ph"
    using r b(2,3) by (auto simp: e)
  show "map_of (snd (begin_budget H io key intent limits now d)) (requestPath H key)
      = Some (RequestFile \<lparr>RequestKey = key, RequestIdentity = Identity intent\<rparr>)"
    using b(1) r(2) by (simp add: e)
qed

lemma begin_existing_charges_nothing:
  assumes "map_of d (recordPath H (Identity intent)) \<noteq> None"
  shows "purchase_sum g (snd (begin_budget H io key intent limits now d)) = purchase_sum g d"
  by (cases rule: begin_budget_cases [of H io key intent limits now d])
    (use assms in \<open>auto simp: purchase_sum_new_request\<close>)

lemma begin_conflict:
  assumes "map_of d (recordPath H (Identity intent)) = Some (PurchaseFile r)" and "Intent r \<noteq> intent"
  shows "snd (fst (begin_budget H io key intent limits now d)) \<noteq> None"
proof -
  have "readRecord H ok d (Identity intent) = Inr None \<Longrightarrow> False" for ok
    using readRecord_NoneD [of H ok d] assms(1) by simp
  moreover have "readRecord H ok d (Identity intent) = Inr (Some s) \<Longrightarrow> s = r" for ok s
    using readRecord_SomeD [of H ok d _ s] assms(1) by auto
  ultimately show ?thesis
    using assms(2) by (auto simp: begin_budget_def split: sum.split option.split)
qed

subsection \<open>A sample budget\<close>

definition budget_sample_intent :: fundingIntent where
  "budget_sample_intent = \<lparr>Identity = ''p'', NetworkID = ''n'', EscrowAddress = ''e'',
     QuoteCommitment = ''q'', AssetIdentity = ''a'', BuyerWallet = ''w'', AmountAtomic = ''7'',
     QueryID = 3\<rparr>"

definition budget_sample_limits :: BudgetLimits where
  "budget_sample_limits = \<lparr>Window = Minute, MaxPurchases = 2, MaxPerPurchaseAtomic = ''9'',
     MaxTotalAtomic = ''9''\<rparr>"

definition budget_sample_dir :: "budget_file dir" where
  "budget_sample_dir = [(recordPath str_bytes ''p'', PurchaseFile \<lparr>Intent = budget_sample_intent,
       Phase = budgetPrepared, ClaimedUnix = 5\<rparr>),
     (requestPath str_bytes ''k'', RequestFile \<lparr>RequestKey = ''k'', RequestIdentity = ''p''\<rparr>)]"

lemma sample_amounts_ok: "positiveAtomic ''7'' = Some 7" "positiveAtomic ''9'' = Some 9"
  by (simp_all add: positiveAtomic_iff canonical_dec_def is_dec_digit_def dec_value_def)

lemma budget_sample_permits [simp]:
  "fundingIntent_valid budget_sample_intent"
  "permits budget_sample_limits (AmountAtomic budget_sample_intent)"
  "Identity budget_sample_intent = ''p''" "(5000000000 :: int) \<noteq> zero_time" "Unix 5000000000 = 5"
  by (simp_all add: budget_sample_intent_def budget_sample_limits_def fundingIntent_valid_def permits_def
      sample_amounts_ok Minute_def Unix_def zero_time_def word_less_nat_alt)

lemma budget_sample_enforce:
  "enforce io_ok [] budget_sample_limits budget_sample_intent 5000000000 = Inr ()"
  by (simp add: enforce_def io_ok_def ReadDir_def budget_sample_intent_def budget_sample_limits_def
      sample_amounts_ok word_le_nat_alt)

lemma budget_sample_begin:
  "begin_budget str_bytes io_ok ''k'' budget_sample_intent budget_sample_limits 5000000000 [] =
     ((budgetPrepared, None), budget_sample_dir)"
  using budget_sample_enforce
  by (simp add: begin_budget_def bind_key_def readRequest_def readRecord_def io_ok_def atomicCreate_def)
    (simp add: budget_sample_dir_def)

subsection \<open>Properties\<close>

text \<open>C25: A purchase is funded at most once: in every run of budget-journal calls, from any directory
  and with any arguments, clocks and faults, no purchase record hands out the funding lease twice.\<close>

theorem funding_lease_at_most_once:
  "distinct (granted (budget_next H) (budget_grants H) d calls)"
  by (rule budget_phases.granted_once)

text \<open>C24: The buyer's budget holds in every sliding window: after any run from an empty journal whose
  claims all use the same limits, for every asset and every window of the configured length, the
  purchases claimed in it number at most \<^verbatim>\<open>MaxPurchases\<close> and their amounts add up to at most
  \<^verbatim>\<open>MaxTotalAtomic\<close>. The run is shorter than \<open>2 ^ 64\<close> calls, the range of the counter.\<close>

theorem budget_in_every_window:
  assumes "list_all (\<lambda>c. budget_call_limits c \<in> {None, Some limits}) calls" and "length calls < 2 ^ 64"
    and "positiveAtomic (MaxTotalAtomic limits) = Some maximum"
  shows "purchase_sum (window_purchases asset (Window limits) T) (foldl (budget_next H) [] calls)
      \<le> unat (MaxPurchases limits) \<and>
    int (purchase_sum (window_spent asset (Window limits) T) (foldl (budget_next H) [] calls)) \<le> maximum"
proof -
  have "budget_holds limits []"
    using positiveAtomic_pos [OF assms(3)] assms(3) by (simp add: budget_holds_def)
  then have "budget_holds limits (foldl (budget_next H) [] calls)"
    using assms(1,2) by (intro budget_run_holds) (simp_all add: purchase_count_def)
  then show ?thesis using assms(3) by (simp add: budget_holds_def)
qed

theorem budget_in_every_window_witness:
  "purchase_sum (window_purchases ''a'' Minute 5) budget_sample_dir \<le> 2 \<and>
   int (purchase_sum (window_spent ''a'' Minute 5) budget_sample_dir) \<le> 9"
  using budget_in_every_window [of budget_sample_limits
      "[CallBegin io_ok ''k'' budget_sample_intent budget_sample_limits 5000000000]" 9 "''a''" 5 str_bytes]
  by (simp add: budget_sample_begin) (simp add: budget_sample_limits_def sample_amounts_ok)



end
