(* ===== verification/Native_Policy.thy ===== *)
theory Native_Policy
  imports Go_Prelude "HOL-Library.AList"
begin

text \<open>
  Identifiers, controller policies and signature verification of the Native envelope:
  \<^verbatim>\<open>pkg/nativecore/action.go\<close> and \<^verbatim>\<open>errors.go\<close>, with the message types of
  \<^verbatim>\<open>gen/tos/service/v1/native.pb.go\<close> they read. A message pointer that the code compares with nil is
  an option. \<^verbatim>\<open>ed25519.Verify\<close> is the parameter \<open>verify\<close>.

  The lemmas give the declarative meaning of the checks: a policy is accepted exactly when it is
  well formed, and a signature set exactly when strictly sorted, distinct, authorised controllers
  with verifying signatures reach the threshold over unbounded numbers.
\<close>

unbundle bit_operations_syntax

subsection \<open>Messages\<close>

record NetworkDomain =
  NetworkId :: string
  GenesisRootHash :: string
  GenesisFileHash :: string

record ControllerV1 =
  KeyId :: string
  Ed25519PublicKey :: bytes
  Weight :: u32
  PurposeMask :: u32
  Recovery :: bool

record ControllerPolicyV1 =
  Threshold :: u32
  RecoveryThreshold :: u32
  RecoveryTimelockSeconds :: u64
  Controllers :: "ControllerV1 option list"

record SignatureV1 =
  SigKeyId :: string
  Ed25519Signature :: bytes

record CapabilityVersionV1 =
  Version :: string
  ManifestDigest :: string
  Revoked :: bool

subsection \<open>Error codes: errors.go\<close>

datatype ErrorCode =
    ErrBadMessage | ErrWrongNetwork | ErrWrongContract | ErrBadAction | ErrBadPredecessor
  | ErrBadSequence | ErrTombstoned | ErrBadPolicy | ErrBadSignature | ErrThreshold
  | ErrBadTransition | ErrImmutableVersion | ErrTimelock | ErrDuplicateSignature

fun error_number :: "ErrorCode \<Rightarrow> nat" where
  "error_number ErrBadMessage = 2200"
| "error_number ErrWrongNetwork = 2201"
| "error_number ErrWrongContract = 2202"
| "error_number ErrBadAction = 2203"
| "error_number ErrBadPredecessor = 2204"
| "error_number ErrBadSequence = 2205"
| "error_number ErrTombstoned = 2206"
| "error_number ErrBadPolicy = 2207"
| "error_number ErrBadSignature = 2208"
| "error_number ErrThreshold = 2209"
| "error_number ErrBadTransition = 2210"
| "error_number ErrImmutableVersion = 2211"
| "error_number ErrTimelock = 2212"
| "error_number ErrDuplicateSignature = 2213"

text \<open>An error is a coded protocol error or a plain one; wrapping keeps an inner code.\<close>

datatype native_error = Coded ErrorCode | Plain

definition wrapNativeError :: "ErrorCode \<Rightarrow> native_error \<Rightarrow> native_error" where
  "wrapNativeError code cause = (case cause of Coded c \<Rightarrow> Coded c | Plain \<Rightarrow> Coded code)"

definition ErrorCodeOf :: "native_error \<Rightarrow> ErrorCode option" where
  "ErrorCodeOf e = (case e of Coded c \<Rightarrow> Some c | Plain \<Rightarrow> None)"

definition wrap :: "ErrorCode \<Rightarrow> native_error + 'a \<Rightarrow> native_error + 'a" where
  "wrap code r = (case r of Inl e \<Rightarrow> Inl (wrapNativeError code e) | Inr x \<Rightarrow> Inr x)"

subsection \<open>Text: identifiers and digests\<close>

text \<open>\<^verbatim>\<open>hex.DecodeString\<close> with its error dropped keeps the bytes decoded before the error.\<close>

fun hex_prefix :: "string \<Rightarrow> bytes" where
  "hex_prefix (a # b # s) =
     (case (unhex a, unhex b) of
        (Some x, Some y) \<Rightarrow> of_nat (16 * x + y) # hex_prefix s
      | _ \<Rightarrow> [])"
| "hex_prefix _ = []"

definition keyIDHash :: "string \<Rightarrow> bytes" where
  "keyIDHash v = hex_prefix (trim_prefix v ''ed25519:'')"

definition validKeyID :: "string \<Rightarrow> bool" where
  "validKeyID v =
     (if \<not> has_prefix v ''ed25519:'' \<or> length v \<noteq> 8 + 64 then False
      else case hex_decode (trim_prefix v ''ed25519:'') of
        None \<Rightarrow> False
      | Some raw \<Rightarrow> v = ''ed25519:'' @ hex_encode raw \<and> length raw = 32 \<and> raw \<noteq> zero_bytes 32)"

definition validProtocolText :: "string \<Rightarrow> nat \<Rightarrow> bool" where
  "validProtocolText v maximum =
     (if v = [] \<or> length v > maximum then False
      else list_all (\<lambda>c. 33 \<le> (of_char c :: nat) \<and> (of_char c :: nat) \<le> 126) v)"

definition object_with_prefix :: "string \<Rightarrow> string \<Rightarrow> bytes option" where
  "object_with_prefix v prefix =
     (if has_prefix v prefix \<and> length v = length prefix + 64
      then case hex_decode (drop (length prefix) v) of
          None \<Rightarrow> None
        | Some raw \<Rightarrow> if v = prefix @ hex_encode raw \<and> raw \<noteq> zero_bytes 32 then Some raw else None
      else None)"

text \<open>The two prefixes exclude each other, so the order in which Go ranges over them is
  irrelevant.\<close>

definition objectID :: "string \<Rightarrow> native_error + bytes \<times> u8" where
  "objectID v =
     (case object_with_prefix v ''agent_'' of
        Some raw \<Rightarrow> Inr (raw, 1)
      | None \<Rightarrow> (case object_with_prefix v ''cap_'' of Some raw \<Rightarrow> Inr (raw, 2) | None \<Rightarrow> Inl Plain))"

definition digestBytes :: "string \<Rightarrow> string \<Rightarrow> bool \<Rightarrow> native_error + bytes" where
  "digestBytes v prefix allowZero =
     (if \<not> has_prefix v prefix then Inl Plain
      else case hex_decode (trim_prefix v prefix) of
        None \<Rightarrow> Inl Plain
      | Some raw \<Rightarrow>
          if length raw \<noteq> 32 \<or> v \<noteq> prefix @ hex_encode raw then Inl Plain
          else if \<not> allowZero \<and> raw = zero_bytes 32 then Inl Plain
          else Inr raw)"

definition optionalDigest :: "string \<Rightarrow> native_error + bytes" where
  "optionalDigest v = (if v = [] then Inr (zero_bytes 32) else digestBytes v ''tvm-cell-sha256:'' False)"

text \<open>The byte comparison of \<^verbatim>\<open>state.go\<close>, and \<^verbatim>\<open>bytes.Compare\<close> as the lexicographic order.\<close>

fun compareBytes :: "bytes \<Rightarrow> bytes \<Rightarrow> int" where
  "compareBytes [] [] = 0"
| "compareBytes [] (_ # _) = - 1"
| "compareBytes (_ # _) [] = 1"
| "compareBytes (a # as) (b # bs) =
     (if a < b then - 1 else if a > b then 1 else compareBytes as bs)"

definition equalBytes :: "bytes \<Rightarrow> bytes \<Rightarrow> bool" where
  "equalBytes a b = (compareBytes a b = 0)"

subsection \<open>Policies\<close>

definition PurposeAgentControl :: u32 where "PurposeAgentControl = 1"
definition PurposeDelegation :: u32 where "PurposeDelegation = 2"
definition PurposeRecovery :: u32 where "PurposeRecovery = 4"
definition PurposeCapabilityControl :: u32 where "PurposeCapabilityControl = 8"

definition knownPurposeMask :: u32 where
  "knownPurposeMask = PurposeAgentControl OR PurposeDelegation OR PurposeRecovery OR PurposeCapabilityControl"

definition MaxControllers :: nat where "MaxControllers = 64"
definition MaxSignatures :: nat where "MaxSignatures = 64"
definition MaxControllerWeight :: u32 where "MaxControllerWeight = 1000000"
definition MaxRecoveryTimelockSeconds :: u64 where "MaxRecoveryTimelockSeconds = 365 * 24 * 60 * 60"

record policy_acc =
  acc_controllers :: "(string \<times> ControllerV1) list"
  acc_publicKeys :: "bytes list"
  acc_recoveryTotal :: u64
  acc_agentTotal :: u64
  acc_delegationTotal :: u64
  acc_capabilityTotal :: u64

definition controller_valid :: "ControllerV1 \<Rightarrow> bool" where
  "controller_valid c = (\<not> (\<not> validKeyID (KeyId c) \<or> length (Ed25519PublicKey c) \<noteq> 32 \<or>
     keyIDHash (KeyId c) \<noteq> Ed25519PublicKey c \<or> Ed25519PublicKey c = zero_bytes 32 \<or>
     Weight c = 0 \<or> Weight c > MaxControllerWeight \<or> PurposeMask c = 0 \<or>
     PurposeMask c AND NOT knownPurposeMask \<noteq> 0))"

definition add_for :: "u32 \<Rightarrow> ControllerV1 \<Rightarrow> u64 \<Rightarrow> u64" where
  "add_for purpose c tot =
     (if PurposeMask c AND purpose \<noteq> 0 then tot + ucast (Weight c) else tot)"

fun policy_loop :: "ControllerV1 option list \<Rightarrow> policy_acc \<Rightarrow> native_error + policy_acc" where
  "policy_loop [] a = Inr a"
| "policy_loop (None # cs) a = Inl Plain"
| "policy_loop (Some c # cs) a =
     (if \<not> controller_valid c then Inl Plain
      else if map_of (acc_controllers a) (KeyId c) \<noteq> None then Inl Plain
      else if Ed25519PublicKey c \<in> set (acc_publicKeys a) then Inl Plain
      else if Recovery c \<noteq> (PurposeMask c AND PurposeRecovery \<noteq> 0) then Inl Plain
      else policy_loop cs
        \<lparr>acc_controllers = AList.update (KeyId c) c (acc_controllers a),
         acc_publicKeys = Ed25519PublicKey c # acc_publicKeys a,
         acc_recoveryTotal = (if Recovery c then add_for PurposeRecovery c (acc_recoveryTotal a)
                              else acc_recoveryTotal a),
         acc_agentTotal = add_for PurposeAgentControl c (acc_agentTotal a),
         acc_delegationTotal = add_for PurposeDelegation c (acc_delegationTotal a),
         acc_capabilityTotal = add_for PurposeCapabilityControl c (acc_capabilityTotal a)\<rparr>)"

definition policy_start :: policy_acc where
  "policy_start = \<lparr>acc_controllers = [], acc_publicKeys = [], acc_recoveryTotal = 0,
     acc_agentTotal = 0, acc_delegationTotal = 0, acc_capabilityTotal = 0\<rparr>"

definition validatePolicy ::
  "ControllerPolicyV1 option \<Rightarrow> native_error + (string \<times> ControllerV1) list" where
  "validatePolicy policy =
     (case policy of
        None \<Rightarrow> Inl Plain
      | Some p \<Rightarrow>
          if Threshold p = 0 \<or> RecoveryThreshold p = 0 \<or> Controllers p = [] \<or>
             length (Controllers p) > MaxControllers then Inl Plain
          else ebind (policy_loop (Controllers p) policy_start) (\<lambda>a.
            if ucast (Threshold p) > acc_agentTotal a \<or> ucast (Threshold p) > acc_delegationTotal a \<or>
               ucast (Threshold p) > acc_capabilityTotal a then Inl Plain
            else if ucast (RecoveryThreshold p) > acc_recoveryTotal a then Inl Plain
            else if RecoveryTimelockSeconds p > MaxRecoveryTimelockSeconds then Inl Plain
            else Inr (acc_controllers a)))"

subsection \<open>Signatures\<close>

definition GetKeyId :: "SignatureV1 option \<Rightarrow> string" where
  "GetKeyId s = (case s of None \<Rightarrow> [] | Some s \<Rightarrow> SigKeyId s)"

fun signature_loop ::
  "(bytes \<Rightarrow> bytes \<Rightarrow> bytes \<Rightarrow> bool) \<Rightarrow> (string \<times> ControllerV1) list \<Rightarrow> u32 \<Rightarrow> bool \<Rightarrow> bytes
   \<Rightarrow> SignatureV1 option list \<Rightarrow> bytes option \<Rightarrow> u64 \<Rightarrow> native_error + u64" where
  "signature_loop verify controllers purpose recovery actionHash [] previous tot = Inr tot"
| "signature_loop verify controllers purpose recovery actionHash (signature # rest) previous tot =
     (let keyHash = keyIDHash (GetKeyId signature) in
      case signature of
        None \<Rightarrow> Inl (Coded ErrDuplicateSignature)
      | Some s \<Rightarrow>
          if \<not> validKeyID (SigKeyId s) \<or> length (Ed25519Signature s) \<noteq> 64 \<or>
             (case previous of None \<Rightarrow> False | Some p \<Rightarrow> keyHash \<le> p)
            then Inl (Coded ErrDuplicateSignature)
          else case map_of controllers (SigKeyId s) of
            None \<Rightarrow> Inl (Coded ErrBadSignature)
          | Some c \<Rightarrow>
              if PurposeMask c AND purpose = 0 \<or> (recovery \<and> \<not> Recovery c)
                then Inl (Coded ErrBadSignature)
              else if \<not> verify (Ed25519PublicKey c) actionHash (Ed25519Signature s)
                then Inl (Coded ErrBadSignature)
              else signature_loop verify controllers purpose recovery actionHash rest
                     (Some keyHash) (tot + ucast (Weight c)))"

definition VerifySignatures ::
  "(bytes \<Rightarrow> bytes \<Rightarrow> bytes \<Rightarrow> bool) \<Rightarrow> ControllerPolicyV1 option \<Rightarrow> SignatureV1 option list \<Rightarrow> u32
   \<Rightarrow> bool \<Rightarrow> bytes \<Rightarrow> native_error + unit" where
  "VerifySignatures verify policy signatures requiredPurpose recovery actionHash =
     ebind (wrap ErrBadPolicy (validatePolicy policy)) (\<lambda>controllers.
       if signatures = [] \<or> length signatures > MaxSignatures \<or> length actionHash \<noteq> 32
         then Inl (Coded ErrBadSignature)
       else let threshold = (case policy of None \<Rightarrow> 0
              | Some p \<Rightarrow> if recovery then ucast (RecoveryThreshold p) else ucast (Threshold p)) in
         ebind (signature_loop verify controllers requiredPurpose recovery actionHash signatures None 0)
           (\<lambda>tot. if tot < threshold then Inl (Coded ErrThreshold) else Inr ()))"

fun possession_loop ::
  "(bytes \<Rightarrow> bytes \<Rightarrow> bytes \<Rightarrow> bool) \<Rightarrow> (string \<times> ControllerV1) list \<Rightarrow> bytes
   \<Rightarrow> SignatureV1 option list \<Rightarrow> SignatureV1 option \<Rightarrow> bool" where
  "possession_loop verify controllers actionHash [] previous = True"
| "possession_loop verify controllers actionHash (signature # rest) previous =
     (case signature of
        None \<Rightarrow> False
      | Some s \<Rightarrow>
          if length (Ed25519Signature s) \<noteq> 64 then False
          else case map_of controllers (SigKeyId s) of
            None \<Rightarrow> False
          | Some c \<Rightarrow>
              if (case previous of None \<Rightarrow> False
                  | Some q \<Rightarrow> equalBytes (keyIDHash (SigKeyId q)) (keyIDHash (SigKeyId s))) \<or>
                 \<not> verify (Ed25519PublicKey c) actionHash (Ed25519Signature s) then False
              else possession_loop verify controllers actionHash rest (Some s))"

definition VerifyPolicyPossession ::
  "(bytes \<Rightarrow> bytes \<Rightarrow> bytes \<Rightarrow> bool) \<Rightarrow> ControllerPolicyV1 option \<Rightarrow> SignatureV1 option list \<Rightarrow> bytes
   \<Rightarrow> native_error + unit" where
  "VerifyPolicyPossession verify policy signatures actionHash =
     ebind (wrap ErrBadPolicy (validatePolicy policy)) (\<lambda>controllers.
       if length signatures \<noteq> length controllers \<or> length actionHash \<noteq> 32
         then Inl (Coded ErrBadSignature)
       else let ordered = sort_key (\<lambda>s. keyIDHash (GetKeyId s)) signatures in
         if possession_loop verify controllers actionHash ordered None then Inr ()
         else Inl (Coded ErrBadSignature))"

subsection \<open>Identifiers have one spelling\<close>

lemma hex_prefix_decode: "hex_decode s = Some b \<Longrightarrow> hex_prefix s = b"
  by (induction s arbitrary: b rule: hex_prefix.induct)
    (auto simp: bind_simps split: option.splits)

lemma hex_prefix_encode [simp]: "hex_prefix (hex_encode b) = b"
  by (rule hex_prefix_decode) simp

lemma has_prefixE:
  assumes "has_prefix v p"
  obtains s where "v = p @ s"
  using assms by (auto simp: has_prefix_iff)

lemma digestBytes_iff:
  "digestBytes v p z = Inr raw \<longleftrightarrow>
     length raw = 32 \<and> v = p @ hex_encode raw \<and> (z \<or> raw \<noteq> zero_bytes 32)"
proof
  assume "digestBytes v p z = Inr raw"
  then show "length raw = 32 \<and> v = p @ hex_encode raw \<and> (z \<or> raw \<noteq> zero_bytes 32)"
    by (auto simp: digestBytes_def split: if_splits option.splits)
next
  assume "length raw = 32 \<and> v = p @ hex_encode raw \<and> (z \<or> raw \<noteq> zero_bytes 32)"
  then show "digestBytes v p z = Inr raw" by (auto simp: digestBytes_def)
qed

lemma object_with_prefix_iff:
  "object_with_prefix v p = Some raw \<longleftrightarrow>
     length raw = 32 \<and> v = p @ hex_encode raw \<and> raw \<noteq> zero_bytes 32"
  by (auto simp: object_with_prefix_def hex_encode_inj split: if_splits option.splits)

lemma objectID_iff:
  "objectID v = Inr (raw, kind) \<longleftrightarrow> length raw = 32 \<and> raw \<noteq> zero_bytes 32 \<and>
     (kind = 1 \<and> v = ''agent_'' @ hex_encode raw \<or> kind = 2 \<and> v = ''cap_'' @ hex_encode raw)"
proof -
  have "object_with_prefix v ''agent_'' = Some raw \<Longrightarrow> object_with_prefix v ''cap_'' = None" for raw
    using object_with_prefix_iff [of v "''cap_''"] object_with_prefix_iff [of v "''agent_''" raw]
    by (cases "object_with_prefix v ''cap_''") auto
  moreover have "(kind = 1 \<and> v = ''agent_'' @ hex_encode raw \<or> kind = 2 \<and> v = ''cap_'' @ hex_encode raw)
     \<and> length raw = 32 \<and> raw \<noteq> zero_bytes 32
    \<longleftrightarrow> (kind = 1 \<and> object_with_prefix v ''agent_'' = Some raw \<or>
        kind = 2 \<and> object_with_prefix v ''cap_'' = Some raw)"
    by (auto simp: object_with_prefix_iff)
  ultimately show ?thesis
    unfolding objectID_def by (auto split: option.splits)
qed

lemma canonical_key_iff:
  "(if \<not> has_prefix v p \<or> length v \<noteq> length p + 64 then False
    else case hex_decode (trim_prefix v p) of
      None \<Rightarrow> False
    | Some raw \<Rightarrow> v = p @ hex_encode raw \<and> length raw = 32 \<and> raw \<noteq> z) \<longleftrightarrow>
   (\<exists>raw. length raw = 32 \<and> raw \<noteq> z \<and> v = p @ hex_encode raw)"
  by (auto split: option.splits)

lemma validKeyID_iff:
  "validKeyID v \<longleftrightarrow> (\<exists>raw. length raw = 32 \<and> raw \<noteq> zero_bytes 32 \<and> v = ''ed25519:'' @ hex_encode raw)"
  using canonical_key_iff [of v "''ed25519:''" "zero_bytes 32"] unfolding validKeyID_def by simp

lemma keyIDHash_key: "keyIDHash (''ed25519:'' @ hex_encode raw) = raw"
  unfolding keyIDHash_def trim_prefix_append by simp

lemma keyIDHash_inj: "validKeyID a \<Longrightarrow> validKeyID b \<Longrightarrow> keyIDHash a = keyIDHash b \<Longrightarrow> a = b"
  unfolding validKeyID_iff by (metis keyIDHash_key)

lemma compareBytes_spec:
  "compareBytes a b = (if a < b then - 1 else if a = b then 0 else 1)"
  by (induction a b rule: compareBytes.induct) (auto simp: Cons_less_Cons)

lemma equalBytes_iff [simp]: "equalBytes a b \<longleftrightarrow> a = b"
  by (auto simp: equalBytes_def compareBytes_spec)

subsection \<open>Well-formed policies\<close>

definition weight_sum :: "(ControllerV1 \<Rightarrow> bool) \<Rightarrow> ControllerV1 list \<Rightarrow> nat" where
  "weight_sum P cs = (\<Sum>c\<leftarrow>cs. if P c then unat (Weight c) else 0)"

definition has_purpose :: "u32 \<Rightarrow> ControllerV1 \<Rightarrow> bool" where
  "has_purpose purpose c = (PurposeMask c AND purpose \<noteq> 0)"

definition wf_controller :: "ControllerV1 \<Rightarrow> bool" where
  "wf_controller c = (validKeyID (KeyId c) \<and> Ed25519PublicKey c = keyIDHash (KeyId c) \<and>
     0 < unat (Weight c) \<and> unat (Weight c) \<le> 1000000 \<and> PurposeMask c \<noteq> 0 \<and>
     PurposeMask c AND NOT 15 = 0 \<and> (Recovery c \<longleftrightarrow> has_purpose PurposeRecovery c))"

definition wf_policy :: "ControllerPolicyV1 \<Rightarrow> ControllerV1 list \<Rightarrow> bool" where
  "wf_policy p cs = (Controllers p = map Some cs \<and> cs \<noteq> [] \<and> length cs \<le> 64 \<and>
     list_all wf_controller cs \<and> distinct (map KeyId cs) \<and>
     0 < unat (Threshold p) \<and> 0 < unat (RecoveryThreshold p) \<and>
     unat (Threshold p) \<le> weight_sum (has_purpose PurposeAgentControl) cs \<and>
     unat (Threshold p) \<le> weight_sum (has_purpose PurposeDelegation) cs \<and>
     unat (Threshold p) \<le> weight_sum (has_purpose PurposeCapabilityControl) cs \<and>
     unat (RecoveryThreshold p) \<le> weight_sum (has_purpose PurposeRecovery) cs \<and>
     unat (RecoveryTimelockSeconds p) \<le> 365 * 24 * 60 * 60)"

lemma keyIDHash_length: "validKeyID v \<Longrightarrow> length (keyIDHash v) = 32 \<and> keyIDHash v \<noteq> zero_bytes 32"
  unfolding validKeyID_iff by (metis keyIDHash_key)

lemma controller_valid_iff:
  "controller_valid c \<and> (Recovery c \<longleftrightarrow> PurposeMask c AND PurposeRecovery \<noteq> 0) \<longleftrightarrow> wf_controller c"
proof -
  have "knownPurposeMask = 15"
    by (simp add: knownPurposeMask_def PurposeAgentControl_def PurposeDelegation_def
        PurposeRecovery_def PurposeCapabilityControl_def)
  then show ?thesis
    using keyIDHash_length [of "KeyId c"]
    by (auto simp: controller_valid_def wf_controller_def has_purpose_def MaxControllerWeight_def
        word_less_nat_alt unat_gt_0)
qed

lemma wf_controllerD:
  assumes "wf_controller c"
  shows "validKeyID (KeyId c)" "Ed25519PublicKey c = keyIDHash (KeyId c)" "0 < unat (Weight c)"
    "unat (Weight c) \<le> 1000000"
  using assms by (simp_all only: wf_controller_def)

lemma weight_sum_simps [simp]:
  "weight_sum P [] = 0"
  "weight_sum P (c # cs) = (if P c then unat (Weight c) else 0) + weight_sum P cs"
  by (simp_all add: weight_sum_def)

lemma weight_sum_bound: "list_all wf_controller cs \<Longrightarrow> weight_sum P cs \<le> 1000000 * length cs"
proof (induction cs)
  case (Cons c cs)
  then show ?case using wf_controllerD(4) [of c] by simp
qed simp

lemma unat_ucast_u32 [simp]: "unat (ucast (w :: u32) :: u64) = unat w"
  by transfer simp

lemma unat_add_for:
  assumes "wf_controller c" and "unat t + 1000000 < 2 ^ 64"
  shows "unat (add_for purpose c t) = unat t + (if has_purpose purpose c then unat (Weight c) else 0)"
proof -
  have "unat t + unat (ucast (Weight c) :: u64) < 2 ^ 64" using assms(2) wf_controllerD(4) [OF assms(1)] by simp
  from unat_add_u64 [OF this] show ?thesis by (simp add: add_for_def has_purpose_def)
qed

text \<open>The accumulators of \<^verbatim>\<open>validatePolicy\<close> after a controller.\<close>

definition acc_add :: "policy_acc \<Rightarrow> ControllerV1 \<Rightarrow> policy_acc" where
  "acc_add a c = \<lparr>acc_controllers = acc_controllers a @ [(KeyId c, c)],
     acc_publicKeys = Ed25519PublicKey c # acc_publicKeys a,
     acc_recoveryTotal = add_for PurposeRecovery c (acc_recoveryTotal a),
     acc_agentTotal = add_for PurposeAgentControl c (acc_agentTotal a),
     acc_delegationTotal = add_for PurposeDelegation c (acc_delegationTotal a),
     acc_capabilityTotal = add_for PurposeCapabilityControl c (acc_capabilityTotal a)\<rparr>"

definition acc_keys_ok :: "policy_acc \<Rightarrow> bool" where
  "acc_keys_ok a = (set (acc_publicKeys a) = keyIDHash ` fst ` set (acc_controllers a) \<and>
     (\<forall>p \<in> set (acc_controllers a). validKeyID (fst p)))"

lemma update_append: "map_of xs k = None \<Longrightarrow> AList.update k v xs = xs @ [(k, v)]"
  by (induction xs) auto

lemma acc_keys_add: "acc_keys_ok a \<Longrightarrow> wf_controller c \<Longrightarrow> acc_keys_ok (acc_add a c)"
  using wf_controllerD(1,2) [of c] by (auto simp: acc_keys_ok_def acc_add_def)

lemma new_key_iff:
  assumes "acc_keys_ok a" "wf_controller c"
  shows "Ed25519PublicKey c \<in> set (acc_publicKeys a) \<longleftrightarrow> KeyId c \<in> fst ` set (acc_controllers a)"
proof -
  have v: "validKeyID (KeyId c)" "Ed25519PublicKey c = keyIDHash (KeyId c)"
    using wf_controllerD(1,2) [OF assms(2)] .
  have "keyIDHash (KeyId c) \<in> keyIDHash ` K \<longleftrightarrow> KeyId c \<in> K" if "\<forall>k \<in> K. validKeyID k" for K
    using v(1) that keyIDHash_inj by blast
  then show ?thesis using assms(1) v(2) by (auto simp: acc_keys_ok_def)
qed

lemma policy_loop_step:
  assumes "acc_keys_ok a"
  shows "policy_loop (Some c # cs) a =
    (if wf_controller c \<and> KeyId c \<notin> fst ` set (acc_controllers a) then policy_loop cs (acc_add a c)
     else Inl Plain)"
proof (cases "wf_controller c")
  case True
  then have "controller_valid c" "Recovery c \<longleftrightarrow> PurposeMask c AND PurposeRecovery \<noteq> 0"
    using controller_valid_iff [of c] by auto
  then show ?thesis
    using True new_key_iff [OF assms True]
    by (auto simp: acc_add_def update_append map_of_eq_None_iff add_for_def)
next
  case False
  then show ?thesis using controller_valid_iff [of c] by auto
qed

declare policy_loop.simps(3) [simp del]

lemma policy_loop_iff:
  assumes "acc_keys_ok a"
  shows "policy_loop xs a = Inr a' \<longleftrightarrow> (\<exists>cs. xs = map Some cs \<and> list_all wf_controller cs \<and>
    distinct (map KeyId cs) \<and> KeyId ` set cs \<inter> fst ` set (acc_controllers a) = {} \<and>
    a' = foldl acc_add a cs)"
  using assms
proof (induction xs arbitrary: a)
  case Nil
  then show ?case by auto
next
  case (Cons x xs)
  show ?case
  proof (cases x)
    case None
    then show ?thesis by auto
  next
    case (Some c)
    show ?thesis
    proof (cases "wf_controller c \<and> KeyId c \<notin> fst ` set (acc_controllers a)")
      case True
      then have "acc_keys_ok (acc_add a c)" using Cons.prems acc_keys_add by blast
      note IH = Cons.IH [OF this]
      have k: "fst ` set (acc_controllers (acc_add a c)) = insert (KeyId c) (fst ` set (acc_controllers a))"
        by (auto simp: acc_add_def)
      have split: "(\<exists>cs. x # xs = map Some cs \<and> R cs) \<longleftrightarrow> (\<exists>cs. xs = map Some cs \<and> R (c # cs))" for R
        using Some by (auto simp: Cons_eq_map_conv)
      have "policy_loop (x # xs) a = policy_loop xs (acc_add a c)"
        using True Some Cons.prems by (simp add: policy_loop_step)
      then show ?thesis
        unfolding split using True by (auto simp: IH k)
    next
      case False
      then show ?thesis using Some Cons.prems by (auto simp: policy_loop_step Cons_eq_map_conv)
    qed
  qed
qed

lemma fold_total:
  assumes "\<And>a c. t (acc_add a c) = add_for purpose c (t a)"
    and "list_all wf_controller cs" and "unat (t a) + 1000000 * length cs < 2 ^ 64"
  shows "unat (t (foldl acc_add a cs)) = unat (t a) + weight_sum (has_purpose purpose) cs"
  using assms(2,3)
proof (induction cs arbitrary: a)
  case (Cons c cs)
  have step: "unat (t (acc_add a c)) = unat (t a) + (if has_purpose purpose c then unat (Weight c) else 0)"
    unfolding assms(1) using Cons.prems by (intro unat_add_for) simp_all
  have "unat (t (acc_add a c)) + 1000000 * length cs < 2 ^ 64"
    using step Cons.prems wf_controllerD(4) [of c] by simp
  from Cons.IH [OF _ this] show ?case using Cons.prems step by simp
qed simp

lemma fold_controllers:
  "acc_controllers (foldl acc_add a cs) = acc_controllers a @ map (\<lambda>c. (KeyId c, c)) cs"
  by (induction cs arbitrary: a) (simp_all add: acc_add_def)

lemma validatePolicy_iff:
  "validatePolicy (Some p) = Inr ctl \<longleftrightarrow> (\<exists>cs. wf_policy p cs \<and> ctl = map (\<lambda>c. (KeyId c, c)) cs)"
proof -
  have start: "acc_keys_ok policy_start" by (simp add: acc_keys_ok_def policy_start_def)
  have nil: "acc_controllers policy_start = []" by (simp add: policy_start_def)
  have tl: "RecoveryTimelockSeconds p > MaxRecoveryTimelockSeconds \<longleftrightarrow>
      \<not> unat (RecoveryTimelockSeconds p) \<le> 365 * 24 * 60 * 60"
    by (simp add: MaxRecoveryTimelockSeconds_def word_less_nat_alt not_le)
  have t: "unat (acc_agentTotal (foldl acc_add policy_start cs)) = weight_sum (has_purpose PurposeAgentControl) cs"
    "unat (acc_delegationTotal (foldl acc_add policy_start cs)) = weight_sum (has_purpose PurposeDelegation) cs"
    "unat (acc_capabilityTotal (foldl acc_add policy_start cs))
      = weight_sum (has_purpose PurposeCapabilityControl) cs"
    "unat (acc_recoveryTotal (foldl acc_add policy_start cs)) = weight_sum (has_purpose PurposeRecovery) cs"
    if "list_all wf_controller cs" "length cs \<le> 64" for cs
    using that fold_total [of acc_agentTotal PurposeAgentControl cs policy_start]
      fold_total [of acc_delegationTotal PurposeDelegation cs policy_start]
      fold_total [of acc_capabilityTotal PurposeCapabilityControl cs policy_start]
      fold_total [of acc_recoveryTotal PurposeRecovery cs policy_start]
    by (simp_all add: acc_add_def policy_start_def)
  have "validatePolicy (Some p) = Inr ctl \<longleftrightarrow>
      Threshold p \<noteq> 0 \<and> RecoveryThreshold p \<noteq> 0 \<and> Controllers p \<noteq> [] \<and> length (Controllers p) \<le> 64 \<and>
      (\<exists>a. policy_loop (Controllers p) policy_start = Inr a \<and>
        \<not> ucast (Threshold p) > acc_agentTotal a \<and> \<not> ucast (Threshold p) > acc_delegationTotal a \<and>
        \<not> ucast (Threshold p) > acc_capabilityTotal a \<and>
        \<not> ucast (RecoveryThreshold p) > acc_recoveryTotal a \<and>
        \<not> RecoveryTimelockSeconds p > MaxRecoveryTimelockSeconds \<and> ctl = acc_controllers a)"
    by (auto simp: validatePolicy_def MaxControllers_def ebind_eq_Inr)
  also have "\<dots> \<longleftrightarrow> (\<exists>cs. wf_policy p cs \<and> ctl = map (\<lambda>c. (KeyId c, c)) cs)"
    unfolding policy_loop_iff [OF start] wf_policy_def tl
    by (auto simp: t fold_controllers nil word_less_nat_alt not_less unat_gt_0)
  finally show ?thesis .
qed


subsection \<open>Signature sets\<close>

text \<open>A signature by a controller over the action hash, and one that is authorised for a purpose.\<close>

definition signed_by :: "(bytes \<Rightarrow> bytes \<Rightarrow> bytes \<Rightarrow> bool) \<Rightarrow> bytes \<Rightarrow> SignatureV1 option \<Rightarrow> ControllerV1 \<Rightarrow> bool" where
  "signed_by verify h x c = (case x of None \<Rightarrow> False | Some s \<Rightarrow>
     SigKeyId s = KeyId c \<and> length (Ed25519Signature s) = 64 \<and>
     verify (Ed25519PublicKey c) h (Ed25519Signature s))"

definition may_sign :: "u32 \<Rightarrow> bool \<Rightarrow> ControllerV1 \<Rightarrow> bool" where
  "may_sign purpose recovery c = (has_purpose purpose c \<and> (recovery \<longrightarrow> Recovery c))"

lemma map_of_controllers:
  assumes "distinct (map KeyId cs)"
  shows "map_of (map (\<lambda>c. (KeyId c, c)) cs) k = Some c \<longleftrightarrow> c \<in> set cs \<and> KeyId c = k"
  using assms by (auto simp: map_of_eq_Some_iff comp_def)

lemma wf_policyD:
  assumes "wf_policy p cs"
  shows "distinct (map KeyId cs)" "list_all wf_controller cs" "length cs \<le> 64" "cs \<noteq> []"
    "Controllers p = map Some cs"
  using assms by (simp_all add: wf_policy_def)

lemma signature_loop_iff:
  assumes wf: "wf_policy p cs"
  shows "signature_loop verify (map (\<lambda>c. (KeyId c, c)) cs) purpose recovery h sigs prev t = Inr t' \<longleftrightarrow>
    (\<exists>ds. set ds \<subseteq> set cs \<and> list_all2 (signed_by verify h) sigs ds \<and>
      list_all (may_sign purpose recovery) ds \<and>
      sorted_wrt (<) (map Ed25519PublicKey ds) \<and>
      (\<forall>q. prev = Some q \<longrightarrow> list_all (\<lambda>c. q < Ed25519PublicKey c) ds) \<and>
      t' = t + (\<Sum>c\<leftarrow>ds. ucast (Weight c)))"
proof (induction sigs arbitrary: prev t)
  case Nil
  then show ?case by auto
next
  case (Cons x sigs)
  let ?ctl = "map (\<lambda>c. (KeyId c, c)) cs"
  show ?case (is "?l = ?r")
  proof
    assume l: ?l
    then obtain s where x: "x = Some s" by (cases x) auto
    obtain c where c: "map_of ?ctl (SigKeyId s) = Some c"
      using l x by (auto simp: Let_def split: if_splits option.splits)
    have cs: "c \<in> set cs" "KeyId c = SigKeyId s"
      using c map_of_controllers [OF wf_policyD(1) [OF wf]] by auto
    have pk: "Ed25519PublicKey c = keyIDHash (SigKeyId s)"
      using cs wf_controllerD(2) [of c] wf_policyD(2) [OF wf] by (simp add: list_all_iff)
    have g: "length (Ed25519Signature s) = 64" "has_purpose purpose c" "recovery \<longrightarrow> Recovery c"
      "verify (Ed25519PublicKey c) h (Ed25519Signature s)"
      "prev = Some q \<Longrightarrow> q < Ed25519PublicKey c"
      "signature_loop verify ?ctl purpose recovery h sigs (Some (Ed25519PublicKey c))
         (t + ucast (Weight c)) = Inr t'" for q
      using l x c pk by (auto simp: Let_def GetKeyId_def has_purpose_def not_le split: if_splits option.splits)
    obtain ds where ds: "set ds \<subseteq> set cs" "list_all2 (signed_by verify h) sigs ds"
      "list_all (may_sign purpose recovery) ds" "sorted_wrt (<) (map Ed25519PublicKey ds)"
      "list_all (\<lambda>d. Ed25519PublicKey c < Ed25519PublicKey d) ds"
      "t' = t + ucast (Weight c) + (\<Sum>c\<leftarrow>ds. ucast (Weight c))"
      using g(6) unfolding Cons.IH by blast
    show ?r
    proof (intro exI [of _ "c # ds"] conjI)
      show "list_all2 (signed_by verify h) (x # sigs) (c # ds)"
        using ds(2) x cs g by (simp add: signed_by_def)
      show "list_all (may_sign purpose recovery) (c # ds)" using ds(3) g by (simp add: may_sign_def)
      show "sorted_wrt (<) (map Ed25519PublicKey (c # ds))" using ds(4,5) by (simp add: list_all_iff)
      show "\<forall>q. prev = Some q \<longrightarrow> list_all (\<lambda>c. q < Ed25519PublicKey c) (c # ds)"
        using g(5) ds(5) by (auto simp: list_all_iff)
    qed (use ds cs in \<open>simp_all add: add.assoc\<close>)
  next
    assume ?r
    then obtain ds0 where r: "set ds0 \<subseteq> set cs" "list_all2 (signed_by verify h) (x # sigs) ds0"
      "list_all (may_sign purpose recovery) ds0" "sorted_wrt (<) (map Ed25519PublicKey ds0)"
      "\<forall>q. prev = Some q \<longrightarrow> list_all (\<lambda>c. q < Ed25519PublicKey c) ds0"
      "t' = t + (\<Sum>c\<leftarrow>ds0. ucast (Weight c))" by blast
    then obtain c ds where d: "ds0 = c # ds" "signed_by verify h x c" "list_all2 (signed_by verify h) sigs ds"
      by (auto simp: list_all2_Cons1)
    obtain s where x: "x = Some s" "SigKeyId s = KeyId c" "length (Ed25519Signature s) = 64"
      "verify (Ed25519PublicKey c) h (Ed25519Signature s)"
      using d(2) by (auto simp: signed_by_def split: option.splits)
    have cw: "c \<in> set cs" "wf_controller c"
      using r(1) d(1) wf_policyD(2) [OF wf] by (auto simp: list_all_iff)
    have m: "map_of ?ctl (KeyId c) = Some c"
      using map_of_controllers [OF wf_policyD(1) [OF wf]] cw by auto
    have "signature_loop verify ?ctl purpose recovery h sigs (Some (Ed25519PublicKey c))
         (t + ucast (Weight c)) = Inr t'"
      unfolding Cons.IH using r d by (intro exI [of _ ds]) (auto simp: list_all_iff add.assoc)
    then show ?l
      using x m r(3,5) d(1) wf_controllerD(1,2) [OF cw(2)]
      by (auto simp: Let_def GetKeyId_def may_sign_def has_purpose_def not_le split: option.splits)
  qed
qed

lemma sum_weights:
  assumes "list_all wf_controller ds" and "length ds \<le> 64"
  shows "unat (\<Sum>c\<leftarrow>ds. ucast (Weight c) :: u64) = weight_sum (\<lambda>_. True) ds"
proof -
  have "unat (\<Sum>c\<leftarrow>ds. ucast (Weight c) :: u64) = weight_sum (\<lambda>_. True) ds \<and>
      weight_sum (\<lambda>_. True) ds \<le> 1000000 * length ds"
    using assms
  proof (induction ds)
    case (Cons c ds)
    then have IH: "unat (\<Sum>c\<leftarrow>ds. ucast (Weight c) :: u64) = weight_sum (\<lambda>_. True) ds"
      "weight_sum (\<lambda>_. True) ds \<le> 1000000 * length ds" by simp_all
    have w: "unat (Weight c) \<le> 1000000" using Cons.prems wf_controllerD(4) [of c] by simp
    have "unat (ucast (Weight c) :: u64) + unat (\<Sum>c\<leftarrow>ds. ucast (Weight c) :: u64) < 2 ^ 64"
      using IH w Cons.prems by simp
    from unat_add_u64 [OF this] show ?case using IH w by simp
  qed simp
  then show ?thesis ..
qed

lemma VerifySignatures_iff:
  "VerifySignatures verify (Some p) sigs purpose recovery h = Inr () \<longleftrightarrow>
     (\<exists>cs ds. wf_policy p cs \<and> set ds \<subseteq> set cs \<and> sigs \<noteq> [] \<and> length sigs \<le> 64 \<and> length h = 32 \<and>
       list_all2 (signed_by verify h) sigs ds \<and> list_all (may_sign purpose recovery) ds \<and>
       sorted_wrt (<) (map Ed25519PublicKey ds) \<and>
       unat (if recovery then RecoveryThreshold p else Threshold p) \<le> weight_sum (\<lambda>_. True) ds)"
  (is "?l = ?r")
proof -
  let ?th = "if recovery then ucast (RecoveryThreshold p) else ucast (Threshold p) :: u64"
  have th: "unat ?th = unat (if recovery then RecoveryThreshold p else Threshold p)" by simp
  have "?l \<longleftrightarrow> (\<exists>ctl. validatePolicy (Some p) = Inr ctl \<and> sigs \<noteq> [] \<and> length sigs \<le> 64 \<and> length h = 32 \<and>
      (\<exists>t. signature_loop verify ctl purpose recovery h sigs None 0 = Inr t \<and> \<not> t < ?th))"
    by (cases "validatePolicy (Some p)")
      (auto simp: VerifySignatures_def wrap_def Let_def MaxSignatures_def ebind_eq_Inr)
  also have "\<dots> \<longleftrightarrow> ?r"
  proof -
    have "(\<exists>t. signature_loop verify (map (\<lambda>c. (KeyId c, c)) cs) purpose recovery h sigs None 0 = Inr t \<and>
          \<not> t < ?th) \<longleftrightarrow>
        (\<exists>ds. set ds \<subseteq> set cs \<and> list_all2 (signed_by verify h) sigs ds \<and>
          list_all (may_sign purpose recovery) ds \<and> sorted_wrt (<) (map Ed25519PublicKey ds) \<and>
          unat (if recovery then RecoveryThreshold p else Threshold p) \<le> weight_sum (\<lambda>_. True) ds)"
      if wf: "wf_policy p cs" and n: "length sigs \<le> 64" for cs
    proof -
      have k: "\<not> (\<Sum>c\<leftarrow>ds. ucast (Weight c)) < ?th \<longleftrightarrow>
          unat (if recovery then RecoveryThreshold p else Threshold p) \<le> weight_sum (\<lambda>_. True) ds"
        if "set ds \<subseteq> set cs" "list_all2 (signed_by verify h) sigs ds" for ds
      proof -
        have "list_all wf_controller ds"
          using that(1) wf_policyD(2) [OF wf] by (auto simp: list_all_iff)
        moreover have "length ds \<le> 64" using that(2) n by (simp add: list_all2_lengthD)
        ultimately show ?thesis
          using sum_weights th by (simp only: not_less word_le_nat_alt)
      qed
      show ?thesis (is "?a = ?b")
      proof
        assume ?a
        then obtain ds where "set ds \<subseteq> set cs" "list_all2 (signed_by verify h) sigs ds"
          "list_all (may_sign purpose recovery) ds" "sorted_wrt (<) (map Ed25519PublicKey ds)"
          "\<not> (\<Sum>c\<leftarrow>ds. ucast (Weight c)) < ?th"
          unfolding signature_loop_iff [OF wf] by auto
        then show ?b using k by blast
      next
        assume ?b
        then obtain ds where ds: "set ds \<subseteq> set cs" "list_all2 (signed_by verify h) sigs ds"
          "list_all (may_sign purpose recovery) ds" "sorted_wrt (<) (map Ed25519PublicKey ds)"
          "unat (if recovery then RecoveryThreshold p else Threshold p) \<le> weight_sum (\<lambda>_. True) ds"
          by blast
        then have "signature_loop verify (map (\<lambda>c. (KeyId c, c)) cs) purpose recovery h sigs None 0
            = Inr (\<Sum>c\<leftarrow>ds. ucast (Weight c))"
          unfolding signature_loop_iff [OF wf] by auto
        then show ?a using k [OF ds(1,2)] ds(5) by blast
      qed
    qed
    then show ?thesis unfolding validatePolicy_iff by blast
  qed
  finally show ?thesis .
qed

subsection \<open>Possession\<close>

lemma possession_loop_iff:
  assumes wf: "wf_policy p cs"
  shows "possession_loop verify (map (\<lambda>c. (KeyId c, c)) cs) h xs prev \<longleftrightarrow>
    (\<exists>ds. set ds \<subseteq> set cs \<and> list_all2 (signed_by verify h) xs ds \<and>
      distinct_adj ((case prev of None \<Rightarrow> [] | Some q \<Rightarrow> [keyIDHash (SigKeyId q)]) @ map Ed25519PublicKey ds))"
proof (induction xs arbitrary: prev)
  case Nil
  then show ?case by (auto split: option.splits)
next
  case (Cons x xs)
  let ?ctl = "map (\<lambda>c. (KeyId c, c)) cs"
  have pk: "Ed25519PublicKey c = keyIDHash (KeyId c)" if "c \<in> set cs" for c
    using that wf_controllerD(2) [of c] wf_policyD(2) [OF wf] by (simp add: list_all_iff)
  have m: "map_of ?ctl k = Some c \<longleftrightarrow> c \<in> set cs \<and> KeyId c = k" for k c
    by (rule map_of_controllers [OF wf_policyD(1) [OF wf]])
  have "possession_loop verify ?ctl h (x # xs) prev \<longleftrightarrow>
      (\<exists>s c. x = Some s \<and> c \<in> set cs \<and> signed_by verify h x c \<and>
        (\<forall>q. prev = Some q \<longrightarrow> keyIDHash (SigKeyId q) \<noteq> Ed25519PublicKey c) \<and>
        possession_loop verify ?ctl h xs (Some s))"
  proof (cases x)
    case None
    then show ?thesis by simp
  next
    case (Some s)
    show ?thesis
    proof (cases "map_of ?ctl (SigKeyId s)")
      case None
      then have "\<forall>c \<in> set cs. KeyId c \<noteq> SigKeyId s" by (simp add: map_of_eq_None_iff image_image) (metis imageI)
      then show ?thesis using None Some by (simp add: signed_by_def) metis
    next
      case found: (Some c)
      then have c: "c \<in> set cs" "KeyId c = SigKeyId s" using m by auto
      have L: "possession_loop verify ?ctl h (x # xs) prev \<longleftrightarrow> length (Ed25519Signature s) = 64 \<and>
          (\<forall>q. prev = Some q \<longrightarrow> keyIDHash (SigKeyId q) \<noteq> keyIDHash (SigKeyId s)) \<and>
          verify (Ed25519PublicKey c) h (Ed25519Signature s) \<and> possession_loop verify ?ctl h xs (Some s)"
        using found Some by (simp split: option.split)
      have R: "c' \<in> set cs \<and> signed_by verify h x c' \<longleftrightarrow> c' = c \<and> length (Ed25519Signature s) = 64 \<and>
          verify (Ed25519PublicKey c) h (Ed25519Signature s)" for c'
        using m [of "SigKeyId s" c'] found c Some by (auto simp: signed_by_def)
      have pkc: "keyIDHash (SigKeyId s) = Ed25519PublicKey c" using pk [OF c(1)] c(2) by simp
      have "(\<exists>s c. x = Some s \<and> c \<in> set cs \<and> signed_by verify h x c \<and>
          (\<forall>q. prev = Some q \<longrightarrow> keyIDHash (SigKeyId q) \<noteq> Ed25519PublicKey c) \<and>
          possession_loop verify ?ctl h xs (Some s)) \<longleftrightarrow>
        (\<exists>c'. (c' \<in> set cs \<and> signed_by verify h x c') \<and>
          (\<forall>q. prev = Some q \<longrightarrow> keyIDHash (SigKeyId q) \<noteq> Ed25519PublicKey c') \<and>
          possession_loop verify ?ctl h xs (Some s))"
        by (simp only: Some option.inject simp_thms ex_simps conj_assoc)
      then show ?thesis unfolding L pkc R by blast
    qed
  qed
  also have "\<dots> \<longleftrightarrow> (\<exists>c ds. c \<in> set cs \<and> signed_by verify h x c \<and> set ds \<subseteq> set cs \<and>
        list_all2 (signed_by verify h) xs ds \<and>
        (\<forall>q. prev = Some q \<longrightarrow> keyIDHash (SigKeyId q) \<noteq> Ed25519PublicKey c) \<and>
        distinct_adj (Ed25519PublicKey c # map Ed25519PublicKey ds))"
  proof -
    have rest: "possession_loop verify ?ctl h xs (Some s) \<longleftrightarrow> (\<exists>ds. set ds \<subseteq> set cs \<and>
        list_all2 (signed_by verify h) xs ds \<and> distinct_adj (Ed25519PublicKey c # map Ed25519PublicKey ds))"
      if "x = Some s" "c \<in> set cs" "signed_by verify h x c" for s c
    proof -
      have "keyIDHash (SigKeyId s) = Ed25519PublicKey c"
        using pk [OF that(2)] that(1,3) by (simp add: signed_by_def)
      then show ?thesis using Cons.IH [of "Some s"] by simp
    qed
    have "\<exists>s. x = Some s" if "signed_by verify h x c" for c
      using that by (cases x) (simp_all add: signed_by_def)
    then show ?thesis using rest by blast
  qed
  also have "\<dots> \<longleftrightarrow> (\<exists>ds. set ds \<subseteq> set cs \<and> list_all2 (signed_by verify h) (x # xs) ds \<and>
      distinct_adj ((case prev of None \<Rightarrow> [] | Some q \<Rightarrow> [keyIDHash (SigKeyId q)]) @ map Ed25519PublicKey ds))"
  proof -
    have split: "(\<exists>ds. set ds \<subseteq> set cs \<and> list_all2 (signed_by verify h) (x # xs) ds \<and> Q ds) \<longleftrightarrow>
        (\<exists>c ds. c \<in> set cs \<and> signed_by verify h x c \<and> set ds \<subseteq> set cs \<and>
          list_all2 (signed_by verify h) xs ds \<and> Q (c # ds))" (is "?a = ?b") for Q
    proof
      assume ?a
      then obtain c ds where "c \<in> set cs" "signed_by verify h x c" "set ds \<subseteq> set cs"
        "list_all2 (signed_by verify h) xs ds" "Q (c # ds)" by (auto simp: list_all2_Cons1)
      then show ?b by blast
    next
      assume ?b
      then obtain c ds where "c \<in> set cs" "signed_by verify h x c" "set ds \<subseteq> set cs"
        "list_all2 (signed_by verify h) xs ds" "Q (c # ds)" by blast
      then show ?a by (intro exI [of _ "c # ds"]) simp
    qed
    show ?thesis unfolding split by (cases prev) simp_all
  qed
  finally show ?case .
qed

lemma sorted_distinct_adj: "sorted xs \<Longrightarrow> distinct_adj xs \<Longrightarrow> distinct (xs :: 'a :: linorder list)"
proof (induction xs rule: induct_list012)
  case (3 x y zs)
  then have "distinct (y # zs)" "x < y" by (auto simp: order_less_le)
  moreover have "\<forall>z \<in> set (y # zs). y \<le> z" using 3 by auto
  ultimately show ?case by fastforce
qed simp_all

lemma distinct_imp_adj: "distinct xs \<Longrightarrow> distinct_adj xs"
  by (induction xs rule: induct_list012) auto

lemma signed_by_key: "signed_by verify h x c \<Longrightarrow> GetKeyId x = KeyId c"
  by (auto simp: signed_by_def GetKeyId_def split: option.splits)

lemma public_keys_distinct:
  assumes "wf_policy p cs"
  shows "inj_on Ed25519PublicKey (set cs)"
proof (rule inj_onI)
  fix c d assume cd: "c \<in> set cs" "d \<in> set cs" "Ed25519PublicKey c = Ed25519PublicKey d"
  have wf: "wf_controller c" "wf_controller d"
    using cd wf_policyD(2) [OF assms] by (simp_all add: list_all_iff)
  then have "KeyId c = KeyId d"
    using cd(3) wf_controllerD(1,2) keyIDHash_inj by metis
  then show "c = d" using wf_policyD(1) [OF assms] cd by (simp add: distinct_map inj_on_def)
qed

lemma possession_sound:
  assumes wf: "wf_policy p cs" and len: "length sigs = length cs"
    and ok: "possession_loop verify (map (\<lambda>c. (KeyId c, c)) cs) h
      (sort_key (\<lambda>s. keyIDHash (GetKeyId s)) sigs) None"
  shows "\<forall>c \<in> set cs. \<exists>x \<in> set sigs. signed_by verify h x c"
proof -
  let ?o = "sort_key (\<lambda>s. keyIDHash (GetKeyId s)) sigs"
  have pk: "Ed25519PublicKey c = keyIDHash (KeyId c)" if "c \<in> set cs" for c
    using that wf_controllerD(2) [of c] wf_policyD(2) [OF wf] by (simp add: list_all_iff)
  have dcs: "distinct cs" using wf_policyD(1) [OF wf] by (simp add: distinct_map)
  obtain ds where ds: "set ds \<subseteq> set cs" "list_all2 (signed_by verify h) ?o ds"
    "distinct_adj (map Ed25519PublicKey ds)"
    using ok unfolding possession_loop_iff [OF wf] by auto
  have keys: "map (\<lambda>s. keyIDHash (GetKeyId s)) ?o = map Ed25519PublicKey ds"
    using ds(1,2)
  proof (induction rule: list_all2_induct [OF ds(2)])
    case (2 x xs y ys)
    then show ?case using pk signed_by_key by simp
  qed simp
  have "sorted (map Ed25519PublicKey ds)" using keys sorted_sort_key by metis
  then have "distinct (map Ed25519PublicKey ds)" using ds(3) by (rule sorted_distinct_adj)
  then have "distinct ds" by (simp add: distinct_map)
  moreover have "length ds = length cs" using ds(2) len by (simp add: list_all2_lengthD [symmetric])
  ultimately have "set ds = set cs"
    using ds(1) dcs by (metis List.finite_set card_subset_eq distinct_card)
  then show ?thesis
    using ds(2) by (metis in_set_conv_nth list_all2_conv_all_nth nth_mem set_sort)
qed

lemma possession_complete:
  assumes wf: "wf_policy p cs" and len: "length sigs = length cs"
    and r: "\<forall>c \<in> set cs. \<exists>x \<in> set sigs. signed_by verify h x c"
  shows "possession_loop verify (map (\<lambda>c. (KeyId c, c)) cs) h
      (sort_key (\<lambda>s. keyIDHash (GetKeyId s)) sigs) None"
proof -
  let ?o = "sort_key (\<lambda>s. keyIDHash (GetKeyId s)) sigs"
  have inj: "inj_on KeyId (set cs)" and dcs: "distinct cs"
    using wf_policyD(1) [OF wf] by (simp_all add: distinct_map)
  obtain f where f: "\<And>c. c \<in> set cs \<Longrightarrow> f c \<in> set sigs \<and> signed_by verify h (f c) c"
    using r by metis
  have fi: "inj_on f (set cs)"
    using f inj signed_by_key by (metis inj_on_def)
  have card: "card (f ` set cs) = length sigs"
    using card_image [OF fi] distinct_card [OF dcs] len by simp
  have sub: "f ` set cs \<subseteq> set sigs" using f by auto
  then have eq: "card (f ` set cs) = card (set sigs)" "card (set sigs) = length sigs"
    using card card_length [of sigs] card_mono [OF _ sub] by simp_all
  have all: "f ` set cs = set sigs" by (rule card_subset_eq [OF _ sub eq(1)]) simp
  define g where "g = inv_into (set cs) f"
  have g: "x \<in> set sigs \<Longrightarrow> g x \<in> set cs \<and> signed_by verify h x (g x)" for x
    using all f unfolding g_def by (metis f_inv_into_f inv_into_into)
  have ig: "inj_on g (set sigs)" using all unfolding g_def by (metis inj_on_inv_into order_refl)
  let ?ds = "map g ?o"
  have so: "set ?o = set sigs" "distinct ?o" using card_distinct [OF eq(2)] by simp_all
  have dg: "distinct ?ds" using ig so by (simp add: distinct_map)
  have ds: "set ?ds \<subseteq> set cs" using g so by auto
  have "distinct (map Ed25519PublicKey ?ds)"
    using dg inj_on_subset [OF public_keys_distinct [OF wf] ds] by (simp only: distinct_map simp_thms)
  moreover have "list_all2 (signed_by verify h) ?o ?ds"
    unfolding list_all2_map2 using g so(1) by (auto simp: list_all2_same)
  ultimately show ?thesis
    unfolding possession_loop_iff [OF wf]
    using ds distinct_imp_adj by (intro exI [of _ ?ds]) simp
qed

lemma VerifyPolicyPossession_iff:
  "VerifyPolicyPossession verify (Some p) sigs h = Inr () \<longleftrightarrow>
     (\<exists>cs. wf_policy p cs \<and> length sigs = length cs \<and> length h = 32 \<and>
       (\<forall>c \<in> set cs. \<exists>x \<in> set sigs. signed_by verify h x c))"
proof -
  have "VerifyPolicyPossession verify (Some p) sigs h = Inr () \<longleftrightarrow>
      (\<exists>ctl. validatePolicy (Some p) = Inr ctl \<and> length sigs = length ctl \<and> length h = 32 \<and>
        possession_loop verify ctl h (sort_key (\<lambda>s. keyIDHash (GetKeyId s)) sigs) None)"
    by (cases "validatePolicy (Some p)")
      (auto simp: VerifyPolicyPossession_def wrap_def Let_def)
  also have "\<dots> \<longleftrightarrow> (\<exists>cs. wf_policy p cs \<and> length sigs = length cs \<and> length h = 32 \<and>
        possession_loop verify (map (\<lambda>c. (KeyId c, c)) cs) h
          (sort_key (\<lambda>s. keyIDHash (GetKeyId s)) sigs) None)"
    unfolding validatePolicy_iff by (metis (no_types, lifting) length_map)
  finally show ?thesis using possession_sound possession_complete by blast
qed

subsection \<open>An accepted policy can act\<close>

definition signature_of :: "(bytes \<Rightarrow> bytes) \<Rightarrow> ControllerV1 \<Rightarrow> SignatureV1 option" where
  "signature_of sign c = Some \<lparr>SigKeyId = KeyId c, Ed25519Signature = sign (Ed25519PublicKey c)\<rparr>"

definition signers :: "u32 \<Rightarrow> bool \<Rightarrow> (string \<times> ControllerV1) list \<Rightarrow> ControllerV1 list" where
  "signers purpose recovery ctl =
     sort_key Ed25519PublicKey (filter (may_sign purpose recovery) (map snd ctl))"

definition served_purposes :: "(u32 \<times> bool) list" where
  "served_purposes = [(PurposeAgentControl, False), (PurposeDelegation, False),
     (PurposeCapabilityControl, False), (PurposeRecovery, True)]"

lemma weight_sum_filter: "weight_sum (\<lambda>_. True) (filter P cs) = weight_sum P cs"
  by (induction cs) simp_all

lemma weight_sum_sort: "weight_sum P (sort_key f cs) = weight_sum P cs"
  unfolding weight_sum_def sum_mset_sum_list [symmetric] by simp

lemma weight_sum_cong: "(\<And>c. c \<in> set cs \<Longrightarrow> P c = Q c) \<Longrightarrow> weight_sum P cs = weight_sum Q cs"
  by (induction cs) simp_all

lemma signers_weight:
  assumes "wf_policy p cs" and "(purpose, recovery) \<in> set served_purposes"
  shows "unat (if recovery then RecoveryThreshold p else Threshold p)
    \<le> weight_sum (\<lambda>_. True) (signers purpose recovery (map (\<lambda>c. (KeyId c, c)) cs))"
proof -
  have r: "Recovery c = has_purpose PurposeRecovery c" if "c \<in> set cs" for c
    using that assms(1) by (simp add: wf_policy_def list_all_iff wf_controller_def)
  have "weight_sum (may_sign PurposeRecovery True) cs = weight_sum (has_purpose PurposeRecovery) cs"
    by (rule weight_sum_cong) (simp add: may_sign_def r)
  moreover have "weight_sum (may_sign u False) cs = weight_sum (has_purpose u) cs" for u
    by (rule weight_sum_cong) (simp add: may_sign_def)
  ultimately show ?thesis
    using assms(2) assms(1) [unfolded wf_policy_def]
    by (auto simp: served_purposes_def signers_def weight_sum_sort weight_sum_filter comp_def)
qed

lemma signers_accepted:
  assumes wf: "wf_policy p cs" and pr: "(purpose, recovery) \<in> set served_purposes"
    and h: "length h = 32"
    and sign: "\<And>c. c \<in> set cs \<Longrightarrow> signed_by verify h (signature_of sign c) c"
  shows "VerifySignatures verify (Some p)
    (map (signature_of sign) (signers purpose recovery (map (\<lambda>c. (KeyId c, c)) cs))) purpose recovery h = Inr ()"
proof -
  let ?ds = "signers purpose recovery (map (\<lambda>c. (KeyId c, c)) cs)"
  have set: "set ?ds \<subseteq> set cs" "\<forall>c \<in> set ?ds. may_sign purpose recovery c"
    by (auto simp: signers_def)
  have "0 < unat (if recovery then RecoveryThreshold p else Threshold p)"
    using wf by (simp add: wf_policy_def)
  then have ne: "?ds \<noteq> []" using signers_weight [OF wf pr] by auto
  have "length ?ds \<le> length cs"
    by (simp add: signers_def comp_def)
  then have len: "length ?ds \<le> 64" using wf_policyD(3) [OF wf] by simp
  have "distinct cs" using wf_policyD(1) [OF wf] by (simp add: distinct_map)
  then have "distinct ?ds" by (simp add: signers_def comp_def)
  then have "distinct (map Ed25519PublicKey ?ds)"
    using inj_on_subset [OF public_keys_distinct [OF wf] set(1)] by (simp add: distinct_map)
  moreover have "sorted (map Ed25519PublicKey ?ds)" by (simp add: signers_def)
  ultimately have st: "sorted_wrt (<) (map Ed25519PublicKey ?ds)" by (simp only: strict_sorted_iff simp_thms)
  show ?thesis
    unfolding VerifySignatures_iff
  proof (rule exI [of _ cs], rule exI [of _ ?ds], intro conjI)
    show "list_all2 (signed_by verify h) (map (signature_of sign) ?ds) ?ds"
      using set(1) sign by (auto simp: list_all2_map1 list_all2_same)
    show "list_all (may_sign purpose recovery) ?ds" using set(2) by (simp add: list_all_iff)
  qed (use wf set(1) ne len h st signers_weight [OF wf pr] in simp_all)
qed

subsection \<open>Properties\<close>

definition sample_pk :: bytes where
  "sample_pk = replicate 32 1"

definition sample_controller :: ControllerV1 where
  "sample_controller = \<lparr>KeyId = ''ed25519:'' @ hex_encode sample_pk, Ed25519PublicKey = sample_pk,
     Weight = 1, PurposeMask = 15, Recovery = True\<rparr>"

definition sample_policy :: ControllerPolicyV1 where
  "sample_policy = \<lparr>Threshold = 1, RecoveryThreshold = 1, RecoveryTimelockSeconds = 0,
     Controllers = [Some sample_controller]\<rparr>"

lemma sample_policy_wf: "wf_policy sample_policy [sample_controller]"
proof -
  have "sample_pk \<noteq> zero_bytes 32" "length sample_pk = 32"
    by (simp_all add: sample_pk_def zero_bytes_def)
  then have "validKeyID (''ed25519:'' @ hex_encode sample_pk)"
    unfolding validKeyID_iff by blast
  then have "wf_controller sample_controller"
    unfolding wf_controller_def sample_controller_def has_purpose_def PurposeRecovery_def
    by (simp add: keyIDHash_key del: append_Cons)
  then show ?thesis
    by (simp add: wf_policy_def sample_policy_def has_purpose_def sample_controller_def
        PurposeAgentControl_def PurposeDelegation_def PurposeCapabilityControl_def PurposeRecovery_def)
qed

text \<open>C21: A policy is accepted exactly when it is well formed: between one and sixty-four
  controllers with canonical, pairwise different keys, weights between one and a million and known
  purposes, both thresholds positive and reachable by the controllers of every purpose they guard,
  and a recovery time lock of at most a year. The controller table returned is the policy's own
  list, and the 64-bit totals of the loop never wrap.\<close>

theorem policy_accepted_iff_wellformed:
  "validatePolicy policy = Inr ctl \<longleftrightarrow>
     (\<exists>p cs. policy = Some p \<and> wf_policy p cs \<and> ctl = map (\<lambda>c. (KeyId c, c)) cs)"
  using validatePolicy_iff by (cases policy) (simp_all add: validatePolicy_def)

text \<open>C20: Signatures are accepted exactly when they come, one each and in increasing key order,
  from controllers of a well-formed policy that may act for the purpose (and, in recovery, are
  recovery controllers), every signature verifies over the 32-byte action hash, and the signers'
  weights reach the threshold in true arithmetic. No controller is ever counted twice.\<close>

theorem signatures_accepted_iff:
  "VerifySignatures verify (Some p) sigs purpose recovery h = Inr () \<longleftrightarrow>
     (\<exists>cs ds. wf_policy p cs \<and> set ds \<subseteq> set cs \<and> sigs \<noteq> [] \<and> length sigs \<le> 64 \<and> length h = 32 \<and>
       list_all2 (signed_by verify h) sigs ds \<and> list_all (may_sign purpose recovery) ds \<and>
       sorted_wrt (<) (map Ed25519PublicKey ds) \<and>
       unat (if recovery then RecoveryThreshold p else Threshold p) \<le> weight_sum (\<lambda>_. True) ds)"
  by (rule VerifySignatures_iff)

text \<open>Possession of a policy is proved exactly when every one of its controllers signed the
  action hash, with as many signatures as controllers, in whatever order they are presented.\<close>

theorem possession_accepted_iff:
  "VerifyPolicyPossession verify (Some p) sigs h = Inr () \<longleftrightarrow>
     (\<exists>cs. wf_policy p cs \<and> length sigs = length cs \<and> length h = 32 \<and>
       list_all (\<lambda>c. list_ex (\<lambda>x. signed_by verify h x c) sigs) cs)"
  unfolding VerifyPolicyPossession_iff by (simp add: list_all_iff list_ex_iff)

text \<open>C22: No accepted policy is locked out: for every purpose the protocol uses, and for recovery,
  the signatures of all controllers entitled to it, in key order, pass verification.\<close>

theorem accepted_policy_can_act:
  assumes "validatePolicy (Some p) = Inr ctl" and "(purpose, recovery) \<in> set served_purposes"
    and "length h = 32"
    and "\<And>c. c \<in> set (map snd ctl) \<Longrightarrow>
           length (sign (Ed25519PublicKey c)) = 64 \<and> verify (Ed25519PublicKey c) h (sign (Ed25519PublicKey c))"
  shows "VerifySignatures verify (Some p) (map (signature_of sign) (signers purpose recovery ctl))
    purpose recovery h = Inr ()"
proof -
  obtain cs where cs: "wf_policy p cs" "ctl = map (\<lambda>c. (KeyId c, c)) cs"
    using assms(1) unfolding validatePolicy_iff by blast
  have "signed_by verify h (signature_of sign c) c" if "c \<in> set cs" for c
    using assms(4) [of c] that cs(2) by (simp add: signed_by_def signature_of_def comp_def)
  then show ?thesis unfolding cs(2) by (rule signers_accepted [OF cs(1) assms(2,3)])
qed

theorem accepted_policy_can_act_witness:
  "VerifySignatures (\<lambda>pk h s. s = pk @ h) (Some sample_policy)
    (map (signature_of (\<lambda>pk. pk @ replicate 32 7)) (signers PurposeRecovery True
      [(KeyId sample_controller, sample_controller)])) PurposeRecovery True (replicate 32 7) = Inr ()"
proof (rule accepted_policy_can_act)
  show "validatePolicy (Some sample_policy) = Inr [(KeyId sample_controller, sample_controller)]"
    unfolding validatePolicy_iff using sample_policy_wf by (intro exI [of _ "[sample_controller]"]) simp
qed (auto simp: served_purposes_def sample_controller_def sample_pk_def)

text \<open>C23: Object identifiers have one spelling: the parser accepts exactly the lower-case
  hexadecimal rendering, under the prefix of their kind, of the non-zero 32-byte identifiers, and
  returns that identifier and kind. So two accepted strings name the same object exactly when they
  are equal.\<close>

theorem identifiers_have_one_spelling:
  "objectID v = Inr (raw, kind) \<longleftrightarrow> length raw = 32 \<and> raw \<noteq> zero_bytes 32 \<and>
     (kind = 1 \<and> v = ''agent_'' @ hex_encode raw \<or> kind = 2 \<and> v = ''cap_'' @ hex_encode raw)"
  by (rule objectID_iff)

end
