(* ===== verification/Native_State.thy ===== *)
theory Native_State
  imports Native_Policy
begin

text \<open>
  The finalized Native objects that the chain readers hand to their clients: the messages of
  \<^verbatim>\<open>gen/tos/service/v1/native.pb.go\<close> read by the execution gate and the relayer. Nil-able message
  pointers are options; the bookkeeping fields of the protobuf runtime are left out.
\<close>

record ChainReference =
  RefWorkchain :: int
  RefAccount :: string
  RefLogicalTime :: u64
  RefTransactionHash :: string
  RefContractCodeHash :: string
  RefFinalizedCheckpoint :: u64

record AgentStateV1 =
  AgentId :: string
  AgentGeneration :: u64
  AgentSequence :: u64
  AgentLastActionHash :: string
  AgentPolicy :: "ControllerPolicyV1 option"
  DelegationDigests :: "string list"
  RecoveryExecuteAfterUnixSeconds :: u64
  RecoveryInitiationActionHash :: string
  RecoveryPolicy :: "ControllerPolicyV1 option"
  AgentTombstoned :: bool
  RecoveryInitiatingPolicyHash :: string

record CapabilityStateV1 =
  CapabilityId :: string
  CapabilityGeneration :: u64
  CapabilitySequence :: u64
  CapabilityLastActionHash :: string
  OwnerAgentId :: string
  CapabilityVersions :: "CapabilityVersionV1 option list"
  CapabilityTombstoned :: bool

datatype native_object = AgentObject AgentStateV1 | CapabilityObject CapabilityStateV1

record NativeStateV1 =
  StateNetwork :: "NetworkDomain option"
  TvmStateHash :: string
  StateReference :: "ChainReference option"
  StateObject :: "native_object option"

definition GetAgent :: "NativeStateV1 \<Rightarrow> AgentStateV1 option" where
  "GetAgent s = (case StateObject s of Some (AgentObject a) \<Rightarrow> Some a | _ \<Rightarrow> None)"

definition GetCapability :: "NativeStateV1 \<Rightarrow> CapabilityStateV1 option" where
  "GetCapability s = (case StateObject s of Some (CapabilityObject c) \<Rightarrow> Some c | _ \<Rightarrow> None)"

end
