(* ===== verification/Go_Text.thy ===== *)
theory Go_Text
  imports Go_Prelude
begin

text \<open>
  Text of the Go standard library beyond the prelude: UTF-8 (\<^verbatim>\<open>unicode/utf8\<close>), Base64 encoding
  (\<^verbatim>\<open>base64.StdEncoding\<close>, \<^verbatim>\<open>base64.RawURLEncoding\<close>), and the bounded identifiers and canonical digests
  that the agent packages share.
\<close>

subsection \<open>UTF-8\<close>

text \<open>The length of the encoded rune at the head of a string, zero when the head is no valid encoding
  (the table of well-formed byte sequences of the Unicode standard).\<close>

definition in_range :: "nat \<Rightarrow> nat \<Rightarrow> char \<Rightarrow> bool" where
  "in_range lo hi c = (lo \<le> (of_char c :: nat) \<and> (of_char c :: nat) \<le> hi)"

fun tail_len :: "(nat \<times> nat) list \<Rightarrow> string \<Rightarrow> bool" where
  "tail_len [] s = True"
| "tail_len ((lo, hi) # rs) [] = False"
| "tail_len ((lo, hi) # rs) (c # s) = (in_range lo hi c \<and> tail_len rs s)"

fun utf8_len :: "string \<Rightarrow> nat" where
  "utf8_len [] = 0"
| "utf8_len (a # s) =
     (let ok = (\<lambda>n rs. if tail_len rs s then n else 0); more = (128, 191) in
      if in_range 0 127 a then 1
      else if in_range 194 223 a then ok 2 [more]
      else if in_range 224 224 a then ok 3 [(160, 191), more]
      else if in_range 225 236 a \<or> in_range 238 239 a then ok 3 [more, more]
      else if in_range 237 237 a then ok 3 [(128, 159), more]
      else if in_range 240 240 a then ok 4 [(144, 191), more, more]
      else if in_range 241 243 a then ok 4 [more, more, more]
      else if in_range 244 244 a then ok 4 [(128, 143), more, more]
      else 0)"

declare utf8_len.simps [simp del]

lemma utf8_len_Nil [simp]: "utf8_len [] = 0"
  by (simp add: utf8_len.simps)

function ValidString :: "string \<Rightarrow> bool" where
  "ValidString s = (if s = [] then True else if utf8_len s = 0 then False else ValidString (drop (utf8_len s) s))"
  by pat_completeness auto

termination by (relation "measure length") auto

declare ValidString.simps [simp del]

text \<open>What \<^verbatim>\<open>json.Marshal\<close> makes of a string: every byte that starts no valid rune becomes U+FFFD.\<close>

function json_text :: "string \<Rightarrow> string" where
  "json_text s =
     (if s = [] then []
      else if utf8_len s = 0 then [CHR 0xEF, CHR 0xBF, CHR 0xBD] @ json_text (tl s)
      else take (utf8_len s) s @ json_text (drop (utf8_len s) s))"
  by pat_completeness auto

termination by (relation "measure length") auto

declare json_text.simps [simp del]

lemma ValidString_Nil [simp]: "ValidString []"
  by (simp add: ValidString.simps)

lemma json_text_Nil [simp]: "json_text [] = []"
  by (simp add: json_text.simps)

lemma json_text_valid: "ValidString s \<Longrightarrow> json_text s = s"
proof (induction s rule: ValidString.induct)
  case (1 s)
  then show ?case by (subst json_text.simps) (auto simp: ValidString.simps [of s])
qed

definition ascii :: "char \<Rightarrow> bool" where
  "ascii c = ((of_char c :: nat) < 128)"

lemma ValidString_ascii: "list_all ascii s \<Longrightarrow> ValidString s"
proof (induction s)
  case (Cons c s)
  then have "utf8_len (c # s) = 1" by (simp add: utf8_len.simps in_range_def ascii_def)
  with Cons show ?case by (subst ValidString.simps) simp
qed simp

subsection \<open>Base64 encoding\<close>

text \<open>The sextets of a byte string, three bytes to four of them; the last group may be short.\<close>

fun sextets :: "bytes \<Rightarrow> nat list" where
  "sextets [] = []"
| "sextets [a] = [unat a div 4, 16 * (unat a mod 4)]"
| "sextets [a, b] = [unat a div 4, 16 * (unat a mod 4) + unat b div 16, 4 * (unat b mod 16)]"
| "sextets (a # b # c # r) =
     [unat a div 4, 16 * (unat a mod 4) + unat b div 16, 4 * (unat b mod 16) + unat c div 64, unat c mod 64] @ sextets r"

fun unsextets :: "nat list \<Rightarrow> bytes option" where
  "unsextets [] = Some []"
| "unsextets [x] = None"
| "unsextets [x, y] = Some [of_nat (4 * x + y div 16)]"
| "unsextets [x, y, z] = Some [of_nat (4 * x + y div 16), of_nat (16 * (y mod 16) + z div 4)]"
| "unsextets (x # y # z # w # r) =
     map_option (\<lambda>t. [of_nat (4 * x + y div 16), of_nat (16 * (y mod 16) + z div 4), of_nat (64 * (z mod 4) + w)] @ t)
       (unsextets r)"

definition std_alphabet :: string where
  "std_alphabet = ''ABCDEFGHIJKLMNOPQRSTUVWXYZabcdefghijklmnopqrstuvwxyz0123456789+/''"

definition url_alphabet :: string where
  "url_alphabet = ''ABCDEFGHIJKLMNOPQRSTUVWXYZabcdefghijklmnopqrstuvwxyz0123456789-_''"

definition base64_encode :: "bytes \<Rightarrow> string" where
  "base64_encode b = (let t = map (\<lambda>n. std_alphabet ! n) (sextets b) in t @ replicate ((4 - length t mod 4) mod 4) (CHR ''=''))"

definition rawurl_encode :: "bytes \<Rightarrow> string" where
  "rawurl_encode b = map (\<lambda>n. url_alphabet ! n) (sextets b)"

text \<open>\<^verbatim>\<open>RawURLEncoding.DecodeString\<close>: line breaks are skipped, the unused bits of a short group are ignored.\<close>

definition unurl :: "char \<Rightarrow> nat option" where
  "unurl c = (if c \<in> set url_alphabet then Some (length (takeWhile (\<lambda>d. d \<noteq> c) url_alphabet)) else None)"

definition rawurl_decode :: "string \<Rightarrow> bytes option" where
  "rawurl_decode s =
     (let t = filter (\<lambda>c. (of_char c :: nat) \<noteq> 10 \<and> (of_char c :: nat) \<noteq> 13) s in
      Option.bind (those (map unurl t)) unsextets)"

lemma sextets_64: "n \<in> set (sextets b) \<Longrightarrow> n < 64"
proof (induction b rule: sextets.induct)
  case (2 a)
  then show ?case using unat_u8_less [of a] by auto
next
  case (3 a b)
  then show ?case using unat_u8_less [of a] unat_u8_less [of b] by auto
next
  case (4 a b c r)
  then show ?case using unat_u8_less [of a] unat_u8_less [of b] unat_u8_less [of c] by auto
qed simp

lemma of_nat_eq_u8: "n = unat (w :: u8) \<Longrightarrow> of_nat n = w"
  by simp

lemma unsextets_sextets: "unsextets (sextets b) = Some b"
proof (induction b rule: sextets.induct)
  case (2 a)
  show ?case by (simp add: of_nat_eq_u8 [of _ a] del: of_nat_add of_nat_mult)
next
  case (3 a b)
  have "4 * (unat a div 4) + (16 * (unat a mod 4) + unat b div 16) div 16 = unat a"
    using unat_u8_less [of b] by (simp add: less_mult_imp_div_less)
  moreover have "16 * ((16 * (unat a mod 4) + unat b div 16) mod 16) + 4 * (unat b mod 16) div 4 = unat b"
    using unat_u8_less [of b] by (simp add: less_mult_imp_div_less)
  ultimately show ?case by (simp only: sextets.simps unsextets.simps of_nat_eq_u8)
next
  case (4 a b c r)
  have "4 * (unat a div 4) + (16 * (unat a mod 4) + unat b div 16) div 16 = unat a"
    using unat_u8_less [of b] by (simp add: less_mult_imp_div_less)
  moreover have "16 * ((16 * (unat a mod 4) + unat b div 16) mod 16) + (4 * (unat b mod 16) + unat c div 64) div 4 = unat b"
    using unat_u8_less [of b] unat_u8_less [of c] by (simp add: less_mult_imp_div_less)
  moreover have "64 * ((4 * (unat b mod 16) + unat c div 64) mod 4) + unat c mod 64 = unat c"
    using unat_u8_less [of c] by (simp add: less_mult_imp_div_less)
  ultimately show ?case using 4 by (simp only: sextets.simps unsextets.simps of_nat_eq_u8 append.simps option.map)
qed simp

lemma unurl_alphabet: "n < 64 \<Longrightarrow> unurl (url_alphabet ! n) = Some n"
proof -
  assume n: "n < 64"
  have d: "distinct url_alphabet" "length url_alphabet = 64" by code_simp+
  have "takeWhile (\<lambda>d. d \<noteq> url_alphabet ! n) url_alphabet = take n url_alphabet"
    using d n by (intro takeWhile_eq_take_P_nth) (auto simp: nth_eq_iff_index_eq)
  with n d(2) show ?thesis by (simp add: unurl_def)
qed

lemma alphabet_graphic:
  "n < 64 \<Longrightarrow> graphic (url_alphabet ! n)" "n < 64 \<Longrightarrow> graphic (std_alphabet ! n) \<and> std_alphabet ! n \<noteq> CHR ''=''"
proof -
  have "list_all graphic url_alphabet" "length url_alphabet = 64"
    "list_all (\<lambda>c. graphic c \<and> c \<noteq> CHR ''='') std_alphabet" "length std_alphabet = 64"
    by code_simp+
  then show "n < 64 \<Longrightarrow> graphic (url_alphabet ! n)" "n < 64 \<Longrightarrow> graphic (std_alphabet ! n) \<and> std_alphabet ! n \<noteq> CHR ''=''"
    by (auto simp: list_all_length)
qed

lemma rawurl_decode_encode [simp]: "rawurl_decode (rawurl_encode b) = Some b"
proof -
  have "filter (\<lambda>c. (of_char c :: nat) \<noteq> 10 \<and> (of_char c :: nat) \<noteq> 13) (rawurl_encode b) = rawurl_encode b"
    using alphabet_graphic(1) [OF sextets_64] by (intro filter_True) (fastforce simp: rawurl_encode_def graphic_def)
  moreover have "those (map unurl (map (\<lambda>n. url_alphabet ! n) ns)) = Some ns" if "\<forall>n\<in>set ns. n < 64" for ns
    using that by (induction ns) (simp_all add: unurl_alphabet)
  ultimately show ?thesis
    using sextets_64 by (simp add: rawurl_decode_def rawurl_encode_def unsextets_sextets Let_def)
qed

lemma base64_encode_graphic: "c \<in> set (base64_encode b) \<Longrightarrow> graphic c"
  using alphabet_graphic(2) [OF sextets_64] by (auto simp: base64_encode_def Let_def graphic_def)

lemma base64_encode_inj: "base64_encode a = base64_encode b \<longleftrightarrow> a = b"
proof
  have inj: "inj_on (\<lambda>n. std_alphabet ! n) {n. n < 64}"
  proof -
    have "distinct std_alphabet" "length std_alphabet = 64" by code_simp+
    then show ?thesis by (auto intro!: inj_onI simp: nth_eq_iff_index_eq)
  qed
  have part: "filter (\<lambda>c. c \<noteq> CHR ''='') (base64_encode x) = map (\<lambda>n. std_alphabet ! n) (sextets x)" for x
    using alphabet_graphic(2) [OF sextets_64] by (simp add: base64_encode_def Let_def filter_True)
  assume "base64_encode a = base64_encode b"
  then have "map (\<lambda>n. std_alphabet ! n) (sextets a) = map (\<lambda>n. std_alphabet ! n) (sextets b)"
    using part by metis
  then have "sextets a = sextets b"
    by (rule map_inj_on) (auto intro: inj_on_subset [OF inj] sextets_64)
  then show "a = b" by (metis unsextets_sextets option.inject)
qed simp

lemma base64_encode_valid [simp]: "ValidString (base64_encode b)" "json_text (base64_encode b) = base64_encode b"
proof -
  show "ValidString (base64_encode b)"
    using base64_encode_graphic by (intro ValidString_ascii) (fastforce simp: list_all_iff ascii_def graphic_def)
  then show "json_text (base64_encode b) = base64_encode b" by (rule json_text_valid)
qed

end
