(* ===== verification/Codec.thy ===== *)
theory Codec
  imports Go_Text
begin

text \<open>
  The canonical codec (\<^verbatim>\<open>pkg/codec/canonical.go\<close>). A value is written as JSON, read back token by token
  under the nesting, item and size limits, and encoded as deterministic CBOR; decoding accepts only the
  exact bytes that encoding writes. The CBOR library is a parameter: its encoder and its decoder under
  the options of \<^verbatim>\<open>init\<close>. \<^verbatim>\<open>json.Marshal\<close> of a value is its JSON tree, whose tokens the decoder reads
  in order, together with the number of bytes it writes.
\<close>

subsection \<open>Limits and values\<close>

definition MaxCanonicalBytes :: nat where "MaxCanonicalBytes = 1048576"
definition MaxJSONBytes :: nat where "MaxJSONBytes = 2097152"
definition MaxNestedLevels :: nat where "MaxNestedLevels = 16"
definition MaxCollectionItems :: nat where "MaxCollectionItems = 4096"
definition MaxTotalItems :: nat where "MaxTotalItems = 16384"
definition MaxStringBytes :: nat where "MaxStringBytes = 1048576"

text \<open>JSON values as \<^verbatim>\<open>json.Marshal\<close> writes them (members in writing order) and as \<^verbatim>\<open>parseJSONValue\<close>
  reads them (a Go map: members by key). Numbers keep their text (\<^verbatim>\<open>UseNumber\<close>).\<close>

datatype json =
    JNull
  | JBool bool
  | JString string
  | JNumber string
  | JArray "json list"
  | JObject "(string \<times> json) list"

datatype json_token = TDelim char | TString string | TNumber string | TBool bool | TNull

text \<open>The values of the CBOR data model: \<^verbatim>\<open>int64\<close> and \<^verbatim>\<open>uint64\<close> are both \<open>VInt\<close>, a map is kept by key,
  and \<open>VForbidden\<close> stands for every other decoded type (floats, byte strings).\<close>

datatype cvalue =
    VNull
  | VBool bool
  | VInt int
  | VString string
  | VArray "cvalue list"
  | VMap "(string \<times> cvalue) list"
  | VForbidden

datatype codec_error =
    JSONTooLong | Nesting | TotalItems | PairLimit | ItemLimit | NotStringKey | DuplicateKey
  | BadSyntax | TrailingData | BadString | BadNumber | EncodeFailed | DecodeFailed | CanonicalSize
  | NotCanonical | ForbiddenType | BadDomain | DecodeTarget

text \<open>The tokens of a written value.\<close>

fun tokens :: "json \<Rightarrow> json_token list"
  and item_tokens :: "json list \<Rightarrow> json_token list"
  and member_tokens :: "(string \<times> json) list \<Rightarrow> json_token list" where
  "tokens JNull = [TNull]"
| "tokens (JBool b) = [TBool b]"
| "tokens (JString s) = [TString (json_text s)]"
| "tokens (JNumber n) = [TNumber n]"
| "tokens (JArray vs) = TDelim (CHR ''['') # item_tokens vs @ [TDelim (CHR '']'')]"
| "tokens (JObject ms) = TDelim (CHR ''{'') # member_tokens ms @ [TDelim (CHR ''}'')]"
| "item_tokens [] = []"
| "item_tokens (v # vs) = tokens v @ item_tokens vs"
| "member_tokens [] = []"
| "member_tokens ((k, v) # ms) = TString (json_text k) # tokens v @ member_tokens ms"

text \<open>A Go map with string keys, as its members in key order.\<close>

fun map_put :: "string \<Rightarrow> 'v \<Rightarrow> (string \<times> 'v) list \<Rightarrow> (string \<times> 'v) list" where
  "map_put k v [] = [(k, v)]"
| "map_put k v ((k', v') # m) =
     (if k < k' then (k, v) # (k', v') # m else if k = k' then (k, v) # m else (k', v') # map_put k v m)"

subsection \<open>Reading the JSON model: parseJSONValue\<close>

text \<open>\<^verbatim>\<open>decoder.More\<close>: another token follows in the current array or object.\<close>

fun More :: "json_token list \<Rightarrow> bool" where
  "More [] = False"
| "More (TDelim c # ts) = (c \<noteq> CHR '']'' \<and> c \<noteq> CHR ''}'')"
| "More (t # ts) = True"

function (sequential) parseJSONValue :: "nat \<Rightarrow> nat \<Rightarrow> json_token list \<Rightarrow> codec_error + json \<times> nat \<times> json_token list"
  and parse_members :: "nat \<Rightarrow> nat \<Rightarrow> json_token list \<Rightarrow> (string \<times> json) list \<Rightarrow> codec_error + json \<times> nat \<times> json_token list"
  and parse_items :: "nat \<Rightarrow> nat \<Rightarrow> json_token list \<Rightarrow> json list \<Rightarrow> codec_error + json \<times> nat \<times> json_token list" where
  "parseJSONValue depth counter ts =
     (if depth > MaxNestedLevels then Inl Nesting
      else if counter + 1 > MaxTotalItems then Inl TotalItems
      else case ts of
        [] \<Rightarrow> Inl BadSyntax
      | TDelim c # ts' \<Rightarrow>
          if c = CHR ''{'' then parse_members depth (counter + 1) ts' []
          else if c = CHR ''['' then parse_items depth (counter + 1) ts' []
          else Inl BadSyntax
      | TString s # ts' \<Rightarrow> Inr (JString s, counter + 1, ts')
      | TNumber n # ts' \<Rightarrow> Inr (JNumber n, counter + 1, ts')
      | TBool b # ts' \<Rightarrow> Inr (JBool b, counter + 1, ts')
      | TNull # ts' \<Rightarrow> Inr (JNull, counter + 1, ts'))"
| "parse_members depth counter ts output =
     (if More ts then
        (if length output \<ge> MaxCollectionItems then Inl PairLimit
         else case ts of
           TString key # ts' \<Rightarrow>
             if map_of output key \<noteq> None then Inl DuplicateKey
             else (case parseJSONValue (depth + 1) counter ts' of
                     Inl e \<Rightarrow> Inl e
                   | Inr (v, counter', rest) \<Rightarrow> parse_members depth counter' rest (map_put key v output))
         | _ \<Rightarrow> Inl NotStringKey)
      else case ts of
        TDelim c # ts' \<Rightarrow> if c = CHR ''}'' then Inr (JObject output, counter, ts') else Inl BadSyntax
      | _ \<Rightarrow> Inl BadSyntax)"
| "parse_items depth counter ts output =
     (if More ts then
        (if length output \<ge> MaxCollectionItems then Inl ItemLimit
         else (case parseJSONValue (depth + 1) counter ts of
                 Inl e \<Rightarrow> Inl e
               | Inr (v, counter', rest) \<Rightarrow> parse_items depth counter' rest (output @ [v])))
      else case ts of
        TDelim c # ts' \<Rightarrow> if c = CHR '']'' then Inr (JArray output, counter, ts') else Inl BadSyntax
      | _ \<Rightarrow> Inl BadSyntax)"
  by pat_completeness auto

lemma parse_consumes:
  "parseJSONValue_parse_members_parse_items_dom (Inl (d, c, ts)) \<Longrightarrow>
     parseJSONValue d c ts = Inr (v, c', r) \<Longrightarrow> length r < length ts"
  "parseJSONValue_parse_members_parse_items_dom (Inr (Inl (d, c, ts, ms))) \<Longrightarrow>
     parse_members d c ts ms = Inr (v, c', r) \<Longrightarrow> length r < length ts"
  "parseJSONValue_parse_members_parse_items_dom (Inr (Inr (d, c, ts, vs))) \<Longrightarrow>
     parse_items d c ts vs = Inr (v, c', r) \<Longrightarrow> length r < length ts"
proof (induction d c ts and d c ts ms and d c ts vs arbitrary: v c' r and v c' r and v c' r
    rule: parseJSONValue_parse_members_parse_items.pinduct)
  case (1 d c ts)
  then show ?case
    by (auto simp: parseJSONValue.psimps split: if_splits list.splits json_token.splits) (fastforce intro: less_SucI)+
next
  case (2 d c ts ms)
  then show ?case
    by (auto simp: parse_members.psimps split: if_splits list.splits json_token.splits sum.splits) fastforce+
next
  case (3 d c ts vs)
  then show ?case
    by (auto simp: parse_items.psimps split: if_splits list.splits json_token.splits sum.splits) fastforce+
qed

termination parseJSONValue
proof (relation "measure (\<lambda>x. case x of Inl (d, c, ts) \<Rightarrow> 2 * length ts
    | Inr (Inl (d, c, ts, ms)) \<Rightarrow> 2 * length ts + 1 | Inr (Inr (d, c, ts, vs)) \<Rightarrow> 2 * length ts + 1)", goal_cases)
qed (auto dest: parse_consumes)

subsection \<open>Normalising: normalizeJSON and validateDecoded\<close>

definition good_string :: "string \<Rightarrow> bool" where
  "good_string s = (ValidString s \<and> length s \<le> MaxStringBytes)"

text \<open>The number of a JSON number text: integers of 64 bits only, as \<^verbatim>\<open>strconv.ParseInt\<close> and
  \<^verbatim>\<open>strconv.ParseUint\<close> read them.\<close>

definition json_number :: "string \<Rightarrow> int option" where
  "json_number text =
     (if list_ex (\<lambda>c. c \<in> set ''.eE'') text then None
      else if has_prefix text ''-'' then
        (let digits = drop 1 text in
         if digits \<noteq> [] \<and> list_all is_dec_digit digits \<and> dec_value digits \<le> 2 ^ 63
         then Some (- int (dec_value digits)) else None)
      else map_option uint (ParseUint64 text))"

fun normalizeJSON :: "json \<Rightarrow> nat \<Rightarrow> nat \<Rightarrow> codec_error + cvalue \<times> nat"
  and normalize_items :: "json list \<Rightarrow> nat \<Rightarrow> nat \<Rightarrow> codec_error + cvalue list \<times> nat"
  and normalize_members :: "(string \<times> json) list \<Rightarrow> nat \<Rightarrow> nat \<Rightarrow> codec_error + (string \<times> cvalue) list \<times> nat" where
  "normalizeJSON v depth counter =
     (if depth > MaxNestedLevels then Inl Nesting
      else if counter + 1 > MaxTotalItems then Inl TotalItems
      else case v of
        JNull \<Rightarrow> Inr (VNull, counter + 1)
      | JBool b \<Rightarrow> Inr (VBool b, counter + 1)
      | JString s \<Rightarrow> if \<not> good_string s then Inl BadString else Inr (VString s, counter + 1)
      | JNumber text \<Rightarrow>
          (case json_number text of None \<Rightarrow> Inl BadNumber | Some n \<Rightarrow> Inr (VInt n, counter + 1))
      | JArray vs \<Rightarrow>
          if length vs > MaxCollectionItems then Inl ItemLimit
          else (case normalize_items vs (depth + 1) (counter + 1) of
                  Inl e \<Rightarrow> Inl e | Inr (ns, counter') \<Rightarrow> Inr (VArray ns, counter'))
      | JObject ms \<Rightarrow>
          if length ms > MaxCollectionItems then Inl PairLimit
          else (case normalize_members ms (depth + 1) (counter + 1) of
                  Inl e \<Rightarrow> Inl e | Inr (ns, counter') \<Rightarrow> Inr (VMap ns, counter')))"
| "normalize_items [] depth counter = Inr ([], counter)"
| "normalize_items (v # vs) depth counter =
     (case normalizeJSON v depth counter of
        Inl e \<Rightarrow> Inl e
      | Inr (n, counter') \<Rightarrow>
          (case normalize_items vs depth counter' of Inl e \<Rightarrow> Inl e | Inr (ns, c) \<Rightarrow> Inr (n # ns, c)))"
| "normalize_members [] depth counter = Inr ([], counter)"
| "normalize_members ((k, v) # ms) depth counter =
     (if \<not> good_string k then Inl BadString
      else case normalizeJSON v depth counter of
        Inl e \<Rightarrow> Inl e
      | Inr (n, counter') \<Rightarrow>
          (case normalize_members ms depth counter' of Inl e \<Rightarrow> Inl e | Inr (ns, c) \<Rightarrow> Inr ((k, n) # ns, c)))"

fun validateDecoded :: "cvalue \<Rightarrow> nat \<Rightarrow> nat \<Rightarrow> codec_error + nat"
  and validate_items :: "cvalue list \<Rightarrow> nat \<Rightarrow> nat \<Rightarrow> codec_error + nat"
  and validate_members :: "(string \<times> cvalue) list \<Rightarrow> nat \<Rightarrow> nat \<Rightarrow> codec_error + nat" where
  "validateDecoded v depth counter =
     (if depth > MaxNestedLevels then Inl Nesting
      else if counter + 1 > MaxTotalItems then Inl TotalItems
      else case v of
        VNull \<Rightarrow> Inr (counter + 1)
      | VBool b \<Rightarrow> Inr (counter + 1)
      | VInt n \<Rightarrow> Inr (counter + 1)
      | VString s \<Rightarrow> if \<not> good_string s then Inl BadString else Inr (counter + 1)
      | VArray vs \<Rightarrow>
          if length vs > MaxCollectionItems then Inl ItemLimit else validate_items vs (depth + 1) (counter + 1)
      | VMap ms \<Rightarrow>
          if length ms > MaxCollectionItems then Inl PairLimit else validate_members ms (depth + 1) (counter + 1)
      | VForbidden \<Rightarrow> Inl ForbiddenType)"
| "validate_items [] depth counter = Inr counter"
| "validate_items (v # vs) depth counter =
     (case validateDecoded v depth counter of Inl e \<Rightarrow> Inl e | Inr counter' \<Rightarrow> validate_items vs depth counter')"
| "validate_members [] depth counter = Inr counter"
| "validate_members ((k, v) # ms) depth counter =
     (if \<not> good_string k then Inl BadString
      else case validateDecoded v depth counter of
        Inl e \<Rightarrow> Inl e | Inr counter' \<Rightarrow> validate_members ms depth counter')"

subsection \<open>Marshal, Unmarshal and Digest\<close>

record codec_lib =
  cborEncode :: "cvalue \<Rightarrow> bytes option"
  cborDecode :: "bytes \<Rightarrow> cvalue option"
  jsonLen :: "json \<Rightarrow> nat"
  sha256 :: "bytes \<Rightarrow> bytes"

definition decodeJSONModel :: "json_token list \<Rightarrow> codec_error + cvalue" where
  "decodeJSONModel ts =
     ebind (parseJSONValue 0 0 ts) (\<lambda>(v, _, rest).
       if rest \<noteq> [] then Inl TrailingData
       else ebind (normalizeJSON v 0 0) (\<lambda>(n, _). Inr n))"

definition Marshal :: "codec_lib \<Rightarrow> json \<Rightarrow> codec_error + bytes" where
  "Marshal L j =
     (if jsonLen L j > MaxJSONBytes then Inl JSONTooLong
      else ebind (decodeJSONModel (tokens j)) (\<lambda>normalized.
        case cborEncode L normalized of
          None \<Rightarrow> Inl EncodeFailed
        | Some encoded \<Rightarrow> if length encoded > MaxCanonicalBytes then Inl CanonicalSize else Inr encoded))"

text \<open>The JSON that \<^verbatim>\<open>Unmarshal\<close> writes for a decoded value before it decodes it into the target.\<close>

fun json_of :: "cvalue \<Rightarrow> json" where
  "json_of VNull = JNull"
| "json_of (VBool b) = JBool b"
| "json_of (VInt n) = JNumber (format_int n)"
| "json_of (VString s) = JString s"
| "json_of (VArray vs) = JArray (map json_of vs)"
| "json_of (VMap ms) = JObject (map (\<lambda>(k, v). (k, json_of v)) ms)"
| "json_of VForbidden = JNull"

definition Unmarshal :: "codec_lib \<Rightarrow> (json \<Rightarrow> 'a option) \<Rightarrow> bytes \<Rightarrow> codec_error + 'a" where
  "Unmarshal L target data =
     (if data = [] \<or> length data > MaxCanonicalBytes then Inl CanonicalSize
      else case cborDecode L data of
        None \<Rightarrow> Inl DecodeFailed
      | Some normalized \<Rightarrow>
          ebind (validateDecoded normalized 0 0) (\<lambda>_.
            case cborEncode L normalized of
              None \<Rightarrow> Inl EncodeFailed
            | Some reencoded \<Rightarrow>
                if data \<noteq> reencoded then Inl NotCanonical
                else of_option DecodeTarget (target (json_of normalized))))"

definition validateDomain :: "string \<Rightarrow> bool" where
  "validateDomain domain =
     (\<not> (length domain < 3 \<or> length domain > 128 \<or> \<not> has_prefix domain ''tos.'') \<and>
      list_all (\<lambda>c. in_range 97 122 c \<or> in_range 48 57 c \<or> c = CHR ''.'' \<or> c = CHR ''-'') domain)"

definition PutUint16 :: "u16 \<Rightarrow> bytes" where
  "PutUint16 n = [ucast (drop_bit 8 n), ucast n]"

definition PutUint32 :: "u32 \<Rightarrow> bytes" where
  "PutUint32 n = [ucast (drop_bit 24 n), ucast (drop_bit 16 n), ucast (drop_bit 8 n), ucast n]"

definition digest_preimage :: "string \<Rightarrow> bytes \<Rightarrow> bytes" where
  "digest_preimage domain encoded =
     str_bytes ''TOS-PROTOCOL-CBOR'' @ [0] @ PutUint16 (of_nat (length domain)) @ str_bytes domain @ encoded"

definition Digest :: "codec_lib \<Rightarrow> string \<Rightarrow> json \<Rightarrow> codec_error + string" where
  "Digest L domain j =
     (if \<not> validateDomain domain then Inl BadDomain
      else ebind (Marshal L j) (\<lambda>encoded. Inr (''sha256:'' @ hex_encode (sha256 L (digest_preimage domain encoded)))))"

definition DigestCanonical :: "codec_lib \<Rightarrow> string \<Rightarrow> bytes \<Rightarrow> codec_error + string" where
  "DigestCanonical L domain encoded =
     (if \<not> validateDomain domain then Inl BadDomain
      else ebind (Unmarshal L Some encoded) (\<lambda>_. Inr (''sha256:'' @ hex_encode (sha256 L (digest_preimage domain encoded)))))"

subsection \<open>What the encoder emits, the decoder's checks accept\<close>

lemmas parse_simps = parseJSONValue.simps parse_members.simps parse_items.simps
declare parse_simps [simp del]
declare normalizeJSON.simps [simp del] validateDecoded.simps [simp del]

text \<open>The values a decoder can return: integers of 64 bits, maps by key.\<close>

fun wf_value :: "cvalue \<Rightarrow> bool" where
  "wf_value (VInt n) = (- (2 ^ 63) \<le> n \<and> n < 2 ^ 64)"
| "wf_value (VArray vs) = list_all wf_value vs"
| "wf_value (VMap ms) = (sorted_wrt (<) (map fst ms) \<and> list_all (\<lambda>(k, v). wf_value v) ms)"
| "wf_value v = True"

fun nesting :: "cvalue \<Rightarrow> nat" where
  "nesting (VArray vs) = Suc (fold max (map nesting vs) 0)"
| "nesting (VMap ms) = Suc (fold max (map (\<lambda>(k, v). nesting v) ms) 0)"
| "nesting v = 0"

lemma map_put_sorted:
  "sorted_wrt (<) (map fst m) \<Longrightarrow> map_of m k = None \<Longrightarrow>
   sorted_wrt (<) (map fst (map_put k v m)) \<and> set (map_put k v m) = insert (k, v) (set m)"
  by (induction m) (auto split: if_splits dest: order.strict_trans simp: neq_iff, force+)

lemma map_put_last:
  "(\<And>k'. k' \<in> fst ` set m \<Longrightarrow> k' < k) \<Longrightarrow> map_put k v m = m @ [(k, v)]"
  by (induction m) (force simp: not_less_iff_gr_or_eq)+

fun json_keys_ok :: "json \<Rightarrow> bool" where
  "json_keys_ok (JArray vs) = list_all json_keys_ok vs"
| "json_keys_ok (JObject ms) = (sorted_wrt (<) (map fst ms) \<and> list_all (\<lambda>(k, v). json_keys_ok v) ms)"
| "json_keys_ok v = True"

lemma parse_keys_ok:
  "parseJSONValue d c ts = Inr (v, c', r) \<Longrightarrow> json_keys_ok v"
  "parse_members d c ts ms = Inr (v, c', r) \<Longrightarrow> sorted_wrt (<) (map fst ms) \<Longrightarrow>
     list_all (\<lambda>(k, v). json_keys_ok v) ms \<Longrightarrow> json_keys_ok v"
  "parse_items d c ts vs = Inr (v, c', r) \<Longrightarrow> list_all json_keys_ok vs \<Longrightarrow> json_keys_ok v"
proof (induction d c ts and d c ts ms and d c ts vs arbitrary: v c' r and v c' r and v c' r
    rule: parseJSONValue_parse_members_parse_items.induct)
  case (1 d c ts)
  then show ?case
    by (auto simp: parseJSONValue.simps [of d c ts] split: if_splits list.splits json_token.splits)
next
  case (2 d c ts ms)
  then show ?case
    by (auto simp: parse_members.simps [of d c ts ms] list_all_iff map_put_sorted
        split: if_splits list.splits json_token.splits sum.splits)
next
  case (3 d c ts vs)
  then show ?case
    by (auto simp: parse_items.simps [of d c ts vs] split: if_splits list.splits json_token.splits sum.splits)
qed

lemma uint_above: "- (2 ^ 63) \<le> uint w"
  by (rule order.trans [OF _ unsigned_greater_eq]) simp

lemma json_number_range: "json_number t = Some n \<Longrightarrow> - (2 ^ 63) \<le> n \<and> n < 2 ^ 64"
proof -
  assume "json_number t = Some n"
  then consider m where "n = - int m" "m \<le> 2 ^ 63" | w :: u64 where "n = uint w"
    by (auto simp: json_number_def Let_def split: if_splits)
  then show ?thesis
  proof cases
    case 1
    then have "int m \<le> 2 ^ 63" by (metis of_nat_le_iff of_nat_numeral of_nat_power)
    with 1 show ?thesis by simp
  next
    case 2
    then show ?thesis using uint_above [of w] unsigned_less [of w, where ?'a = int] by simp
  qed
qed

lemma normalize_validates:
  "normalizeJSON j d c = Inr (v, c') \<Longrightarrow> validateDecoded v d c = Inr c' \<and> (json_keys_ok j \<longrightarrow> wf_value v)"
  "normalize_items js d c = Inr (vs, c') \<Longrightarrow> validate_items vs d c = Inr c' \<and> length vs = length js \<and>
     (list_all json_keys_ok js \<longrightarrow> list_all wf_value vs)"
  "normalize_members ms d c = Inr (ns, c') \<Longrightarrow> validate_members ns d c = Inr c' \<and> map fst ns = map fst ms \<and>
     (list_all (\<lambda>(k, v). json_keys_ok v) ms \<longrightarrow> list_all (\<lambda>(k, v). wf_value v) ns)"
proof (induction j d c and js d c and ms d c arbitrary: v c' and vs c' and ns c'
    rule: normalizeJSON_normalize_items_normalize_members.induct)
  case (1 j d c)
  show ?case
  proof (cases j)
    case (JArray vs)
    with 1 show ?thesis
      by (auto simp: normalizeJSON.simps validateDecoded.simps split: if_splits sum.splits)
  next
    case (JObject ms)
    then obtain ns where n: "v = VMap ns" "normalize_members ms (d + 1) (c + 1) = Inr (ns, c')"
      "\<not> d > MaxNestedLevels" "\<not> c + 1 > MaxTotalItems" "\<not> length ms > MaxCollectionItems"
      using "1.prems" by (auto simp: normalizeJSON.simps split: if_splits sum.splits)
    then have "validate_members ns (d + 1) (c + 1) = Inr c'" "map fst ns = map fst ms"
      "list_all (\<lambda>(k, v). json_keys_ok v) ms \<longrightarrow> list_all (\<lambda>(k, v). wf_value v) ns"
      using "1.IH"(2) [OF n(3,4) JObject n(5) n(2)] by simp_all
    moreover from this(2) have "length ns = length ms" by (metis length_map)
    ultimately show ?thesis using n JObject by (simp add: validateDecoded.simps [of "VMap _"])
  qed (use 1 in \<open>auto simp: normalizeJSON.simps validateDecoded.simps dest: json_number_range
        split: if_splits option.splits\<close>)
next
  case (3 v vs d c)
  then show ?case by (fastforce split: sum.splits)
next
  case (5 k v ms d c)
  then show ?case by (fastforce split: sum.splits if_splits)
qed simp_all

subsection \<open>Reading back what was written\<close>

lemma More_tokens [simp]: "More (tokens j @ ts)"
  by (cases j) auto

lemma item_tokens_map: "item_tokens (map f (v # vs)) = tokens (f v) @ item_tokens (map f vs)"
  by simp

lemma good_string_text: "good_string s \<Longrightarrow> json_text s = s"
  by (simp add: good_string_def json_text_valid)

lemma keys_above:
  "sorted_wrt (<) (map fst (out @ (k, v) # ms)) \<Longrightarrow> map_of out k = None \<and> map_put k u out = out @ [(k, u)]"
  by (auto simp: sorted_wrt_append map_of_eq_None_iff intro!: map_put_last)

lemma parse_tokens:
  "validateDecoded v d c = Inr c' \<Longrightarrow> wf_value v \<Longrightarrow>
     parseJSONValue d c (tokens (json_of v) @ ts) = Inr (json_of v, c', ts)"
  "validate_items vs (Suc d) c = Inr c' \<Longrightarrow> list_all wf_value vs \<Longrightarrow> length out + length vs \<le> MaxCollectionItems \<Longrightarrow>
     parse_items d c (item_tokens (map json_of vs) @ TDelim (CHR '']'') # ts) out = Inr (JArray (out @ map json_of vs), c', ts)"
  "validate_members ms (Suc d) c = Inr c' \<Longrightarrow> list_all (\<lambda>(k, v). wf_value v) ms \<Longrightarrow>
     length mout + length ms \<le> MaxCollectionItems \<Longrightarrow> sorted_wrt (<) (map fst mout @ map fst ms) \<Longrightarrow>
     parse_members d c (member_tokens (map (\<lambda>(k, v). (k, json_of v)) ms) @ TDelim (CHR ''}'') # ts) mout
       = Inr (JObject (mout @ map (\<lambda>(k, v). (k, json_of v)) ms), c', ts)"
proof (induction v d c and vs "Suc d" c and ms "Suc d" c arbitrary: c' ts and d c' ts out and d c' ts mout
    rule: validateDecoded_validate_items_validate_members.induct)
  case (1 v d c)
  show ?case
  proof (cases v)
    case (VArray vs)
    with "1.prems" have n: "\<not> d > MaxNestedLevels" "\<not> c + 1 > MaxTotalItems" "\<not> length vs > MaxCollectionItems"
      "validate_items vs (d + 1) (c + 1) = Inr c'" "list_all wf_value vs"
      by (auto simp: validateDecoded.simps split: if_splits)
    have "parse_items d (c + 1) (item_tokens (map json_of vs) @ TDelim (CHR '']'') # ts) [] = Inr (JArray ([] @ map json_of vs), c', ts)"
      using n by (intro "1.hyps"(1) [OF n(1,2) VArray n(3)]) auto
    with n VArray show ?thesis by (subst parseJSONValue.simps) simp
  next
    case (VMap ms)
    with "1.prems" have n: "\<not> d > MaxNestedLevels" "\<not> c + 1 > MaxTotalItems" "\<not> length ms > MaxCollectionItems"
      "validate_members ms (d + 1) (c + 1) = Inr c'" "list_all (\<lambda>(k, v). wf_value v) ms" "sorted_wrt (<) (map fst ms)"
      by (auto simp: validateDecoded.simps split: if_splits)
    have "parse_members d (c + 1) (member_tokens (map (\<lambda>(k, v). (k, json_of v)) ms) @ TDelim (CHR ''}'') # ts) []
        = Inr (JObject ([] @ map (\<lambda>(k, v). (k, json_of v)) ms), c', ts)"
      using n by (intro "1.hyps"(2) [OF n(1,2) VMap n(3)]) auto
    with n VMap show ?thesis by (subst parseJSONValue.simps) simp
  qed (use "1.prems" in \<open>auto simp: validateDecoded.simps parseJSONValue.simps good_string_text split: if_splits\<close>)
next
  case (2 c)
  then show ?case by (simp add: parse_items.simps)
next
  case (3 v vs c)
  then obtain c1 where c1: "validateDecoded v (Suc d) c = Inr c1" "validate_items vs (Suc d) c1 = Inr c'"
    by (auto split: sum.splits)
  with 3 have "parseJSONValue (Suc d) c (tokens (json_of v) @ item_tokens (map json_of vs) @ TDelim (CHR '']'') # ts)
      = Inr (json_of v, c1, item_tokens (map json_of vs) @ TDelim (CHR '']'') # ts)" by simp
  moreover have "parse_items d c1 (item_tokens (map json_of vs) @ TDelim (CHR '']'') # ts) (out @ [json_of v])
      = Inr (JArray ((out @ [json_of v]) @ map json_of vs), c', ts)"
    using 3 c1 by (intro "3.hyps"(2)) auto
  ultimately show ?case using 3 by (subst parse_items.simps) simp
next
  case (4 c)
  then show ?case by (simp add: parse_members.simps)
next
  case (5 k v ms c)
  let ?m = "map (\<lambda>(k, v). (k, json_of v)) ms"
  from 5 obtain c1 where c1: "good_string k" "validateDecoded v (Suc d) c = Inr c1" "validate_members ms (Suc d) c1 = Inr c'"
    by (auto split: sum.splits if_splits)
  with 5 have one: "parseJSONValue (Suc d) c (tokens (json_of v) @ member_tokens ?m @ TDelim (CHR ''}'') # ts)
      = Inr (json_of v, c1, member_tokens ?m @ TDelim (CHR ''}'') # ts)" by simp
  have key: "map_of mout k = None \<and> map_put k (json_of v) mout = mout @ [(k, json_of v)]"
    using 5 by (intro keys_above [of mout k "json_of v" "[]"]) (auto simp: sorted_wrt_append)
  have "parse_members d c1 (member_tokens ?m @ TDelim (CHR ''}'') # ts) (mout @ [(k, json_of v)])
      = Inr (JObject ((mout @ [(k, json_of v)]) @ ?m), c', ts)"
    using 5 c1 by (intro "5.hyps"(2)) auto
  with one key c1(1) 5 show ?case by (subst parse_members.simps) (simp add: good_string_text)
qed

lemma json_number_format: "- (2 ^ 63) \<le> n \<Longrightarrow> n < 2 ^ 64 \<Longrightarrow> json_number (format_int n) = Some n"
proof -
  assume n: "- (2 ^ 63) \<le> n" "n < 2 ^ 64"
  have d: "list_all is_dec_digit (dec_string m)" "dec_string m \<noteq> []" for m using dec_string_digits by auto
  have plain: "\<not> list_ex (\<lambda>c. c \<in> set ''.eE'') t" if "list_all is_dec_digit t" for t
    using that by (induction t) (auto simp: is_dec_digit_def)
  have sign: "\<not> has_prefix (dec_string m) ''-''" for m
    using d [of m] by (cases "dec_string m") (auto simp: is_dec_digit_def)
  show ?thesis
  proof (cases "n < 0")
    case True
    then have "nat (- n) \<le> 2 ^ 63" using n by simp
    with True d plain [OF d(1)] show ?thesis by (simp add: json_number_def format_int_def)
  next
    case False
    then have "nat n < 2 ^ 64" using n by simp
    moreover from this have "uint (of_nat (nat n) :: u64) = n" using False n(2) by (simp add: uint_word_of_int)
    ultimately show ?thesis
      using False d plain [OF d(1)] sign by (simp add: json_number_def format_int_def ParseUint64_def)
  qed
qed

lemma normalize_json_of:
  "validateDecoded v d c = Inr c' \<Longrightarrow> wf_value v \<Longrightarrow> normalizeJSON (json_of v) d c = Inr (v, c')"
  "validate_items vs d c = Inr c' \<Longrightarrow> list_all wf_value vs \<Longrightarrow> normalize_items (map json_of vs) d c = Inr (vs, c')"
  "validate_members ms d c = Inr c' \<Longrightarrow> list_all (\<lambda>(k, v). wf_value v) ms \<Longrightarrow>
     normalize_members (map (\<lambda>(k, v). (k, json_of v)) ms) d c = Inr (ms, c')"
proof (induction v d c and vs d c and ms d c arbitrary: c' and c' and c'
    rule: validateDecoded_validate_items_validate_members.induct)
  case (1 v d c)
  show ?case
  proof (cases v)
    case (VInt n)
    with 1 show ?thesis by (auto simp: validateDecoded.simps normalizeJSON.simps json_number_format split: if_splits)
  next
    case (VArray vs)
    with 1 show ?thesis by (auto simp: validateDecoded.simps normalizeJSON.simps split: if_splits)
  next
    case (VMap ms)
    with 1 show ?thesis by (auto simp: validateDecoded.simps normalizeJSON.simps split: if_splits)
  qed (use "1.prems" in \<open>auto simp: validateDecoded.simps normalizeJSON.simps split: if_splits\<close>)
next
  case (3 v vs d c)
  then show ?case by (auto split: sum.splits)
next
  case (5 k v ms d c)
  then show ?case by (auto split: sum.splits if_splits)
qed simp_all

lemma decode_written: "validateDecoded v 0 0 = Inr c \<Longrightarrow> wf_value v \<Longrightarrow> decodeJSONModel (tokens (json_of v)) = Inr v"
  using parse_tokens(1) [of v 0 0 c "[]"] normalize_json_of(1) [of v 0 0 c] by (simp add: decodeJSONModel_def)

lemma decodeJSONModel_ok:
  assumes "decodeJSONModel ts = Inr v"
  shows "(\<exists>c. validateDecoded v 0 0 = Inr c) \<and> wf_value v"
proof -
  from assms obtain j c c' where j: "parseJSONValue 0 0 ts = Inr (j, c, [])" "normalizeJSON j 0 0 = Inr (v, c')"
    by (auto simp: decodeJSONModel_def bind_simps split: if_splits)
  then show ?thesis using normalize_validates(1) [OF j(2)] parse_keys_ok(1) [OF j(1)] by auto
qed

subsection \<open>The laws of the CBOR library, and what the codec promises\<close>

text \<open>What the codec relies on of the CBOR library: under the decoding options of \<^verbatim>\<open>init\<close>, the encoding
  of a value within the limits and the nesting limit decodes to that value, and every decoded value has
  64-bit integers and maps without repeated keys.\<close>

definition cbor_lawful :: "codec_lib \<Rightarrow> bool" where
  "cbor_lawful L =
     ((\<forall>v b. wf_value v \<longrightarrow> is_ok (validateDecoded v 0 0) \<longrightarrow> nesting v \<le> MaxNestedLevels \<longrightarrow>
         cborEncode L v = Some b \<longrightarrow> b \<noteq> [] \<and> cborDecode L b = Some v) \<and>
      (\<forall>b v. cborDecode L b = Some v \<longrightarrow> wf_value v))"

lemma Marshal_ok:
  assumes "Marshal L j = Inr b"
  obtains v where "decodeJSONModel (tokens j) = Inr v" "cborEncode L v = Some b" "wf_value v"
    "is_ok (validateDecoded v 0 0)" "length b \<le> MaxCanonicalBytes" "jsonLen L j \<le> MaxJSONBytes"
proof -
  from assms obtain v where v: "decodeJSONModel (tokens j) = Inr v" "cborEncode L v = Some b"
    "length b \<le> MaxCanonicalBytes" "jsonLen L j \<le> MaxJSONBytes"
    by (auto simp: Marshal_def bind_simps split: if_splits option.splits)
  moreover from decodeJSONModel_ok [OF v(1)] have "wf_value v" "is_ok (validateDecoded v 0 0)"
    by (simp_all add: is_ok_iff)
  ultimately show thesis by (intro that)
qed

lemma cbor_decode_encode:
  "cbor_lawful L \<Longrightarrow> wf_value v \<Longrightarrow> is_ok (validateDecoded v 0 0) \<Longrightarrow> nesting v \<le> MaxNestedLevels \<Longrightarrow>
   cborEncode L v = Some b \<Longrightarrow> b \<noteq> [] \<and> cborDecode L b = Some v"
  unfolding cbor_lawful_def by blast

lemma cbor_decode_wf: "cbor_lawful L \<Longrightarrow> cborDecode L b = Some v \<Longrightarrow> wf_value v"
  unfolding cbor_lawful_def by blast

lemma Marshal_decodes:
  assumes "cbor_lawful L" "Marshal L j = Inr b" "decodeJSONModel (tokens j) = Inr v" "nesting v \<le> MaxNestedLevels"
  shows "b \<noteq> [] \<and> cborDecode L b = Some v"
proof (rule Marshal_ok [OF assms(2)])
  fix u assume "decodeJSONModel (tokens j) = Inr u" "cborEncode L u = Some b" "wf_value u" "is_ok (validateDecoded u 0 0)"
  with assms(3,4) show ?thesis by (intro cbor_decode_encode [OF assms(1)]) simp_all
qed

lemma Marshal_injective:
  assumes "cbor_lawful L" and "Marshal L j = Inr b" and "Marshal L j' = Inr b"
    and "decodeJSONModel (tokens j) = Inr v" "nesting v \<le> MaxNestedLevels"
    and "decodeJSONModel (tokens j') = Inr v'" "nesting v' \<le> MaxNestedLevels"
  shows "v = v'"
  using Marshal_decodes [OF assms(1,2,4,5)] Marshal_decodes [OF assms(1,3,6,7)] by simp


text \<open>An instance: the CBOR encoding of the small unsigned integers.\<close>

definition small_cbor :: codec_lib where
  "small_cbor = \<lparr>cborEncode = (\<lambda>v. case v of VInt n \<Rightarrow> if 0 \<le> n \<and> n < 24 then Some [of_int n] else None | _ \<Rightarrow> None),
     cborDecode = (\<lambda>b. case b of [w] \<Rightarrow> if w < 24 then Some (VInt (uint w)) else None | _ \<Rightarrow> None),
     jsonLen = (\<lambda>_. 2), sha256 = (\<lambda>b. take 32 (b @ replicate 32 0))\<rparr>"

lemma small_cbor_lawful: "cbor_lawful small_cbor"
proof -
  have "uint (word_of_int n :: u8) = n \<and> (word_of_int n :: u8) < 24" if "0 \<le> n" "n < 24" for n
    using that by (simp add: uint_word_of_int word_less_def)
  moreover have "- (2 ^ 63) \<le> uint (w :: u8) \<and> uint w < 2 ^ 64" for w
    using unsigned_less [of w, where ?'a = int] uint_above [of w] by simp
  ultimately show ?thesis
    by (auto simp: cbor_lawful_def small_cbor_def split: cvalue.splits if_splits list.splits)
qed

lemma small_number: "decodeJSONModel (tokens (JNumber ''7'')) = Inr (VInt 7)"
  by (simp add: decodeJSONModel_def parseJSONValue.simps normalizeJSON.simps MaxNestedLevels_def MaxTotalItems_def
      json_number_def ParseUint64_def is_dec_digit_def dec_value_def)

lemma small_marshal: "Marshal small_cbor (JNumber ''7'') = Inr [7]"
  unfolding Marshal_def small_number by (simp add: small_cbor_def MaxJSONBytes_def MaxCanonicalBytes_def)


lemma PutUint16_inj: "PutUint16 m = PutUint16 n \<Longrightarrow> m = n"
proof (rule bit_word_eqI)
  fix i assume eq: "PutUint16 m = PutUint16 n" and i: "i < LENGTH(16)"
  have low: "bit (ucast m :: u8) i = bit (ucast n :: u8) i"
    and high: "bit (ucast (drop_bit 8 m) :: u8) (i - 8) = bit (ucast (drop_bit 8 n) :: u8) (i - 8)"
    using eq by (simp_all add: PutUint16_def)
  show "bit m i = bit n i"
  proof (cases "i < 8")
    case True
    with low show ?thesis by (simp add: bit_ucast_iff)
  next
    case False
    then have "i - 8 < 8" "8 + (i - 8) = i" using i by simp_all
    with high show ?thesis by (simp add: bit_ucast_iff bit_drop_bit_eq)
  qed
qed

lemma unat_of_nat_len16: "n \<le> 128 \<Longrightarrow> unat (of_nat n :: u16) = n"
  by (simp add: unat_of_nat)

lemma digest_preimage_inj:
  assumes "validateDomain d" "validateDomain d'" "digest_preimage d e = digest_preimage d' e'"
  shows "d = d' \<and> e = e'"
proof -
  have len: "length d \<le> 128" "length d' \<le> 128" using assms(1,2) by (auto simp: validateDomain_def)
  have sz: "length (PutUint16 n) = 2" for n by (simp add: PutUint16_def)
  have eq: "PutUint16 (of_nat (length d)) = PutUint16 (of_nat (length d'))" "str_bytes d @ e = str_bytes d' @ e'"
    using assms(3) sz by (auto simp: digest_preimage_def)
  from PutUint16_inj [OF eq(1)] have "length d = length d'"
    using len by (metis unat_of_nat_len16)
  with eq(2) show ?thesis by (auto simp: str_bytes_inj)
qed

text \<open>C38: A digest binds its domain and its value. If two digests agree and SHA-256 does not collide on
  their two preimages, then the domains agree and the values have the same canonical bytes, hence are
  the same value within the nesting limit.\<close>

theorem digest_binds_domain_and_value:
  assumes "cbor_lawful L"
    and "Digest L d j = Inr x" "Digest L d' j' = Inr x"
    and "Marshal L j = Inr e" "Marshal L j' = Inr e'"
    and "sha256 L (digest_preimage d e) = sha256 L (digest_preimage d' e') \<longrightarrow> digest_preimage d e = digest_preimage d' e'"
  shows "d = d' \<and> e = e' \<and>
    (\<forall>v v'. decodeJSONModel (tokens j) = Inr v \<and> decodeJSONModel (tokens j') = Inr v' \<and>
       nesting v \<le> MaxNestedLevels \<and> nesting v' \<le> MaxNestedLevels \<longrightarrow> v = v')"
proof -
  have dom: "validateDomain d" "validateDomain d'" using assms(2,3) by (auto simp: Digest_def split: if_splits)
  moreover have "digest_preimage d e = digest_preimage d' e'"
    using assms dom by (auto simp: Digest_def hex_encode_inj)
  ultimately have de: "d = d' \<and> e = e'" by (rule digest_preimage_inj)
  then show ?thesis using Marshal_injective [OF assms(1)] assms(4,5) by blast
qed

theorem digest_binds_domain_and_value_witness:
  "\<exists>x. Digest small_cbor ''tos.a'' (JNumber ''7'') = Inr x \<and> ''tos.a'' = ''tos.a'' \<and> VInt 7 = VInt 7"
proof -
  have "validateDomain ''tos.a''" by (simp add: validateDomain_def in_range_def)
  then obtain x where "Digest small_cbor ''tos.a'' (JNumber ''7'') = Inr x" using small_marshal by (simp add: Digest_def)
  with digest_binds_domain_and_value [OF small_cbor_lawful this this small_marshal small_marshal] show ?thesis by blast
qed

subsection \<open>What is read from a written value\<close>

text \<open>The value read from the tokens of a written one: strings as UTF-8, members by key.\<close>

definition put_all :: "(string \<times> 'v) list \<Rightarrow> (string \<times> 'v) list \<Rightarrow> (string \<times> 'v) list" where
  "put_all ms out = fold (\<lambda>(k, v). map_put k v) ms out"

fun canon :: "json \<Rightarrow> json" where
  "canon (JString s) = JString (json_text s)"
| "canon (JArray vs) = JArray (map canon vs)"
| "canon (JObject ms) = JObject (put_all (map (\<lambda>(k, v). (json_text k, canon v)) ms) [])"
| "canon j = j"

lemma put_all_simps [simp]: "put_all [] out = out" "put_all ((k, v) # ms) out = put_all ms (map_put k v out)"
  by (simp_all add: put_all_def)

lemma parse_read:
  "parseJSONValue d c (tokens j @ ts) = Inr (v, c', r) \<Longrightarrow> v = canon j \<and> r = ts"
  "parse_items d c (item_tokens js @ TDelim (CHR '']'') # ts) out = Inr (v, c', r) \<Longrightarrow> v = JArray (out @ map canon js) \<and> r = ts"
  "parse_members d c (member_tokens ms @ TDelim (CHR ''}'') # ts) mout = Inr (v, c', r) \<Longrightarrow>
     v = JObject (put_all (map (\<lambda>(k, v). (json_text k, canon v)) ms) mout) \<and> r = ts"
proof (induction j and js and ms arbitrary: d c ts v c' r and d c ts out v c' r and d c ts mout v c' r
    rule: tokens_item_tokens_member_tokens.induct)
  case (5 vs)
  then have "parse_items d (c + 1) (item_tokens vs @ TDelim (CHR '']'') # ts) [] = Inr (v, c', r)"
    by (simp add: parseJSONValue.simps split: if_splits)
  from "5.IH" [OF this] show ?case by simp
next
  case (6 ms)
  then have "parse_members d (c + 1) (member_tokens ms @ TDelim (CHR ''}'') # ts) [] = Inr (v, c', r)"
    by (simp add: parseJSONValue.simps split: if_splits)
  from "6.IH" [OF this] show ?case by simp
next
  case 7
  then show ?case by (simp add: parse_items.simps)
next
  case (8 j js)
  then obtain u c1 rest where one: "parseJSONValue (Suc d) c (tokens j @ item_tokens js @ TDelim (CHR '']'') # ts) = Inr (u, c1, rest)"
    "parse_items d c1 rest (out @ [u]) = Inr (v, c', r)"
    by (subst (asm) parse_items.simps) (auto split: sum.splits if_splits)
  then have "u = canon j" "rest = item_tokens js @ TDelim (CHR '']'') # ts" using "8.IH"(1) by auto
  with "8.IH"(2) [of d c1 ts "out @ [u]" v c' r] one(2) show ?case by simp
next
  case 9
  then show ?case by (simp add: parse_members.simps)
next
  case (10 k j ms)
  let ?rest = "member_tokens ms @ TDelim (CHR ''}'') # ts"
  from 10 obtain u c1 rest where one: "parseJSONValue (Suc d) c (tokens j @ ?rest) = Inr (u, c1, rest)"
    "parse_members d c1 rest (map_put (json_text k) u mout) = Inr (v, c', r)"
    by (subst (asm) parse_members.simps) (auto split: sum.splits if_splits)
  then have "u = canon j" "rest = ?rest" using "10.IH"(1) by auto
  with "10.IH"(2) [of d c1 ts "map_put (json_text k) u mout" v c' r] one(2) show ?case by simp
qed (auto simp: parseJSONValue.simps split: if_splits)

text \<open>Nesting is kept.\<close>

fun json_nesting :: "json \<Rightarrow> nat" where
  "json_nesting (JArray vs) = Suc (fold max (map json_nesting vs) 0)"
| "json_nesting (JObject ms) = Suc (fold max (map (\<lambda>(k, v). json_nesting v) ms) 0)"
| "json_nesting j = 0"

lemma fold_max_le: "fold max xs (a :: nat) \<le> n \<longleftrightarrow> a \<le> n \<and> (\<forall>x\<in>set xs. x \<le> n)"
  by (induction xs arbitrary: a) auto

lemma set_map_put: "set (map_put k v m) \<subseteq> insert (k, v) (set m)"
  by (induction m) (auto split: if_splits)

lemma set_put_all: "set (put_all ms out) \<subseteq> set ms \<union> set out"
proof (induction ms arbitrary: out)
  case (Cons m ms)
  then show ?case using set_map_put by (cases m) (fastforce dest: subsetD)
qed simp

lemma normalize_nesting:
  "normalizeJSON j d c = Inr (v, c') \<Longrightarrow> nesting v = json_nesting j"
  "normalize_items js d c = Inr (vs, c') \<Longrightarrow> map nesting vs = map json_nesting js"
  "normalize_members ms d c = Inr (ns, c') \<Longrightarrow> map (\<lambda>(k, v). nesting v) ns = map (\<lambda>(k, v). json_nesting v) ms"
proof (induction j d c and js d c and ms d c arbitrary: v c' and vs c' and ns c'
    rule: normalizeJSON_normalize_items_normalize_members.induct)
  case (1 j d c)
  show ?case
    by (cases j) (use 1 in \<open>auto simp: normalizeJSON.simps split: if_splits sum.splits option.splits\<close>)
next
  case (3 j js d c)
  then show ?case by (auto split: sum.splits)
next
  case (5 k j ms d c)
  then show ?case by (auto split: sum.splits if_splits)
qed simp_all

lemma json_nesting_le: "(\<And>v. v \<in> set vs \<Longrightarrow> json_nesting v \<le> n) \<Longrightarrow> json_nesting (JArray vs) \<le> Suc n"
  "(\<And>k v. (k, v) \<in> set ms \<Longrightarrow> json_nesting v \<le> n) \<Longrightarrow> json_nesting (JObject ms) \<le> Suc n"
  by (auto simp: fold_max_le)

lemma json_nesting_member: "v \<in> set vs \<Longrightarrow> json_nesting v < json_nesting (JArray vs)"
  "(k, v) \<in> set ms \<Longrightarrow> json_nesting v < json_nesting (JObject ms)"
  using fold_max_le [of "map json_nesting vs" 0 "fold max (map json_nesting vs) 0"]
    fold_max_le [of "map (\<lambda>(k, v). json_nesting v) ms" 0 "fold max (map (\<lambda>(k, v). json_nesting v) ms) 0"]
  by (auto simp: less_Suc_eq_le)

lemma canon_nesting: "json_nesting (canon j) \<le> json_nesting j"
proof (induction j rule: canon.induct)
  case (2 vs)
  then have "json_nesting v \<le> json_nesting (JArray vs) - 1" if "v \<in> set (map canon vs)" for v
    using that json_nesting_member(1) by fastforce
  from json_nesting_le(1) [of "map canon vs", OF this] show ?case by simp
next
  case (3 ms)
  have "json_nesting v \<le> json_nesting (JObject ms) - 1" if kv: "(k, v) \<in> set (put_all (map (\<lambda>(k, v). (json_text k, canon v)) ms) [])" for k v
  proof -
    from kv obtain k' u where u: "(k', u) \<in> set ms" "v = canon u" using set_put_all by fastforce
    then show ?thesis using 3 [OF u(1)] json_nesting_member(2) [OF u(1)] by fastforce
  qed
  from json_nesting_le(2) [of "put_all (map (\<lambda>(k, v). (json_text k, canon v)) ms) []", OF this] show ?case by simp
qed simp_all

lemma decoded_nesting:
  assumes "decodeJSONModel (tokens j) = Inr v"
  shows "nesting v \<le> json_nesting j"
proof -
  from assms obtain u c c' where "parseJSONValue 0 0 (tokens j @ []) = Inr (u, c, [])" "normalizeJSON u 0 0 = Inr (v, c')"
    by (auto simp: decodeJSONModel_def bind_simps split: if_splits)
  then show ?thesis using parse_read(1) normalize_nesting(1) canon_nesting by metis
qed

text \<open>A value within the limits is written.\<close>

fun json_count :: "json \<Rightarrow> nat" where
  "json_count (JArray vs) = Suc (sum_list (map json_count vs))"
| "json_count (JObject ms) = Suc (sum_list (map (\<lambda>(k, v). json_count v) ms))"
| "json_count j = 1"

fun json_fits :: "nat \<Rightarrow> json \<Rightarrow> bool" where
  "json_fits d (JString s) = (d \<le> MaxNestedLevels \<and> good_string s)"
| "json_fits d (JNumber t) = (d \<le> MaxNestedLevels \<and> json_number t \<noteq> None)"
| "json_fits d (JArray vs) = (d \<le> MaxNestedLevels \<and> length vs \<le> MaxCollectionItems \<and> list_all (json_fits (Suc d)) vs)"
| "json_fits d (JObject ms) = (d \<le> MaxNestedLevels \<and> length ms \<le> MaxCollectionItems \<and> distinct (map fst ms) \<and>
     list_all (\<lambda>(k, v). good_string k \<and> json_fits (Suc d) v) ms)"
| "json_fits d j = (d \<le> MaxNestedLevels)"

lemma mset_map_put: "k \<notin> fst ` set m \<Longrightarrow> mset (map_put k v m) = add_mset (k, v) (mset m)"
  by (induction m) auto

lemma mset_put_all:
  "distinct (map fst ms) \<Longrightarrow> fst ` set ms \<inter> fst ` set out = {} \<Longrightarrow> mset (put_all ms out) = mset ms + mset out"
proof (induction ms arbitrary: out)
  case (Cons m ms)
  obtain k v where m: "m = (k, v)" by (cases m)
  have k: "k \<notin> fst ` set out" using Cons.prems m by auto
  have "set (map_put k v out) = insert (k, v) (set out)"
    using mset_map_put [OF k, of v] by (metis set_mset_add_mset_insert set_mset_mset)
  then have "mset (put_all ms (map_put k v out)) = mset ms + mset (map_put k v out)"
    using Cons.prems m by (intro Cons.IH) auto
  then show ?case using mset_map_put [OF k, of v] m by simp
qed simp

lemma parse_fits:
  "json_fits d j \<Longrightarrow> c + json_count j \<le> MaxTotalItems \<Longrightarrow>
     \<exists>u. parseJSONValue d c (tokens j @ ts) = Inr (u, c + json_count j, ts)"
  "list_all (json_fits (Suc d)) js \<Longrightarrow> length out + length js \<le> MaxCollectionItems \<Longrightarrow>
     c + sum_list (map json_count js) \<le> MaxTotalItems \<Longrightarrow>
     \<exists>u. parse_items d c (item_tokens js @ TDelim (CHR '']'') # ts) out = Inr (u, c + sum_list (map json_count js), ts)"
  "list_all (\<lambda>(k, v). good_string k \<and> json_fits (Suc d) v) ms \<Longrightarrow> length mout + length ms \<le> MaxCollectionItems \<Longrightarrow>
     distinct (map fst ms) \<Longrightarrow> fst ` set ms \<inter> fst ` set mout = {} \<Longrightarrow>
     c + sum_list (map (\<lambda>(k, v). json_count v) ms) \<le> MaxTotalItems \<Longrightarrow>
     \<exists>u. parse_members d c (member_tokens ms @ TDelim (CHR ''}'') # ts) mout
       = Inr (u, c + sum_list (map (\<lambda>(k, v). json_count v) ms), ts)"
proof (induction j and js and ms arbitrary: d c ts and d c ts out and d c ts mout
    rule: tokens_item_tokens_member_tokens.induct)
  case (5 vs)
  then have "\<exists>u. parse_items d (c + 1) (item_tokens vs @ TDelim (CHR '']'') # ts) [] = Inr (u, (c + 1) + sum_list (map json_count vs), ts)"
    by (intro "5.IH") auto
  with 5 show ?case by (simp add: parseJSONValue.simps)
next
  case (6 ms)
  then have "\<exists>u. parse_members d (c + 1) (member_tokens ms @ TDelim (CHR ''}'') # ts) []
      = Inr (u, (c + 1) + sum_list (map (\<lambda>(k, v). json_count v) ms), ts)"
    by (intro "6.IH") auto
  with 6 show ?case by (simp add: parseJSONValue.simps)
next
  case 7
  then show ?case by (simp add: parse_items.simps)
next
  case (8 j js)
  let ?r = "item_tokens js @ TDelim (CHR '']'') # ts"
  obtain u where u: "parseJSONValue (Suc d) c (tokens j @ ?r) = Inr (u, c + json_count j, ?r)"
    using "8.IH"(1) [of "Suc d" c ?r] "8.prems" by auto
  moreover have "\<exists>w. parse_items d (c + json_count j) ?r (out @ [u])
      = Inr (w, (c + json_count j) + sum_list (map json_count js), ts)"
    using "8.prems" by (intro "8.IH"(2)) auto
  ultimately show ?case using "8.prems"(2) by (subst parse_items.simps) (simp add: add.assoc)
next
  case 9
  then show ?case by (simp add: parse_members.simps)
next
  case (10 k j ms)
  let ?r = "member_tokens ms @ TDelim (CHR ''}'') # ts"
  have k: "good_string k" "k \<notin> fst ` set mout" using "10.prems" by auto
  obtain u where u: "parseJSONValue (Suc d) c (tokens j @ ?r) = Inr (u, c + json_count j, ?r)"
    using "10.IH"(1) [of "Suc d" c ?r] "10.prems" by auto
  have "set (map_put k u mout) = insert (k, u) (set mout)" "length (map_put k u mout) = Suc (length mout)"
    using mset_map_put [OF k(2), of u] by (metis set_mset_add_mset_insert set_mset_mset, metis size_add_mset size_mset)
  then have "\<exists>w. parse_members d (c + json_count j) ?r (map_put k u mout)
      = Inr (w, (c + json_count j) + sum_list (map (\<lambda>(k, v). json_count v) ms), ts)"
    using "10.prems" by (intro "10.IH"(2)) auto
  with u k "10.prems"(2) show ?case
    by (subst parse_members.simps) (simp add: good_string_text map_of_eq_None_iff add.assoc)
qed (auto simp: parseJSONValue.simps)

lemma normalize_list_ok:
  assumes "\<And>v c. v \<in> set vs \<Longrightarrow> c + json_count v \<le> MaxTotalItems \<Longrightarrow> \<exists>n. normalizeJSON v d c = Inr (n, c + json_count v)"
    and "c + sum_list (map json_count vs) \<le> MaxTotalItems"
  shows "\<exists>ns. normalize_items vs d c = Inr (ns, c + sum_list (map json_count vs))"
  using assms
proof (induction vs arbitrary: c)
  case (Cons v vs)
  obtain n where "normalizeJSON v d c = Inr (n, c + json_count v)" using Cons.prems(1) [of v c] Cons.prems(2) by auto
  moreover obtain ns where "normalize_items vs d (c + json_count v) = Inr (ns, c + json_count v + sum_list (map json_count vs))"
    using Cons.IH [of "c + json_count v"] Cons.prems by auto
  ultimately show ?case by (simp add: add.assoc)
qed simp

lemma normalize_map_ok:
  assumes "\<And>k v c. (k, v) \<in> set ms \<Longrightarrow> good_string k \<and> (c + json_count v \<le> MaxTotalItems \<longrightarrow> (\<exists>n. normalizeJSON v d c = Inr (n, c + json_count v)))"
    and "c + sum_list (map (\<lambda>(k, v). json_count v) ms) \<le> MaxTotalItems"
  shows "\<exists>ns. normalize_members ms d c = Inr (ns, c + sum_list (map (\<lambda>(k, v). json_count v) ms))"
  using assms
proof (induction ms arbitrary: c)
  case (Cons m ms)
  obtain k v where m: "m = (k, v)" by (cases m)
  obtain n where "normalizeJSON v d c = Inr (n, c + json_count v)" "good_string k" using Cons.prems(1) [of k v c] Cons.prems(2) m by auto
  moreover have "\<exists>ns. normalize_members ms d (c + json_count v) = Inr (ns, c + json_count v + sum_list (map (\<lambda>(k, v). json_count v) ms))"
  proof (rule Cons.IH)
    fix k' v' c' assume "(k', v') \<in> set ms"
    then show "good_string k' \<and> (c' + json_count v' \<le> MaxTotalItems \<longrightarrow> (\<exists>n. normalizeJSON v' d c' = Inr (n, c' + json_count v')))"
      by (intro Cons.prems(1)) simp
  qed (use Cons.prems(2) m in simp)
  ultimately show ?case by (auto simp: m add.assoc)
qed simp

lemma normalize_canon:
  "json_fits d j \<Longrightarrow> json_count (canon j) = json_count j \<and>
     (\<forall>c. c + json_count j \<le> MaxTotalItems \<longrightarrow> (\<exists>v. normalizeJSON (canon j) d c = Inr (v, c + json_count j)))"
proof (induction j arbitrary: d rule: canon.induct)
  case (2 vs)
  have count: "map (json_count \<circ> canon) vs = map json_count vs"
    using 2 by (auto simp: list_all_iff)
  have "\<exists>ns. normalize_items (map canon vs) (Suc d) c = Inr (ns, c + sum_list (map json_count vs))"
    if small: "c + sum_list (map json_count vs) \<le> MaxTotalItems" for c
  proof -
    have "\<exists>n. normalizeJSON v (Suc d) c = Inr (n, c + json_count v)"
      if v: "v \<in> set (map canon vs)" "c + json_count v \<le> MaxTotalItems" for v c
    proof -
      from v(1) obtain u where u: "u \<in> set vs" "v = canon u" by auto
      then have "json_fits (Suc d) u" using "2.prems" by (simp add: list_all_iff)
      from 2(1) [OF u(1) this] show ?thesis using v(2) u(2) by simp
    qed
    from normalize_list_ok [of "map canon vs" "Suc d" c, OF this] small count show ?thesis by simp
  qed
  note items = this
  show ?case
  proof (intro conjI allI impI)
    show "json_count (canon (JArray vs)) = json_count (JArray vs)" using count by (simp del: map_eq_conv)
    fix c assume "c + json_count (JArray vs) \<le> MaxTotalItems"
    then have c: "Suc c + sum_list (map json_count vs) \<le> MaxTotalItems" "\<not> Suc c > MaxTotalItems" by simp_all
    from items [OF c(1)] c(2) "2.prems" count show "\<exists>v. normalizeJSON (canon (JArray vs)) d c = Inr (v, c + json_count (JArray vs))"
      by (auto simp: normalizeJSON.simps)
  qed
next
  case (3 ms)
  let ?ms = "map (\<lambda>(k, v). (json_text k, canon v)) ms"
  have good: "good_string k" "json_fits (Suc d) v" if "(k, v) \<in> set ms" for k v
    using that "3.prems" by (auto simp: list_all_iff)
  have keys: "map fst ?ms = map fst ms" using good by (auto simp: good_string_text)
  have "distinct (map fst ?ms)" unfolding keys using "3.prems" by simp
  then have ms: "mset (put_all ?ms []) = mset ?ms" using mset_put_all [of ?ms "[]"] by (simp del: map_map mset_map)
  have IH: "json_count (canon u) = json_count u \<and> (\<forall>c. c + json_count u \<le> MaxTotalItems \<longrightarrow>
      (\<exists>v. normalizeJSON (canon u) (Suc d) c = Inr (v, c + json_count u)))" if "(k, u) \<in> set ms" for k u
    using 3(1) [OF that refl good(2) [OF that]] .
  then have "map (\<lambda>(k, v). json_count v) ?ms = map (\<lambda>(k, v). json_count v) ms" by auto
  then have sum: "sum_list (map (\<lambda>(k, v). json_count v) (put_all ?ms [])) = sum_list (map (\<lambda>(k, v). json_count v) ms)"
    using arg_cong [OF ms, of "\<lambda>m. sum_mset (image_mset (\<lambda>(k, v). json_count v) m)"]
    by (simp only: mset_map [symmetric] sum_mset_sum_list)
  have len: "length (put_all ?ms []) = length ms" using arg_cong [OF ms, of size] by (simp only: size_mset length_map)
  have "\<exists>ns. normalize_members (put_all ?ms []) (Suc d) c = Inr (ns, c + sum_list (map (\<lambda>(k, v). json_count v) ms))"
    if "c + sum_list (map (\<lambda>(k, v). json_count v) ms) \<le> MaxTotalItems" for c
  proof -
    have "good_string k \<and> (c + json_count v \<le> MaxTotalItems \<longrightarrow> (\<exists>n. normalizeJSON v (Suc d) c = Inr (n, c + json_count v)))"
      if kv: "(k, v) \<in> set (put_all ?ms [])" for k v c
    proof -
      have "(k, v) \<in> set ?ms" using kv ms by (metis set_mset_mset)
      then obtain k' u where u: "(k', u) \<in> set ms" "k = json_text k'" "v = canon u" by auto
      then show ?thesis using good [OF u(1)] IH [OF u(1)] by (auto simp: good_string_text)
    qed
    from normalize_map_ok [of "put_all ?ms []" "Suc d" c, OF this] that sum show ?thesis by simp
  qed
  note items = this
  show ?case
  proof (intro conjI allI impI)
    show "json_count (canon (JObject ms)) = json_count (JObject ms)" using sum len by simp
    fix c assume "c + json_count (JObject ms) \<le> MaxTotalItems"
    then have c: "Suc c + sum_list (map (\<lambda>(k, v). json_count v) ms) \<le> MaxTotalItems" "\<not> Suc c > MaxTotalItems" by simp_all
    from items [OF c(1)] c(2) "3.prems" sum len show "\<exists>v. normalizeJSON (canon (JObject ms)) d c = Inr (v, c + json_count (JObject ms))"
      by (auto simp: normalizeJSON.simps)
  qed
qed (auto simp: normalizeJSON.simps good_string_text good_string_def json_text_valid)

lemma fits_decodes:
  assumes "json_fits 0 j" "json_count j \<le> MaxTotalItems"
  shows "is_ok (decodeJSONModel (tokens j))"
proof -
  obtain u where u: "parseJSONValue 0 0 (tokens j @ []) = Inr (u, json_count j, [])"
    using parse_fits(1) [OF assms(1), of 0 "[]"] assms(2) by auto
  then have "u = canon j" using parse_read(1) by blast
  moreover have "\<exists>v. normalizeJSON (canon j) 0 0 = Inr (v, 0 + json_count j)"
    using normalize_canon [OF assms(1)] assms(2) by (metis add_0)
  ultimately show ?thesis using u by (auto simp: decodeJSONModel_def)
qed

end
