(* ===== verification/Agreement.thy ===== *)
theory Agreement
  imports Codec "HOL-Library.AList"
begin

text \<open>
  Agent agreements (\<^verbatim>\<open>pkg/agentcommerce/agreement.go\<close>, with the text checks of \<^verbatim>\<open>intent.go\<close> and
  \<^verbatim>\<open>semantic_action.go\<close>): the agreement body and its validation, the authorization targets, the evidence
  that authorizes an agreement, and signed acceptances. Structures are serialised as the JSON trees
  their field tags give, through the canonical codec. SHA-256 and Ed25519 are parameters.
\<close>

subsection \<open>Bounded text: intent.go, semantic_action.go\<close>

definition boundedUTF8 :: "string \<Rightarrow> nat \<Rightarrow> nat \<Rightarrow> bool" where
  "boundedUTF8 v minimum maximum = (length v \<ge> minimum \<and> length v \<le> maximum \<and> ValidString v)"

definition boundedIdentifier :: "string \<Rightarrow> nat \<Rightarrow> bool" where
  "boundedIdentifier v maximum =
     (boundedUTF8 v 1 maximum \<and> trim_space v = v \<and> \<not> list_ex (\<lambda>c. (of_char c :: nat) \<in> {0, 13, 10}) v)"

definition canonicalDigestPattern :: "string \<Rightarrow> bool" where
  "canonicalDigestPattern v = prefixed_hex64 ''sha256:'' v"

text \<open>The loop over a set written as a list: every value is good and above the one before.\<close>

fun sorted_loop :: "(string \<Rightarrow> bool) \<Rightarrow> string option \<Rightarrow> string list \<Rightarrow> bool" where
  "sorted_loop good previous [] = True"
| "sorted_loop good previous (v # vs) =
     (if \<not> good v \<or> (case previous of None \<Rightarrow> False | Some p \<Rightarrow> p \<ge> v) then False else sorted_loop good (Some v) vs)"

definition validateSortedStrings :: "string list \<Rightarrow> nat \<Rightarrow> nat \<Rightarrow> bool" where
  "validateSortedStrings vs maximumItems maximumBytes =
     (if length vs > maximumItems then False else sorted_loop (\<lambda>v. boundedIdentifier v maximumBytes) None vs)"

definition validateSortedDigests :: "string list \<Rightarrow> nat \<Rightarrow> bool" where
  "validateSortedDigests vs maximum = (if length vs > maximum then False else sorted_loop canonicalDigestPattern None vs)"

definition canonicalUnsignedDecimal :: "string \<Rightarrow> bool" where
  "canonicalUnsignedDecimal v =
     (if v = ''0'' then True
      else if length v = 0 \<or> length v > 78 \<or> hd v = CHR ''0'' then False
      else list_all is_dec_digit v)"

text \<open>\<^verbatim>\<open>strings.Split\<close> at a one-character separator.\<close>

fun split_at :: "char \<Rightarrow> string \<Rightarrow> string list" where
  "split_at c [] = [[]]"
| "split_at c (d # s) = (if c = d then [] # split_at c s else (case split_at c s of p # ps \<Rightarrow> (d # p) # ps | [] \<Rightarrow> [[d]]))"

definition canonicalDecimal :: "string \<Rightarrow> bool" where
  "canonicalDecimal v =
     (if length v = 0 \<or> length v > 96 \<or> has_prefix v ''+'' \<or> has_prefix v ''-'' \<or> list_ex (\<lambda>c. c \<in> set ''eE'') v then False
      else let parts = split_at (CHR ''.'') v in
        if length parts > 2 \<or> \<not> canonicalUnsignedDecimal (parts ! 0) then False
        else if length parts = 2 then
          parts ! 1 \<noteq> [] \<and> \<not> has_suffix (parts ! 1) ''0'' \<and> list_all is_dec_digit (parts ! 1)
        else True)"

definition parseEd25519PublicKey :: "string \<Rightarrow> bytes option" where
  "parseEd25519PublicKey v =
     (if \<not> has_prefix v ''ed25519:'' then None
      else let encoded = trim_prefix v ''ed25519:'' in
        case hex_decode encoded of
          None \<Rightarrow> None
        | Some decoded \<Rightarrow> if length decoded \<noteq> 32 \<or> hex_encode decoded \<noteq> encoded then None else Some decoded)"

definition parseEd25519Signature :: "string \<Rightarrow> bytes option" where
  "parseEd25519Signature v =
     (if \<not> has_prefix v ''ed25519:'' then None
      else let encoded = trim_prefix v ''ed25519:'' in
        case rawurl_decode encoded of
          None \<Rightarrow> None
        | Some decoded \<Rightarrow> if length decoded \<noteq> 64 \<or> rawurl_encode decoded \<noteq> encoded then None else Some decoded)"

subsection \<open>The agreement: agreement.go\<close>

definition MaxAgreementParticipants :: nat where "MaxAgreementParticipants = 64"
definition MaxAgreementObligations :: nat where "MaxAgreementObligations = 256"
definition MaxAgreementPredicates :: nat where "MaxAgreementPredicates = 512"
definition MaxAgreementTermsBytes :: nat where "MaxAgreementTermsBytes = 262144"
definition MaxAgreementEvidenceBytes :: nat where "MaxAgreementEvidenceBytes = 1048576"

definition EvidenceProfileAgentSignature :: string where
  "EvidenceProfileAgentSignature = ''tos.agreement.evidence.agent-signature.v1''"
definition EvidenceProfileAuthoritySignature :: string where
  "EvidenceProfileAuthoritySignature = ''tos.agreement.evidence.authority-signature.v1''"
definition EvidenceProfilePaidDemandQuote :: string where
  "EvidenceProfilePaidDemandQuote = ''tos.agreement.evidence.paid-demand-quote.v1''"
definition AgreementAcceptanceContentType :: string where
  "AgreementAcceptanceContentType = ''application/vnd.tos.agreement-acceptance.v1+cbor''"
definition AuthorityAcceptanceContentType :: string where
  "AuthorityAcceptanceContentType = ''application/vnd.tos.agreement-authority-acceptance.v1+cbor''"
definition PaidDemandBuyerAcceptContentType :: string where
  "PaidDemandBuyerAcceptContentType = ''application/vnd.tos.paid-demand-buyer-accept.v1+cbor''"
definition PaidDemandProviderOfferContentType :: string where
  "PaidDemandProviderOfferContentType = ''application/vnd.tos.paid-demand-provider-offer.v1+cbor''"

record AgreementParticipant =
  ParticipantAgentID :: string
  Roles :: "string list"

record AgreementAmount =
  AssetNamespace :: string
  AssetIdentifier :: string
  AmountAtomic :: string
  AmountDecimal :: string
  AmountUnit :: string

record AgreementAuthoritySubject =
  SubjectKind :: string
  SubjectNamespace :: string
  SubjectIdentifier :: string
  RepresentedAgentID :: string

record AgreementAuthorizationPredicate =
  PredicateID :: string
  PredicateSubject :: AgreementAuthoritySubject
  RoleScope :: "string list"
  ObligationIDs :: "string list"
  EvidenceProfileURI :: string
  EvidenceProfileVersion :: u32
  EvidenceProfileDigest :: string
  EvidenceTargetProjectionDigest :: string
  PredicateValidFromUnix :: u64
  PredicateExpiresAtUnix :: u64
  PredicateRequiredExtensions :: "string list"
  PredicateOptionalExtensions :: "string list"

record BillingTerms =
  BillingKind :: string
  FirstSequence :: u64
  RecurrenceStartUnix :: u64
  RecurrenceEndUnix :: u64
  RecurrenceCount :: u64
  RecurrenceIntervalSecs :: u64
  MaximumAggregateAmount :: AgreementAmount
  CancellationCutoffPolicy :: string

record AgreementObligation =
  ObligationID :: string
  ObligationKind :: string
  ObligorAgentID :: string
  BeneficiaryAgentID :: string
  DependsOnObligationIDs :: "string list"
  SubjectContentType :: string
  ObligationSubject :: bytes
  AttachmentDigests :: "string list"
  Amount :: "AgreementAmount option"
  NotBeforeUnix :: u64
  DueAtUnix :: u64
  ObligationExpiresAtUnix :: u64
  AcceptanceEvidenceRequirements :: "string list"
  ConfidentialityPolicy :: string
  CancellationPolicy :: string
  DisputePolicy :: string
  ObligationBillingTerms :: "BillingTerms option"
  SettlementAdapterURI :: string
  SettlementParameters :: bytes
  AuthorizationPredicateIDs :: "string list"
  RequiredExtensions :: "string list"
  OptionalExtensions :: "string list"

text \<open>The optional extensions of a body are a Go map: members by name, a value nil or bytes.\<close>

record AgentAgreementBody =
  SchemaVersion :: u16
  AgreementID :: string
  AgreementVersion :: u64
  PredecessorAgreementDigest :: string
  NetworkContext :: string
  Participants :: "AgreementParticipant list"
  ReferencedIntents :: "string list"
  TermsContentType :: string
  Terms :: bytes
  BodyAttachmentDigests :: "string list"
  Obligations :: "AgreementObligation list"
  AuthorizationPredicates :: "AgreementAuthorizationPredicate list"
  BodyRequiredExtensions :: "string list"
  BodyOptionalExtensions :: "(string \<times> bytes option) list"
  ValidFromUnix :: u64
  ExpiresAtUnix :: u64

record AgreementAuthorizationEvidence =
  EvidenceAgreementID :: string
  EvidenceAgreementVersion :: u64
  EvidenceBodyDigest :: string
  EvidenceSubject :: AgreementAuthoritySubject
  EvidencePredicateIDs :: "string list"
  EvidenceURI :: string
  EvidenceVersion :: u32
  EvidenceDigest :: string
  EvidenceTargets :: "string list"
  EvidenceContentType :: string
  EvidenceBytes :: bytes

record AgentAgreement =
  AgreementBody :: AgentAgreementBody
  AuthorizationEvidence :: "AgreementAuthorizationEvidence list"

record AgreementAcceptanceBody =
  AcceptanceAgreementID :: string
  AcceptanceAgreementVersion :: u64
  AcceptanceBodyDigest :: string
  AcceptingSubject :: AgreementAuthoritySubject
  AcceptedRoles :: "string list"
  AcceptancePredicateIDs :: "string list"
  AcceptanceTargets :: "string list"
  AcceptanceExpiresAtUnix :: u64

record SignedAgreementAcceptance =
  AcceptanceBody :: AgreementAcceptanceBody
  AcceptancePublicKey :: string
  AcceptanceSignature :: string

text \<open>An error carries the text of the source; \<open>Panicked\<close> is a panic.\<close>

datatype agreement_error = Err string | CodecFailed codec_error | Panicked agreement_error

definition codec :: "codec_error + 'a \<Rightarrow> agreement_error + 'a" where
  "codec m = (case m of Inl e \<Rightarrow> Inl (CodecFailed e) | Inr x \<Rightarrow> Inr x)"

subsection \<open>The JSON of the structures\<close>

text \<open>Field tags: a plain field is always written, an \<^verbatim>\<open>omitempty\<close> field only when it is not empty or zero.
  Byte slices are Base64 strings. A slice without \<^verbatim>\<open>omitempty\<close> is never empty where it is written: the
  validations before refuse that.\<close>

definition plain :: "string \<Rightarrow> json \<Rightarrow> (string \<times> json) list" where
  "plain tag j = [(tag, j)]"
definition jstrs :: "string list \<Rightarrow> json" where
  "jstrs vs = JArray (map JString vs)"
definition juint :: "'a::len word \<Rightarrow> json" where
  "juint w = JNumber (dec_string (unat w))"
definition jbytes :: "bytes \<Rightarrow> json" where
  "jbytes b = JString (base64_encode b)"
definition opt_str :: "string \<Rightarrow> string \<Rightarrow> (string \<times> json) list" where
  "opt_str tag s = (if s = [] then [] else [(tag, JString s)])"
definition opt_strs :: "string \<Rightarrow> string list \<Rightarrow> (string \<times> json) list" where
  "opt_strs tag vs = (if vs = [] then [] else [(tag, jstrs vs)])"
definition opt_uint :: "string \<Rightarrow> u64 \<Rightarrow> (string \<times> json) list" where
  "opt_uint tag w = (if w = 0 then [] else [(tag, juint w)])"
definition opt_bytes :: "string \<Rightarrow> bytes \<Rightarrow> (string \<times> json) list" where
  "opt_bytes tag b = (if b = [] then [] else [(tag, jbytes b)])"
definition opt_json :: "string \<Rightarrow> json option \<Rightarrow> (string \<times> json) list" where
  "opt_json tag j = (case j of None \<Rightarrow> [] | Some v \<Rightarrow> [(tag, v)])"

definition participant_json :: "AgreementParticipant \<Rightarrow> json" where
  "participant_json p = JObject (plain ''agent_id'' (JString (ParticipantAgentID p)) @ plain ''roles'' (jstrs (Roles p)))"

definition amount_json :: "AgreementAmount \<Rightarrow> json" where
  "amount_json a = JObject
     (plain ''asset_namespace'' (JString (AssetNamespace a)) @ plain ''asset_identifier'' (JString (AssetIdentifier a)) @
      opt_str ''amount_atomic'' (AmountAtomic a) @ opt_str ''amount_decimal'' (AmountDecimal a) @
      plain ''unit'' (JString (AmountUnit a)))"

definition subject_json :: "AgreementAuthoritySubject \<Rightarrow> json" where
  "subject_json s = JObject
     (plain ''subject_kind'' (JString (SubjectKind s)) @ plain ''subject_namespace'' (JString (SubjectNamespace s)) @
      plain ''subject_identifier'' (JString (SubjectIdentifier s)) @ opt_str ''represented_agent_id'' (RepresentedAgentID s))"

definition billing_json :: "BillingTerms \<Rightarrow> json" where
  "billing_json t = JObject
     (plain ''billing_kind'' (JString (BillingKind t)) @ plain ''first_sequence'' (juint (FirstSequence t)) @
      opt_uint ''recurrence_start_unix'' (RecurrenceStartUnix t) @ opt_uint ''recurrence_end_unix'' (RecurrenceEndUnix t) @
      opt_uint ''recurrence_count'' (RecurrenceCount t) @ opt_uint ''recurrence_interval_seconds'' (RecurrenceIntervalSecs t) @
      plain ''maximum_aggregate_amount'' (amount_json (MaximumAggregateAmount t)) @
      plain ''cancellation_cutoff_policy'' (JString (CancellationCutoffPolicy t)))"

definition obligation_json :: "AgreementObligation \<Rightarrow> json" where
  "obligation_json b = JObject
     (plain ''obligation_id'' (JString (ObligationID b)) @ plain ''kind'' (JString (ObligationKind b)) @
      plain ''obligor_agent_id'' (JString (ObligorAgentID b)) @ opt_str ''beneficiary_agent_id'' (BeneficiaryAgentID b) @
      opt_strs ''depends_on_obligation_ids'' (DependsOnObligationIDs b) @
      plain ''subject_content_type'' (JString (SubjectContentType b)) @ plain ''subject'' (jbytes (ObligationSubject b)) @
      opt_strs ''attachment_digests'' (AttachmentDigests b) @ opt_json ''amount'' (map_option amount_json (Amount b)) @
      opt_uint ''not_before_unix'' (NotBeforeUnix b) @ opt_uint ''due_at_unix'' (DueAtUnix b) @
      opt_uint ''expires_at_unix'' (ObligationExpiresAtUnix b) @
      opt_strs ''acceptance_evidence_requirements'' (AcceptanceEvidenceRequirements b) @
      plain ''confidentiality_and_disclosure_policy'' (JString (ConfidentialityPolicy b)) @
      plain ''cancellation_policy'' (JString (CancellationPolicy b)) @ plain ''dispute_policy'' (JString (DisputePolicy b)) @
      opt_json ''billing_terms'' (map_option billing_json (ObligationBillingTerms b)) @
      opt_str ''settlement_adapter_uri'' (SettlementAdapterURI b) @ opt_bytes ''settlement_parameters'' (SettlementParameters b) @
      plain ''authorization_predicate_ids'' (jstrs (AuthorizationPredicateIDs b)) @
      opt_strs ''required_extensions'' (RequiredExtensions b) @ opt_strs ''optional_extensions'' (OptionalExtensions b))"

text \<open>The members of a predicate around its target, which the policy projection leaves out.\<close>

definition predicate_json :: "(string \<times> json) list \<Rightarrow> AgreementAuthorizationPredicate \<Rightarrow> json" where
  "predicate_json target p = JObject
     (plain ''predicate_id'' (JString (PredicateID p)) @ plain ''authority_subject'' (subject_json (PredicateSubject p)) @
      opt_strs ''role_scope'' (RoleScope p) @ plain ''obligation_ids'' (jstrs (ObligationIDs p)) @
      plain ''evidence_profile_uri'' (JString (EvidenceProfileURI p)) @
      plain ''evidence_profile_version'' (juint (EvidenceProfileVersion p)) @
      plain ''evidence_profile_digest'' (JString (EvidenceProfileDigest p)) @ target @
      opt_uint ''valid_from_unix'' (PredicateValidFromUnix p) @ plain ''expires_at_unix'' (juint (PredicateExpiresAtUnix p)) @
      opt_strs ''required_extensions'' (PredicateRequiredExtensions p) @ opt_strs ''optional_extensions'' (PredicateOptionalExtensions p))"

definition extension_json :: "bytes option \<Rightarrow> json" where
  "extension_json v = (case v of None \<Rightarrow> JNull | Some b \<Rightarrow> jbytes b)"

definition extensions_json :: "(string \<times> bytes option) list \<Rightarrow> json option" where
  "extensions_json m = (if m = [] then None else Some (JObject (map (\<lambda>(k, v). (k, extension_json v)) m)))"

text \<open>The members of a body around its predicates, which the core projection leaves out.\<close>

definition body_json :: "(string \<times> json) list \<Rightarrow> AgentAgreementBody \<Rightarrow> json" where
  "body_json predicates b = JObject
     (plain ''schema_version'' (juint (SchemaVersion b)) @ plain ''agreement_id'' (JString (AgreementID b)) @
      plain ''version'' (juint (AgreementVersion b)) @ opt_str ''predecessor_agreement_digest'' (PredecessorAgreementDigest b) @
      plain ''network_context'' (JString (NetworkContext b)) @
      plain ''participants'' (JArray (map participant_json (Participants b))) @
      opt_strs ''referenced_intents'' (ReferencedIntents b) @ plain ''terms_content_type'' (JString (TermsContentType b)) @
      plain ''terms'' (jbytes (Terms b)) @ opt_strs ''attachment_digests'' (BodyAttachmentDigests b) @
      plain ''obligations'' (JArray (map obligation_json (Obligations b))) @ predicates @
      opt_strs ''required_extensions'' (BodyRequiredExtensions b) @
      opt_json ''optional_extensions'' (extensions_json (BodyOptionalExtensions b)) @
      plain ''valid_from_unix'' (juint (ValidFromUnix b)) @ plain ''expires_at_unix'' (juint (ExpiresAtUnix b)))"

definition agreement_json :: "AgentAgreementBody \<Rightarrow> json" where
  "agreement_json b = body_json (plain ''authorization_predicates'' (JArray (map (\<lambda>p. predicate_json
     (plain ''evidence_target_projection_digest'' (JString (EvidenceTargetProjectionDigest p))) p) (AuthorizationPredicates b)))) b"

definition acceptance_json :: "AgreementAcceptanceBody \<Rightarrow> json" where
  "acceptance_json a = JObject
     (plain ''agreement_id'' (JString (AcceptanceAgreementID a)) @ plain ''agreement_version'' (juint (AcceptanceAgreementVersion a)) @
      plain ''agreement_body_digest'' (JString (AcceptanceBodyDigest a)) @
      plain ''accepting_subject'' (subject_json (AcceptingSubject a)) @ opt_strs ''accepted_roles'' (AcceptedRoles a) @
      plain ''predicate_ids'' (jstrs (AcceptancePredicateIDs a)) @
      plain ''evidence_target_projection_digests'' (jstrs (AcceptanceTargets a)) @
      plain ''expires_at_unix'' (juint (AcceptanceExpiresAtUnix a)))"

definition signed_acceptance_json :: "SignedAgreementAcceptance \<Rightarrow> json" where
  "signed_acceptance_json s = JObject
     (plain ''body'' (acceptance_json (AcceptanceBody s)) @ plain ''public_key'' (JString (AcceptancePublicKey s)) @
      plain ''signature'' (JString (AcceptanceSignature s)))"

subsection \<open>Amounts, billing terms, subjects\<close>

definition validateAgreementAmount :: "AgreementAmount \<Rightarrow> agreement_error + unit" where
  "validateAgreementAmount a =
     (if \<not> boundedIdentifier (AssetNamespace a) 128 \<or> \<not> boundedIdentifier (AssetIdentifier a) 256 \<or>
         \<not> boundedIdentifier (AmountUnit a) 128 \<or> (AmountAtomic a = []) = (AmountDecimal a = [])
      then Inl (Err ''agreement amount is incomplete or ambiguous'')
      else if AmountAtomic a \<noteq> [] \<and> \<not> canonicalUnsignedDecimal (AmountAtomic a) \<or>
              AmountDecimal a \<noteq> [] \<and> \<not> canonicalDecimal (AmountDecimal a)
      then Inl (Err ''agreement amount is not canonical'')
      else Inr ())"

definition ValidateAgreementAmount :: "AgreementAmount \<Rightarrow> agreement_error + unit" where
  "ValidateAgreementAmount a = validateAgreementAmount a"

definition billing_recurrence :: "BillingTerms \<Rightarrow> agreement_error + unit" where
  "billing_recurrence t =
     (if BillingKind t \<in> {''one_time'', ''deposit'', ''milestone'', ''installment'', ''accumulated''} then
        (if RecurrenceStartUnix t \<noteq> 0 \<or> RecurrenceEndUnix t \<noteq> 0 \<or> RecurrenceCount t \<noteq> 0 \<or> RecurrenceIntervalSecs t \<noteq> 0
         then Inl (Err ''non-periodic billing carries recurrence fields'') else Inr ())
      else if BillingKind t = ''periodic'' then
        (if RecurrenceStartUnix t = 0 \<or> RecurrenceEndUnix t \<le> RecurrenceStartUnix t \<or> RecurrenceCount t = 0 \<or>
            RecurrenceCount t > 10000 \<or> RecurrenceIntervalSecs t = 0
         then Inl (Err ''periodic billing is unbounded'') else Inr ())
      else Inl (Err ''billing kind is invalid''))"

definition validateBillingTerms :: "BillingTerms \<Rightarrow> AgreementAmount \<Rightarrow> agreement_error + unit" where
  "validateBillingTerms t amount =
     ebind (billing_recurrence t) (\<lambda>_.
       let cap = MaximumAggregateAmount t in
       if FirstSequence t = 0 \<or> \<not> boundedIdentifier (CancellationCutoffPolicy t) 256 \<or> \<not> is_ok (validateAgreementAmount cap) \<or>
          AssetNamespace cap \<noteq> AssetNamespace amount \<or> AssetIdentifier cap \<noteq> AssetIdentifier amount \<or>
          AmountUnit cap \<noteq> AmountUnit amount
       then Inl (Err ''billing aggregate cap is invalid'') else Inr ())"

definition validAuthoritySubject :: "AgreementAuthoritySubject \<Rightarrow> bool" where
  "validAuthoritySubject s =
     (if SubjectKind s \<notin> {''agent'', ''wallet'', ''custody_principal'', ''key_owner'', ''data_owner'', ''capability_owner''} then False
      else if \<not> boundedIdentifier (SubjectNamespace s) 128 \<or> \<not> boundedIdentifier (SubjectIdentifier s) 256 then False
      else if SubjectKind s = ''agent'' then RepresentedAgentID s = []
      else boundedIdentifier (RepresentedAgentID s) 256)"

definition NUL :: string where "NUL = [CHR 0x00]"

definition subject_key :: "AgreementAuthoritySubject \<Rightarrow> string" where
  "subject_key s = SubjectKind s @ NUL @ SubjectNamespace s @ NUL @ SubjectIdentifier s @ NUL @ RepresentedAgentID s"

text \<open>\<^verbatim>\<open>sort.SearchStrings\<close>: the least index whose value is not below the target, by bisection.\<close>

function search_strings :: "string list \<Rightarrow> string \<Rightarrow> nat \<Rightarrow> nat \<Rightarrow> nat" where
  "search_strings vs target i j =
     (if i < j then
        let h = (i + j) div 2 in
        if \<not> vs ! h \<ge> target then search_strings vs target (h + 1) j else search_strings vs target i h
      else i)"
  by pat_completeness auto

termination by (relation "measure (\<lambda>(vs, target, i, j). j - i)") auto

declare search_strings.simps [simp del]

definition containsSorted :: "string list \<Rightarrow> string \<Rightarrow> bool" where
  "containsSorted vs target =
     (let index = search_strings vs target 0 (length vs) in index < length vs \<and> vs ! index = target)"

fun equalStrings :: "string list \<Rightarrow> string list \<Rightarrow> bool" where
  "equalStrings [] [] = True"
| "equalStrings (x # xs) (y # ys) = (if x \<noteq> y then False else equalStrings xs ys)"
| "equalStrings _ _ = False"

subsection \<open>The cycle check\<close>

text \<open>The obligations of a body by identifier, and the marks of the depth-first search.\<close>

datatype mark = Visiting | Visited

type_synonym obligation_map = "(string \<times> AgreementObligation) list"

definition depends_on :: "obligation_map \<Rightarrow> string \<Rightarrow> string list" where
  "depends_on obligations identifier =
     (case map_of obligations identifier of None \<Rightarrow> [] | Some b \<Rightarrow> DependsOnObligationIDs b)"

definition obligation_ids :: "obligation_map \<Rightarrow> string set" where
  "obligation_ids obligations = fst ` set obligations"

function (sequential) visit :: "obligation_map \<Rightarrow> string \<Rightarrow> (string \<times> mark) list \<Rightarrow> bool \<times> (string \<times> mark) list"
  and visit_all :: "obligation_map \<Rightarrow> string list \<Rightarrow> (string \<times> mark) list \<Rightarrow> bool \<times> (string \<times> mark) list" where
  "visit obligations identifier state =
     (if map_of state identifier = Some Visiting then (True, state)
      else if map_of state identifier = Some Visited then (False, state)
      else case visit_all obligations (depends_on obligations identifier) (AList.update identifier Visiting state) of
        (True, state') \<Rightarrow> (True, state')
      | (False, state') \<Rightarrow> (False, AList.update identifier Visited state'))"
| "visit_all obligations [] state = (False, state)"
| "visit_all obligations (dependency # rest) state =
     (case visit obligations dependency state of
        (True, state') \<Rightarrow> (True, state')
      | (False, state') \<Rightarrow> visit_all obligations rest state')"
  by pat_completeness auto

lemma visit_marks:
  "visit_visit_all_dom (Inl (obs, i, st)) \<Longrightarrow> fst ` set st \<subseteq> fst ` set (snd (visit obs i st))"
  "visit_visit_all_dom (Inr (obs, is, st)) \<Longrightarrow> fst ` set st \<subseteq> fst ` set (snd (visit_all obs is st))"
proof (induction obs i st and obs "is" st rule: visit_visit_all.pinduct)
  case (1 obs i st)
  then show ?case by (auto simp: visit.psimps dom_update split: prod.splits bool.splits) (force dest: subsetD)+
next
  case (2 obs st)
  then show ?case by (simp add: visit_all.psimps)
next
  case (3 obs d ds st)
  obtain c st' where v: "visit obs d st = (c, st')" by (cases "visit obs d st")
  with "3.IH"(1) have "fst ` set st \<subseteq> fst ` set st'" by simp
  moreover have "\<not> c \<Longrightarrow> fst ` set st' \<subseteq> fst ` set (snd (visit_all obs ds st'))"
    using "3.IH"(2) [OF v [symmetric]] by simp
  ultimately show ?case using v "3.hyps" by (cases c) (simp_all add: visit_all.psimps)
qed

lemma fresh_marks:
  assumes "i \<in> obligation_ids obs" "map_of st i = None"
  shows "card (obligation_ids obs - fst ` set (AList.update i Visiting st)) < card (obligation_ids obs - fst ` set st)"
proof (rule psubset_card_mono)
  show "finite (obligation_ids obs - fst ` set st)" by (simp add: obligation_ids_def)
  show "obligation_ids obs - fst ` set (AList.update i Visiting st) \<subset> obligation_ids obs - fst ` set st"
    using assms by (auto simp: dom_update map_of_eq_None_iff)
qed

termination visit
proof (relation "inv_image (less_than <*lex*> less_than) (\<lambda>x. case x of
    Inl (obs, i, st) \<Rightarrow> (card (obligation_ids obs - fst ` set st), 1)
  | Inr (obs, is, st) \<Rightarrow> (card (obligation_ids obs - fst ` set st), 2 * length is))", goal_cases)
  case (2 obs i st)
  then have fresh: "map_of st i = None" by (cases "map_of st i"; cases "the (map_of st i)") auto
  show ?case
  proof (cases "i \<in> obligation_ids obs")
    case True
    with fresh_marks [OF this fresh] show ?thesis by simp
  next
    case False
    then have "depends_on obs i = []" "obligation_ids obs - fst ` set (AList.update i Visiting st) = obligation_ids obs - fst ` set st"
      by (auto simp: depends_on_def obligation_ids_def dom_update dest!: map_of_SomeD split: option.splits) force
    then show ?thesis by simp
  qed
next
  case (4 obs d ds st c st')
  then have "snd (visit obs d st) = st'" "fst ` set st \<subseteq> fst ` set (snd (visit obs d st))"
    using visit_marks(1) [of obs d st] by (simp_all add: 4(1) [symmetric])
  then have "fst ` set st \<subseteq> fst ` set st'" by simp
  then have "card (obligation_ids obs - fst ` set st') \<le> card (obligation_ids obs - fst ` set st)"
    by (intro card_mono) (auto simp: obligation_ids_def)
  then show ?case by auto
qed (auto intro: wf_inv_image)

declare visit.simps [simp del] visit_all.simps [simp del]

fun cycle_loop :: "obligation_map \<Rightarrow> string list \<Rightarrow> (string \<times> mark) list \<Rightarrow> bool" where
  "cycle_loop obligations [] state = False"
| "cycle_loop obligations (identifier # rest) state =
     (case visit obligations identifier state of
        (True, _) \<Rightarrow> True
      | (False, state') \<Rightarrow> cycle_loop obligations rest state')"

text \<open>\<^verbatim>\<open>agreementHasCycle\<close>, for an iteration order of the map.\<close>

definition agreementHasCycle :: "string list \<Rightarrow> obligation_map \<Rightarrow> bool" where
  "agreementHasCycle order obligations = cycle_loop obligations order []"

subsection \<open>Digests and evidence profiles\<close>

record agreement_lib = codec_lib +
  decodeAcceptance :: "json \<Rightarrow> SignedAgreementAcceptance option"
  publicKeyOf :: "bytes \<Rightarrow> bytes"
  edSign :: "bytes \<Rightarrow> bytes \<Rightarrow> bytes"
  edVerify :: "bytes \<Rightarrow> bytes \<Rightarrow> bytes \<Rightarrow> bool"

abbreviation codec_of :: "agreement_lib \<Rightarrow> codec_lib" where
  "codec_of L \<equiv> codec_lib.truncate L"

definition framedSHA256 :: "agreement_lib \<Rightarrow> string \<Rightarrow> bytes \<Rightarrow> bytes" where
  "framedSHA256 L domain canonical =
     sha256 L (str_bytes (domain @ NUL) @ PutUint32 (of_nat (length canonical)) @ canonical)"

definition ProfileDescriptorDigest ::
  "agreement_lib \<Rightarrow> string \<Rightarrow> u32 \<Rightarrow> string list \<Rightarrow> string list \<Rightarrow> string \<Rightarrow> string \<Rightarrow> string \<Rightarrow> string
   \<Rightarrow> agreement_error + string" where
  "ProfileDescriptorDigest L profileURI profileVersion allowedSubjectKinds evidenceContentTypes predicateGroupingRule
     targetBindingRule verifierProfileURI validityPolicy =
     (if \<not> boundedIdentifier profileURI 256 \<or> profileVersion = 0 \<or> \<not> validateSortedStrings allowedSubjectKinds 16 64 \<or>
         \<not> validateSortedStrings evidenceContentTypes 16 128 \<or> \<not> boundedIdentifier predicateGroupingRule 256 \<or>
         \<not> boundedIdentifier targetBindingRule 256 \<or> \<not> boundedIdentifier verifierProfileURI 256 \<or>
         \<not> boundedIdentifier validityPolicy 256
      then Inl (Err ''agreement acceptance profile is invalid'')
      else ebind (codec (Marshal (codec_of L) (JObject
        (plain ''profile_uri'' (JString profileURI) @ plain ''profile_version'' (juint profileVersion) @
         plain ''allowed_subject_kinds'' (jstrs allowedSubjectKinds) @ plain ''evidence_content_types'' (jstrs evidenceContentTypes) @
         plain ''predicate_grouping_rule'' (JString predicateGroupingRule) @ plain ''target_binding_rule'' (JString targetBindingRule) @
         plain ''verifier_profile_uri'' (JString verifierProfileURI) @ plain ''validity_policy'' (JString validityPolicy))))) (\<lambda>canonical.
        Inr (''sha256:'' @ hex_encode (framedSHA256 L ''tos.agreement-acceptance-profile.v1'' canonical))))"

definition or_panic :: "agreement_error + 'a \<Rightarrow> agreement_error + 'a" where
  "or_panic m = (case m of Inl e \<Rightarrow> Inl (Panicked e) | Inr x \<Rightarrow> Inr x)"

definition AgentSignatureProfileDigest :: "agreement_lib \<Rightarrow> agreement_error + string" where
  "AgentSignatureProfileDigest L = or_panic (ProfileDescriptorDigest L EvidenceProfileAgentSignature 1 [''agent'']
     [AgreementAcceptanceContentType] ''complete-subject-profile-group'' ''agreement-predicate-target-v1''
     ''tos.verifier.agent-signature.v1'' ''expires-before-agreement'')"

definition AuthoritySignatureProfileDigest :: "agreement_lib \<Rightarrow> agreement_error + string" where
  "AuthoritySignatureProfileDigest L = or_panic (ProfileDescriptorDigest L EvidenceProfileAuthoritySignature 1
     [''capability_owner'', ''custody_principal'', ''data_owner'', ''key_owner'', ''wallet'']
     [AuthorityAcceptanceContentType] ''complete-subject-profile-group'' ''agreement-predicate-target-v1''
     ''tos.verifier.authority-signature.v1'' ''expires-before-agreement'')"

definition PaidDemandQuoteProfileDigest :: "agreement_lib \<Rightarrow> agreement_error + string" where
  "PaidDemandQuoteProfileDigest L = or_panic (ProfileDescriptorDigest L EvidenceProfilePaidDemandQuote 1 [''agent'', ''wallet'']
     [PaidDemandBuyerAcceptContentType, PaidDemandProviderOfferContentType] ''complete-subject-profile-group''
     ''agreement-predicate-target-v1'' ''tos.verifier.paid-demand-quote.v1'' ''finalized-before-agreement-expiry'')"

definition agreementCoreBytes :: "agreement_lib \<Rightarrow> AgentAgreementBody \<Rightarrow> agreement_error + bytes" where
  "agreementCoreBytes L body = codec (Marshal (codec_of L) (body_json [] body))"

definition agreementPolicyBytes :: "agreement_lib \<Rightarrow> AgreementAuthorizationPredicate list \<Rightarrow> agreement_error + bytes" where
  "agreementPolicyBytes L predicates = codec (Marshal (codec_of L) (JArray (map (predicate_json []) predicates)))"

subsection \<open>Validation of a body\<close>

definition MaxInt64 :: u64 where "MaxInt64 = 9223372036854775807"

fun participants_loop ::
  "string \<Rightarrow> (string \<times> AgreementParticipant) list \<Rightarrow> AgreementParticipant list
   \<Rightarrow> agreement_error + (string \<times> AgreementParticipant) list" where
  "participants_loop previous participants [] = Inr participants"
| "participants_loop previous participants (p # ps) =
     (if \<not> boundedIdentifier (ParticipantAgentID p) 256 \<or> ParticipantAgentID p \<le> previous \<or> Roles p = [] \<or>
         \<not> validateSortedStrings (Roles p) 32 128
      then Inl (Err ''agreement participants must be sorted, unique, and valid'')
      else participants_loop (ParticipantAgentID p) (AList.update (ParticipantAgentID p) p participants) ps)"

text \<open>\<^verbatim>\<open>participants[id].AgentID == ""\<close>: a missing entry is the zero value.\<close>

definition unknown_participant :: "(string \<times> AgreementParticipant) list \<Rightarrow> string \<Rightarrow> bool" where
  "unknown_participant participants identifier =
     (case map_of participants identifier of None \<Rightarrow> True | Some p \<Rightarrow> ParticipantAgentID p = [])"

definition predicate_valid :: "string \<Rightarrow> AgreementAuthorizationPredicate \<Rightarrow> bool" where
  "predicate_valid previous p =
     (\<not> (\<not> boundedIdentifier (PredicateID p) 128 \<or> PredicateID p \<le> previous \<or>
         \<not> validAuthoritySubject (PredicateSubject p) \<or> \<not> validateSortedStrings (RoleScope p) 32 128 \<or>
         \<not> validateSortedStrings (ObligationIDs p) MaxAgreementObligations 128 \<or> ObligationIDs p = [] \<or>
         \<not> boundedIdentifier (EvidenceProfileURI p) 256 \<or> EvidenceProfileVersion p = 0 \<or>
         \<not> canonicalDigestPattern (EvidenceProfileDigest p) \<or> PredicateValidFromUnix p > MaxInt64 \<or>
         PredicateExpiresAtUnix p = 0 \<or> PredicateExpiresAtUnix p > MaxInt64 \<or>
         PredicateValidFromUnix p > PredicateExpiresAtUnix p \<or> \<not> validateSortedStrings (PredicateRequiredExtensions p) 64 256 \<or>
         \<not> validateSortedStrings (PredicateOptionalExtensions p) 64 256))"

definition target_valid :: "bool \<Rightarrow> AgreementAuthorizationPredicate \<Rightarrow> bool" where
  "target_valid requireTargets p =
     (\<not> (requireTargets \<and> \<not> canonicalDigestPattern (EvidenceTargetProjectionDigest p) \<or>
         \<not> requireTargets \<and> EvidenceTargetProjectionDigest p \<noteq> []))"

definition builtin_profile ::
  "string \<Rightarrow> (agreement_error + string) \<Rightarrow> (string \<Rightarrow> bool) \<Rightarrow> string \<Rightarrow> AgreementAuthorizationPredicate
   \<Rightarrow> agreement_error + unit" where
  "builtin_profile uri expected kindOk message p =
     (if EvidenceProfileURI p \<noteq> uri then Inr ()
      else if EvidenceProfileVersion p \<noteq> 1 then Inl (Err message)
      else ebind expected (\<lambda>d.
        if EvidenceProfileDigest p \<noteq> d \<or> \<not> kindOk (SubjectKind (PredicateSubject p)) then Inl (Err message) else Inr ()))"

definition builtin_profiles :: "agreement_lib \<Rightarrow> AgreementAuthorizationPredicate \<Rightarrow> agreement_error + unit" where
  "builtin_profiles L p =
     ebind (builtin_profile EvidenceProfileAgentSignature (AgentSignatureProfileDigest L) (\<lambda>k. k = ''agent'')
       ''built-in Agent-signature evidence profile descriptor mismatch'' p) (\<lambda>_.
     ebind (builtin_profile EvidenceProfileAuthoritySignature (AuthoritySignatureProfileDigest L) (\<lambda>k. k \<noteq> ''agent'')
       ''built-in authority-signature evidence profile descriptor mismatch'' p) (\<lambda>_.
     builtin_profile EvidenceProfilePaidDemandQuote (PaidDemandQuoteProfileDigest L) (\<lambda>k. k = ''agent'' \<or> k = ''wallet'')
       ''built-in Paid Demand Quote evidence profile descriptor mismatch'' p))"

type_synonym predicate_map = "(string \<times> AgreementAuthorizationPredicate) list"

fun predicates_loop ::
  "agreement_lib \<Rightarrow> bool \<Rightarrow> string \<Rightarrow> predicate_map \<Rightarrow> AgreementAuthorizationPredicate list
   \<Rightarrow> agreement_error + predicate_map" where
  "predicates_loop L requireTargets previous predicates [] = Inr predicates"
| "predicates_loop L requireTargets previous predicates (p # ps) =
     (if \<not> predicate_valid previous p then Inl (Err ''agreement authorization predicate is invalid'')
      else if \<not> target_valid requireTargets p then Inl (Err ''agreement authorization target is invalid'')
      else ebind (builtin_profiles L p) (\<lambda>_.
        predicates_loop L requireTargets (PredicateID p) (AList.update (PredicateID p) p predicates) ps))"

definition obligation_valid :: "(string \<times> AgreementParticipant) list \<Rightarrow> obligation_map \<Rightarrow> AgreementObligation \<Rightarrow> bool" where
  "obligation_valid participants obligations b =
     (\<not> (map_of obligations (ObligationID b) \<noteq> None \<or> \<not> boundedIdentifier (ObligationID b) 128 \<or>
         \<not> boundedIdentifier (ObligationKind b) 64 \<or> unknown_participant participants (ObligorAgentID b) \<or>
         BeneficiaryAgentID b \<noteq> [] \<and> unknown_participant participants (BeneficiaryAgentID b) \<or>
         \<not> boundedIdentifier (SubjectContentType b) 128 \<or> ObligationSubject b = [] \<or>
         length (ObligationSubject b) > MaxAgreementTermsBytes \<or>
         \<not> validateSortedDigests (AttachmentDigests b) 256 \<or>
         \<not> validateSortedStrings (DependsOnObligationIDs b) MaxAgreementObligations 128 \<or>
         \<not> validateSortedStrings (AcceptanceEvidenceRequirements b) 64 256 \<or>
         \<not> validateSortedStrings (AuthorizationPredicateIDs b) MaxAgreementPredicates 128 \<or>
         AuthorizationPredicateIDs b = [] \<or> \<not> validateSortedStrings (RequiredExtensions b) 64 256 \<or>
         \<not> validateSortedStrings (OptionalExtensions b) 64 256 \<or> \<not> boundedIdentifier (ConfidentialityPolicy b) 256 \<or>
         \<not> boundedIdentifier (CancellationPolicy b) 256 \<or> \<not> boundedIdentifier (DisputePolicy b) 256))"

definition obligation_times :: "AgreementObligation \<Rightarrow> bool" where
  "obligation_times b =
     (\<not> (NotBeforeUnix b \<noteq> 0 \<and> ObligationExpiresAtUnix b \<noteq> 0 \<and> NotBeforeUnix b \<ge> ObligationExpiresAtUnix b \<or>
         DueAtUnix b \<noteq> 0 \<and> ObligationExpiresAtUnix b \<noteq> 0 \<and> DueAtUnix b > ObligationExpiresAtUnix b))"

definition obligation_value :: "AgreementObligation \<Rightarrow> agreement_error + unit" where
  "obligation_value b =
     (case Amount b of
        Some amount \<Rightarrow>
          if \<not> is_ok (validateAgreementAmount amount) \<or> \<not> boundedIdentifier (SettlementAdapterURI b) 256 \<or> SettlementParameters b = []
          then Inl (Err ''value-bearing obligation lacks exact amount or settlement adapter'')
          else (case ObligationBillingTerms b of None \<Rightarrow> Inr () | Some terms \<Rightarrow> validateBillingTerms terms amount)
      | None \<Rightarrow>
          if SettlementAdapterURI b \<noteq> [] \<or> SettlementParameters b \<noteq> [] \<or> ObligationBillingTerms b \<noteq> None
          then Inl (Err ''non-value obligation carries settlement terms'') else Inr ())"

fun obligations_loop ::
  "(string \<times> AgreementParticipant) list \<Rightarrow> obligation_map \<Rightarrow> AgreementObligation list \<Rightarrow> agreement_error + obligation_map" where
  "obligations_loop participants obligations [] = Inr obligations"
| "obligations_loop participants obligations (b # bs) =
     (if \<not> obligation_valid participants obligations b then Inl (Err ''agreement obligation is invalid'')
      else if \<not> obligation_times b then Inl (Err ''agreement obligation time bounds are invalid'')
      else ebind (obligation_value b) (\<lambda>_.
        obligations_loop participants (AList.update (ObligationID b) b obligations) bs))"

definition obligor_predicate :: "AgreementObligation \<Rightarrow> AgreementAuthorizationPredicate \<Rightarrow> bool" where
  "obligor_predicate b p =
     (let s = PredicateSubject p in
      SubjectKind s = ''agent'' \<and> SubjectIdentifier s = ObligorAgentID b \<or>
      SubjectKind s \<noteq> ''agent'' \<and> RepresentedAgentID s = ObligorAgentID b)"

text \<open>The predicates an obligation names: each known and covering it; the result says whether one of
  them is its obligor's.\<close>

fun obligation_predicates :: "predicate_map \<Rightarrow> AgreementObligation \<Rightarrow> string list \<Rightarrow> bool \<Rightarrow> agreement_error + bool" where
  "obligation_predicates predicates b [] authorized = Inr authorized"
| "obligation_predicates predicates b (i # is) authorized =
     (case map_of predicates i of
        None \<Rightarrow> Inl (Err ''obligation references an unknown or out-of-scope predicate'')
      | Some p \<Rightarrow>
          if \<not> containsSorted (ObligationIDs p) (ObligationID b)
          then Inl (Err ''obligation references an unknown or out-of-scope predicate'')
          else obligation_predicates predicates b is (authorized \<or> obligor_predicate b p))"

fun references_loop :: "predicate_map \<Rightarrow> obligation_map \<Rightarrow> AgreementObligation list \<Rightarrow> agreement_error + unit" where
  "references_loop predicates obligations [] = Inr ()"
| "references_loop predicates obligations (b # bs) =
     ebind (obligation_predicates predicates b (AuthorizationPredicateIDs b) False) (\<lambda>authorized.
       if \<not> authorized then Inl (Err ''obligation lacks its mandatory obligor predicate'')
       else if list_ex (\<lambda>d. map_of obligations d = None \<or> d = ObligationID b) (DependsOnObligationIDs b)
       then Inl (Err ''obligation dependency is invalid'')
       else references_loop predicates obligations bs)"

text \<open>Everything \<^verbatim>\<open>validateAgreementBody\<close> checks before it recomputes the targets.\<close>

definition validate_structure :: "agreement_lib \<Rightarrow> AgentAgreementBody \<Rightarrow> bool \<Rightarrow> agreement_error + unit" where
  "validate_structure L body requireTargets =
     (if SchemaVersion body \<noteq> 1 \<or> \<not> boundedIdentifier (AgreementID body) 256 \<or> AgreementVersion body = 0 \<or>
         \<not> boundedIdentifier (NetworkContext body) 256 \<or> ValidFromUnix body = 0 \<or> ValidFromUnix body > MaxInt64 \<or>
         ExpiresAtUnix body > MaxInt64 \<or> ExpiresAtUnix body \<le> ValidFromUnix body \<or>
         \<not> boundedIdentifier (TermsContentType body) 128 \<or> Terms body = [] \<or> length (Terms body) > MaxAgreementTermsBytes
      then Inl (Err ''agreement envelope is invalid'')
      else if AgreementVersion body = 1 \<and> PredecessorAgreementDigest body \<noteq> [] \<or>
              AgreementVersion body > 1 \<and> \<not> canonicalDigestPattern (PredecessorAgreementDigest body)
      then Inl (Err ''agreement predecessor is invalid'')
      else if length (Participants body) < 2 \<or> length (Participants body) > MaxAgreementParticipants
      then Inl (Err ''agreement participant count is invalid'')
      else ebind (participants_loop [] [] (Participants body)) (\<lambda>participants.
        if \<not> validateSortedDigests (ReferencedIntents body) 128 then Inl (Err ''referenced intents'')
        else if \<not> validateSortedDigests (BodyAttachmentDigests body) 256 then Inl (Err ''agreement attachments'')
        else if \<not> validateSortedStrings (BodyRequiredExtensions body) 64 256 \<or> length (BodyOptionalExtensions body) > 64
        then Inl (Err ''agreement extensions are invalid'')
        else if list_ex (\<lambda>(name, v). \<not> boundedIdentifier name 256 \<or> (case v of None \<Rightarrow> 0 | Some b \<Rightarrow> length b) > MaxAgreementTermsBytes)
                  (BodyOptionalExtensions body)
        then Inl (Err ''agreement optional extension is invalid'')
        else if AuthorizationPredicates body = [] \<or> length (AuthorizationPredicates body) > MaxAgreementPredicates
        then Inl (Err ''agreement authorization predicate count is invalid'')
        else ebind (predicates_loop L requireTargets [] [] (AuthorizationPredicates body)) (\<lambda>predicates.
          if Obligations body = [] \<or> length (Obligations body) > MaxAgreementObligations
          then Inl (Err ''agreement obligation count is invalid'')
          else ebind (obligations_loop participants [] (Obligations body)) (\<lambda>obligations.
            if list_ex (\<lambda>p. list_ex (\<lambda>i. map_of obligations i = None) (ObligationIDs p)) (AuthorizationPredicates body)
            then Inl (Err ''authorization predicate references an unknown obligation'')
            else ebind (references_loop predicates obligations (Obligations body)) (\<lambda>_.
              if agreementHasCycle (map fst obligations) obligations
              then Inl (Err ''agreement obligation graph contains a cycle'')
              else Inr ())))))"

subsection \<open>Authorization targets\<close>

definition predicate_target :: "agreement_lib \<Rightarrow> bytes \<Rightarrow> bytes \<Rightarrow> AgreementAuthorizationPredicate \<Rightarrow> string" where
  "predicate_target L coreDigest policyDigest p =
     ''sha256:'' @ hex_encode (sha256 L (str_bytes (''tos.agreement-authorization-target.v1'' @ NUL) @ coreDigest @ policyDigest @
       PutUint16 (of_nat (length (PredicateID p))) @ str_bytes (PredicateID p)))"

definition with_target :: "string \<Rightarrow> AgreementAuthorizationPredicate \<Rightarrow> AgreementAuthorizationPredicate" where
  "with_target t p = p\<lparr>EvidenceTargetProjectionDigest := t\<rparr>"

definition PrepareAgreementTargets :: "agreement_lib \<Rightarrow> AgentAgreementBody \<Rightarrow> agreement_error + AgentAgreementBody" where
  "PrepareAgreementTargets L body =
     ebind (validate_structure L body False) (\<lambda>_.
     ebind (agreementCoreBytes L body) (\<lambda>core.
     ebind (agreementPolicyBytes L (AuthorizationPredicates body)) (\<lambda>policy.
       let coreDigest = framedSHA256 L ''tos.agreement-core.v1'' core;
           policyDigest = framedSHA256 L ''tos.agreement-authorization-policy.v1'' policy in
       Inr (body\<lparr>AuthorizationPredicates :=
         map (\<lambda>p. with_target (predicate_target L coreDigest policyDigest p) p) (AuthorizationPredicates body)\<rparr>))))"

definition clear_targets :: "AgentAgreementBody \<Rightarrow> AgentAgreementBody" where
  "clear_targets body = body\<lparr>AuthorizationPredicates := map (with_target []) (AuthorizationPredicates body)\<rparr>"

definition validateAgreementBody :: "agreement_lib \<Rightarrow> AgentAgreementBody \<Rightarrow> bool \<Rightarrow> agreement_error + unit" where
  "validateAgreementBody L body requireTargets =
     ebind (validate_structure L body requireTargets) (\<lambda>_.
       if requireTargets then
         ebind (PrepareAgreementTargets L (clear_targets body)) (\<lambda>recomputed.
           if map EvidenceTargetProjectionDigest (AuthorizationPredicates body) \<noteq>
              map EvidenceTargetProjectionDigest (AuthorizationPredicates recomputed)
           then Inl (Err ''agreement authorization target digest mismatch'') else Inr ())
       else Inr ())"

definition ValidateAgreementBody :: "agreement_lib \<Rightarrow> AgentAgreementBody \<Rightarrow> agreement_error + unit" where
  "ValidateAgreementBody L body = validateAgreementBody L body True"

definition AgreementBodyDigest :: "agreement_lib \<Rightarrow> AgentAgreementBody \<Rightarrow> agreement_error + string" where
  "AgreementBodyDigest L body =
     ebind (ValidateAgreementBody L body) (\<lambda>_.
       codec (Digest (codec_of L) ''tos.agent-agreement-body.v1'' (agreement_json body)))"

definition ValidateAgreementSuccessor :: "agreement_lib \<Rightarrow> AgentAgreementBody \<Rightarrow> AgentAgreementBody \<Rightarrow> agreement_error + unit" where
  "ValidateAgreementSuccessor L predecessor successor =
     ebind (ValidateAgreementBody L predecessor) (\<lambda>_.
     ebind (ValidateAgreementBody L successor) (\<lambda>_.
       if AgreementID successor \<noteq> AgreementID predecessor then Inl (Err ''agreement successor changes Agreement ID'')
       else if AgreementVersion predecessor = - 1 \<or> AgreementVersion successor \<noteq> AgreementVersion predecessor + 1
       then Inl (Err ''agreement successor version is not consecutive'')
       else ebind (AgreementBodyDigest L predecessor) (\<lambda>predecessorDigest.
         if PredecessorAgreementDigest successor \<noteq> predecessorDigest
         then Inl (Err ''agreement successor does not bind the exact predecessor'')
         else if NetworkContext successor \<noteq> NetworkContext predecessor
         then Inl (Err ''agreement successor changes network context'')
         else Inr ())))"

subsection \<open>Authorization evidence\<close>

type_synonym evidence_verifier = "AgreementAuthorizationEvidence \<Rightarrow> int \<Rightarrow> agreement_error + unit"
type_synonym key_resolver = "string \<Rightarrow> bytes \<Rightarrow> int \<Rightarrow> agreement_error + unit"

definition group_key :: "AgreementAuthoritySubject \<Rightarrow> string \<Rightarrow> u32 \<Rightarrow> string \<Rightarrow> string" where
  "group_key subject uri version digest =
     subject_key subject @ NUL @ uri @ NUL @ dec_string (unat version) @ NUL @ digest"

definition predicate_key :: "AgreementAuthorizationPredicate \<Rightarrow> string" where
  "predicate_key p = group_key (PredicateSubject p) (EvidenceProfileURI p) (EvidenceProfileVersion p) (EvidenceProfileDigest p)"

definition evidence_key :: "AgreementAuthorizationEvidence \<Rightarrow> string" where
  "evidence_key e = group_key (EvidenceSubject e) (EvidenceURI e) (EvidenceVersion e) (EvidenceDigest e)"

type_synonym predicate_groups = "(string \<times> AgreementAuthorizationPredicate list) list"

definition group_of :: "predicate_groups \<Rightarrow> string \<Rightarrow> AgreementAuthorizationPredicate list" where
  "group_of groups key = (case map_of groups key of None \<Rightarrow> [] | Some ps \<Rightarrow> ps)"

fun groups_loop :: "int \<Rightarrow> predicate_groups \<Rightarrow> AgreementAuthorizationPredicate list \<Rightarrow> agreement_error + predicate_groups" where
  "groups_loop now groups [] = Inr groups"
| "groups_loop now groups (p # ps) =
     (if PredicateValidFromUnix p \<noteq> 0 \<and> now < time_unix (PredicateValidFromUnix p) \<or> \<not> now < time_unix (PredicateExpiresAtUnix p)
      then Inl (Err ''agreement authorization predicate is outside its validity window'')
      else groups_loop now (AList.update (predicate_key p) (group_of groups (predicate_key p) @ [p]) groups) ps)"

definition evidence_wellformed :: "AgentAgreementBody \<Rightarrow> string \<Rightarrow> AgreementAuthorizationEvidence \<Rightarrow> bool" where
  "evidence_wellformed body bodyDigest e =
     (\<not> (EvidenceAgreementID e \<noteq> AgreementID body \<or> EvidenceAgreementVersion e \<noteq> AgreementVersion body \<or>
         EvidenceBodyDigest e \<noteq> bodyDigest \<or> \<not> validAuthoritySubject (EvidenceSubject e) \<or> EvidencePredicateIDs e = [] \<or>
         length (EvidencePredicateIDs e) \<noteq> length (EvidenceTargets e) \<or>
         \<not> validateSortedStrings (EvidencePredicateIDs e) MaxAgreementPredicates 128 \<or>
         \<not> boundedIdentifier (EvidenceURI e) 256 \<or> EvidenceVersion e = 0 \<or> \<not> canonicalDigestPattern (EvidenceDigest e) \<or>
         \<not> boundedIdentifier (EvidenceContentType e) 128 \<or> EvidenceBytes e = [] \<or>
         length (EvidenceBytes e) > MaxAgreementEvidenceBytes))"

definition DecodeSignedAgreementAcceptance :: "agreement_lib \<Rightarrow> bytes \<Rightarrow> agreement_error + SignedAgreementAcceptance" where
  "DecodeSignedAgreementAcceptance L canonical = codec (Unmarshal (codec_of L) (decodeAcceptance L) canonical)"

definition EncodeSignedAgreementAcceptance :: "agreement_lib \<Rightarrow> SignedAgreementAcceptance \<Rightarrow> agreement_error + bytes" where
  "EncodeSignedAgreementAcceptance L acceptance = codec (Marshal (codec_of L) (signed_acceptance_json acceptance))"

text \<open>The expiry of an acceptance under the two signature profiles.\<close>

definition acceptance_window ::
  "agreement_lib \<Rightarrow> AgentAgreementBody \<Rightarrow> AgreementAuthorizationPredicate list \<Rightarrow> AgreementAuthorizationEvidence
   \<Rightarrow> agreement_error + unit" where
  "acceptance_window L body predicates e =
     (if EvidenceURI e = EvidenceProfileAgentSignature \<or> EvidenceURI e = EvidenceProfileAuthoritySignature then
        (case DecodeSignedAgreementAcceptance L (EvidenceBytes e) of
           Inl _ \<Rightarrow> Inl (Err ''agreement acceptance exceeds the body validity window'')
         | Inr acceptance \<Rightarrow>
             let expires = AcceptanceExpiresAtUnix (AcceptanceBody acceptance) in
             if expires > ExpiresAtUnix body then Inl (Err ''agreement acceptance exceeds the body validity window'')
             else if list_ex (\<lambda>p. expires > PredicateExpiresAtUnix p) predicates
             then Inl (Err ''agreement acceptance exceeds its predicate validity window'')
             else Inr ())
      else Inr ())"

fun evidence_loop ::
  "agreement_lib \<Rightarrow> AgentAgreementBody \<Rightarrow> string \<Rightarrow> evidence_verifier \<Rightarrow> int \<Rightarrow> predicate_groups \<Rightarrow> string list
   \<Rightarrow> AgreementAuthorizationEvidence list \<Rightarrow> agreement_error + string list" where
  "evidence_loop L body bodyDigest verifier now groups seen [] = Inr seen"
| "evidence_loop L body bodyDigest verifier now groups seen (e # es) =
     (if \<not> evidence_wellformed body bodyDigest e then Inl (Err ''agreement authorization evidence is invalid'')
      else if evidence_key e \<in> set seen then Inl (Err ''duplicate or partial agreement evidence group'')
      else let predicates = group_of groups (evidence_key e) in
        if length predicates \<noteq> length (EvidencePredicateIDs e)
        then Inl (Err ''agreement evidence does not cover its complete predicate group'')
        else if map PredicateID predicates \<noteq> EvidencePredicateIDs e \<or>
                map EvidenceTargetProjectionDigest predicates \<noteq> EvidenceTargets e
        then Inl (Err ''agreement evidence predicate or target mismatch'')
        else ebind (acceptance_window L body predicates e) (\<lambda>_.
             ebind (verifier e now) (\<lambda>_.
               evidence_loop L body bodyDigest verifier now groups (evidence_key e # seen) es)))"

definition validateAgreementEvidenceSet ::
  "agreement_lib \<Rightarrow> AgentAgreement \<Rightarrow> evidence_verifier option \<Rightarrow> int \<Rightarrow> bool \<Rightarrow> agreement_error + unit" where
  "validateAgreementEvidenceSet L agreement verifier now requireComplete =
     (let body = AgreementBody agreement in
      ebind (ValidateAgreementBody L body) (\<lambda>_.
        case verifier of
          None \<Rightarrow> Inl (Err ''agreement evidence verifier is required'')
        | Some verify \<Rightarrow>
            if now = zero_time then Inl (Err ''agreement evidence verifier is required'')
            else if now < time_unix (ValidFromUnix body) \<or> \<not> now < time_unix (ExpiresAtUnix body)
            then Inl (Err ''agreement body is outside its authorization validity window'')
            else ebind (AgreementBodyDigest L body) (\<lambda>bodyDigest.
              ebind (groups_loop now [] (AuthorizationPredicates body)) (\<lambda>groups.
              ebind (evidence_loop L body bodyDigest verify now groups [] (AuthorizationEvidence agreement)) (\<lambda>seen.
                if requireComplete \<and> list_ex (\<lambda>key. key \<notin> set seen) (map fst groups)
                then Inl (Err ''agreement authorization predicate is unsatisfied'') else Inr ())))))"

definition ValidateAgreementAuthorization ::
  "agreement_lib \<Rightarrow> AgentAgreement \<Rightarrow> evidence_verifier option \<Rightarrow> int \<Rightarrow> agreement_error + unit" where
  "ValidateAgreementAuthorization L agreement verifier now = validateAgreementEvidenceSet L agreement verifier now True"

definition ValidatePartialAgreementAuthorization ::
  "agreement_lib \<Rightarrow> AgentAgreement \<Rightarrow> evidence_verifier option \<Rightarrow> int \<Rightarrow> agreement_error + unit" where
  "ValidatePartialAgreementAuthorization L agreement verifier now = validateAgreementEvidenceSet L agreement verifier now False"

subsection \<open>Signed acceptances\<close>

definition acceptance_message :: "agreement_lib \<Rightarrow> bytes \<Rightarrow> bytes" where
  "acceptance_message L canonical = framedSHA256 L ''tos.agreement-acceptance-signature.v1'' canonical"

definition SignAgreementAcceptance ::
  "agreement_lib \<Rightarrow> AgreementAcceptanceBody \<Rightarrow> bytes \<Rightarrow> agreement_error + SignedAgreementAcceptance" where
  "SignAgreementAcceptance L body privateKey =
     (if length privateKey \<noteq> 64 \<or> \<not> validAuthoritySubject (AcceptingSubject body) \<or>
         \<not> canonicalDigestPattern (AcceptanceBodyDigest body) \<or> AcceptanceAgreementVersion body = 0 \<or>
         AcceptanceExpiresAtUnix body = 0 \<or> AcceptancePredicateIDs body = [] \<or>
         length (AcceptancePredicateIDs body) \<noteq> length (AcceptanceTargets body) \<or>
         \<not> validateSortedStrings (AcceptancePredicateIDs body) MaxAgreementPredicates 128 \<or>
         \<not> validateSortedStrings (AcceptedRoles body) 32 128
      then Inl (Err ''agreement acceptance is invalid'')
      else if list_ex (\<lambda>t. \<not> canonicalDigestPattern t) (AcceptanceTargets body)
      then Inl (Err ''agreement acceptance target is invalid'')
      else ebind (codec (Marshal (codec_of L) (acceptance_json body))) (\<lambda>canonical.
        Inr \<lparr>AcceptanceBody = body, AcceptancePublicKey = ''ed25519:'' @ hex_encode (publicKeyOf L privateKey),
             AcceptanceSignature = ''ed25519:'' @ rawurl_encode (edSign L privateKey (acceptance_message L canonical))\<rparr>))"

text \<open>The loop over the group: a target missing at an index is an index out of range.\<close>

fun evidence_group ::
  "u32 \<Rightarrow> string \<Rightarrow> AgreementAuthorizationPredicate list \<Rightarrow> string list \<Rightarrow> string list \<Rightarrow> agreement_error + unit" where
  "evidence_group version digest [] ids targets = Inr ()"
| "evidence_group version digest (p # ps) [] targets = Inl (Panicked (Err ''index out of range''))"
| "evidence_group version digest (p # ps) (i # is) targets =
     (if EvidenceProfileVersion p \<noteq> version \<or> EvidenceProfileDigest p \<noteq> digest \<or> PredicateID p \<noteq> i
      then Inl (Err ''typed acceptance predicate group is inconsistent'')
      else case targets of
        [] \<Rightarrow> Inl (Panicked (Err ''index out of range''))
      | t # ts \<Rightarrow> if EvidenceTargetProjectionDigest p \<noteq> t then Inl (Err ''typed acceptance predicate group is inconsistent'')
                  else evidence_group version digest ps is ts)"

definition AgentSignatureEvidence ::
  "agreement_lib \<Rightarrow> AgentAgreementBody \<Rightarrow> SignedAgreementAcceptance \<Rightarrow> agreement_error + AgreementAuthorizationEvidence" where
  "AgentSignatureEvidence L body acceptance =
     (let a = AcceptanceBody acceptance in
      ebind (ValidateAgreementBody L body) (\<lambda>_.
        case AgreementBodyDigest L body of
          Inl _ \<Rightarrow> Inl (Err ''typed acceptance does not target this Agreement'')
        | Inr digest \<Rightarrow>
            if AcceptanceAgreementID a \<noteq> AgreementID body \<or> AcceptanceAgreementVersion a \<noteq> AgreementVersion body \<or>
               AcceptanceBodyDigest a \<noteq> digest
            then Inl (Err ''typed acceptance does not target this Agreement'')
            else let predicates = filter (\<lambda>p. PredicateSubject p = AcceptingSubject a \<and>
                       EvidenceProfileURI p = EvidenceProfileAgentSignature) (AuthorizationPredicates body) in
              if predicates = [] \<or> length predicates \<noteq> length (AcceptancePredicateIDs a)
              then Inl (Err ''typed acceptance does not cover one complete Agent-signature predicate group'')
              else let profileVersion = EvidenceProfileVersion (hd predicates);
                       profileDigest = EvidenceProfileDigest (hd predicates) in
                ebind (evidence_group profileVersion profileDigest predicates (AcceptancePredicateIDs a) (AcceptanceTargets a)) (\<lambda>_.
                ebind (codec (Marshal (codec_of L) (signed_acceptance_json acceptance))) (\<lambda>canonical.
                  Inr \<lparr>EvidenceAgreementID = AgreementID body, EvidenceAgreementVersion = AgreementVersion body,
                       EvidenceBodyDigest = digest, EvidenceSubject = AcceptingSubject a,
                       EvidencePredicateIDs = AcceptancePredicateIDs a, EvidenceURI = EvidenceProfileAgentSignature,
                       EvidenceVersion = profileVersion, EvidenceDigest = profileDigest,
                       EvidenceTargets = AcceptanceTargets a,
                       EvidenceContentType = AgreementAcceptanceContentType, EvidenceBytes = canonical\<rparr>))))"

definition VerifySignedAgreementAcceptance ::
  "agreement_lib \<Rightarrow> SignedAgreementAcceptance \<Rightarrow> AgreementAuthorizationEvidence \<Rightarrow> key_resolver option \<Rightarrow> int
   \<Rightarrow> agreement_error + unit" where
  "VerifySignedAgreementAcceptance L acceptance expected resolver now =
     (let a = AcceptanceBody acceptance in
      if AcceptanceAgreementID a \<noteq> EvidenceAgreementID expected \<or> AcceptanceAgreementVersion a \<noteq> EvidenceAgreementVersion expected \<or>
         AcceptanceBodyDigest a \<noteq> EvidenceBodyDigest expected \<or> AcceptingSubject a \<noteq> EvidenceSubject expected \<or>
         \<not> equalStrings (AcceptancePredicateIDs a) (EvidencePredicateIDs expected) \<or>
         \<not> equalStrings (AcceptanceTargets a) (EvidenceTargets expected) \<or> \<not> now < time_unix (AcceptanceExpiresAtUnix a)
      then Inl (Err ''agreement acceptance does not match evidence'')
      else case resolver of
        None \<Rightarrow> Inl (Err ''agent acceptance requires an Agent authority resolver'')
      | Some authorizeIntentKey \<Rightarrow>
          if SubjectKind (AcceptingSubject a) \<noteq> ''agent'' then Inl (Err ''agent acceptance requires an Agent authority resolver'')
          else case parseEd25519PublicKey (AcceptancePublicKey acceptance) of
            None \<Rightarrow> Inl (Err ''public key is invalid'')
          | Some publicKey \<Rightarrow>
              ebind (authorizeIntentKey (SubjectIdentifier (AcceptingSubject a)) publicKey now) (\<lambda>_.
                case parseEd25519Signature (AcceptanceSignature acceptance) of
                  None \<Rightarrow> Inl (Err ''signature is invalid'')
                | Some signature \<Rightarrow>
                    ebind (codec (Marshal (codec_of L) (acceptance_json a))) (\<lambda>canonical.
                      if \<not> edVerify L publicKey (acceptance_message L canonical) signature
                      then Inl (Err ''agreement acceptance signature is invalid'') else Inr ())))"

definition VerifyAgreementEvidence :: "agreement_lib \<Rightarrow> key_resolver option \<Rightarrow> evidence_verifier" where
  "VerifyAgreementEvidence L resolver evidence now =
     (if EvidenceURI evidence \<noteq> EvidenceProfileAgentSignature \<or> EvidenceVersion evidence \<noteq> 1 then
        Inl (Err ''unsupported Agreement evidence profile'')
      else ebind (AgentSignatureProfileDigest L) (\<lambda>d.
        if EvidenceDigest evidence \<noteq> d \<or> EvidenceContentType evidence \<noteq> AgreementAcceptanceContentType \<or> resolver = None
        then Inl (Err ''unsupported Agreement evidence profile'')
        else ebind (DecodeSignedAgreementAcceptance L (EvidenceBytes evidence)) (\<lambda>acceptance.
          VerifySignedAgreementAcceptance L acceptance evidence resolver now)))"

end
