(* ===== verification/Execution_Gate.thy ===== *)
theory Execution_Gate
  imports Durable_Dir Native_State Agreement
begin

text \<open>
  The execution gate of a provider, \<^verbatim>\<open>pkg/executiongate\<close>: it admits an execution request only when
  the finalized escrow, the accepted quote, the provider's agent and the capability all authorise
  it, and then binds the quote and escrow durably to that one request (\<^verbatim>\<open>store.go\<close>). The chain
  readers are the interface values the gate is configured with: their answers during one call, and
  the clock, are the record \<open>gate_env\<close>. Decoding an accepted quote cell and verifying a paid-demand
  quote are functions of other packages and are the fields of \<open>gate_lib\<close>. Quote cells and
  provider offers are opaque to the gate; the agreement is the one of theory Agreement.
\<close>

subsection \<open>Textual identities: gate.go\<close>

definition validDigest :: "string \<Rightarrow> string \<Rightarrow> bool" where
  "validDigest v prefix =
     (if length v \<noteq> length prefix + 64 \<or> \<not> has_prefix v prefix \<or> v \<noteq> ToLower v then False
      else case hex_decode (drop (length prefix) v) of
        None \<Rightarrow> False
      | Some b \<Rightarrow> b \<noteq> zero_bytes 32)"

definition shaDigest :: "string \<Rightarrow> bool" where
  "shaDigest v = validDigest v ''sha256:''"

definition cellDigest :: "string \<Rightarrow> bool" where
  "cellDigest v = validDigest v ''tvm-cell-sha256:''"

definition agentID :: "string \<Rightarrow> bool" where
  "agentID v = (length v = 70 \<and> has_prefix v ''agent_'' \<and> validDigest (''sha256:'' @ drop 6 v) ''sha256:'')"

definition stringsCapabilityID :: "string \<Rightarrow> bool" where
  "stringsCapabilityID v =
     (length v = 68 \<and> length v > 4 \<and> take 4 v = ''cap_'' \<and> validDigest (''sha256:'' @ drop 4 v) ''sha256:'')"

text \<open>\<^verbatim>\<open>strings.Cut\<close> at the first separator.\<close>

definition Cut :: "string \<Rightarrow> char \<Rightarrow> string \<times> string \<times> bool" where
  "Cut s c =
     (let before = takeWhile (\<lambda>x. x \<noteq> c) s in
      if c \<in> set s then (before, drop (length before + 1) s, True) else (s, [], False))"

definition rawAddress :: "string \<Rightarrow> bool" where
  "rawAddress v =
     (let (wc, id, ok) = Cut v (CHR '':'') in
      ok \<and> wc = ''0'' \<and> length id = 64 \<and> validDigest (''sha256:'' @ id) ''sha256:'')"

subsection \<open>Requests and evidence\<close>

record Request =
  EscrowAddress :: string
  QuoteCommitment :: string
  ExecutionID :: string
  InputDigest :: string
  SourceDigest :: string

record Evidence =
  NetworkID :: string
  ProviderAgentID :: string
  EvProviderAddress :: string
  CapabilityID :: string
  CapabilityVersion :: string
  EvManifestDigest :: string
  EvQuoteCommitment :: string
  EvEscrowAddress :: string
  EscrowCodeHash :: string
  RegistryCodeHash :: string
  EscrowTransactionHash :: string
  AgentTransactionHash :: string
  CapabilityTransactionHash :: string
  EscrowFinalizedCheckpoint :: u64
  AgentFinalizedCheckpoint :: u64
  CapabilityFinalizedCheckpoint :: u64
  AgreementBodyDigest :: string
  ProviderOfferDigest :: string
  AcceptedAtUnix :: u64

definition validRequest :: "Request \<Rightarrow> bool" where
  "validRequest r = (rawAddress (EscrowAddress r) \<and> cellDigest (QuoteCommitment r) \<and>
     shaDigest (ExecutionID r) \<and> shaDigest (InputDigest r) \<and> shaDigest (SourceDigest r))"

definition validEvidence :: "Evidence \<Rightarrow> bool" where
  "validEvidence e = (NetworkID e \<noteq> [] \<and> agentID (ProviderAgentID e) \<and> rawAddress (EvProviderAddress e) \<and>
     stringsCapabilityID (CapabilityID e) \<and> CapabilityVersion e \<noteq> [] \<and> shaDigest (EvManifestDigest e) \<and>
     cellDigest (EvQuoteCommitment e) \<and> rawAddress (EvEscrowAddress e) \<and> cellDigest (EscrowCodeHash e) \<and>
     cellDigest (RegistryCodeHash e) \<and> shaDigest (EscrowTransactionHash e) \<and>
     shaDigest (AgentTransactionHash e) \<and> shaDigest (CapabilityTransactionHash e) \<and>
     EscrowFinalizedCheckpoint e > 0 \<and> AgentFinalizedCheckpoint e > 0 \<and>
     CapabilityFinalizedCheckpoint e > 0)"

definition sameObservation :: "u64 \<Rightarrow> string \<Rightarrow> u64 \<Rightarrow> string \<Rightarrow> bool" where
  "sameObservation oldCheckpoint oldTransaction newCheckpoint newTransaction =
     (oldCheckpoint \<noteq> newCheckpoint \<or> oldTransaction = newTransaction)"

definition authority_of :: "Evidence \<Rightarrow> Evidence" where
  "authority_of e = e\<lparr>EscrowFinalizedCheckpoint := 0, AgentFinalizedCheckpoint := 0,
     CapabilityFinalizedCheckpoint := 0, EscrowTransactionHash := [], AgentTransactionHash := [],
     CapabilityTransactionHash := []\<rparr>"

definition sameAuthority :: "Evidence \<Rightarrow> Evidence \<Rightarrow> bool" where
  "sameAuthority a b = (authority_of a = authority_of b)"

subsection \<open>The claim store: store.go\<close>

record claim_record =
  Schema :: string
  ClaimRequest :: Request
  ClaimEvidence :: Evidence

datatype claim_file = ClaimFile claim_record | ForeignClaim

datatype gate_error =
    BadConfig | BadTimeout | BadDirectory | BadClaim | EscrowUnavailable | NotExecutable | QuoteUndecodable
  | QuotePolicy | NativeUnavailable | NotNativeState | AgentInvalid | CapabilityInvalid | VersionInactive
  | ClaimLock | BadClaimRecord | BoundElsewhere | AuthorityChanged | CheckpointRegressed
  | ObservationChanged | ClaimWrite | ClaimRaced

definition claimSchema :: string where
  "claimSchema = ''tos.service.execution-claim.v1''"

definition claim_path :: "(string \<Rightarrow> bytes) \<Rightarrow> Request \<Rightarrow> string" where
  "claim_path H req =
     ''claim-'' @ hex_encode (H (QuoteCommitment req @ [CHR 0x00] @ EscrowAddress req)) @ ''.json''"

definition read_claim :: "bool \<Rightarrow> string \<Rightarrow> claim_file dir \<Rightarrow> gate_error + claim_record option" where
  "read_claim ok path d =
     (if \<not> ok then Inl BadClaimRecord
      else case map_of d path of
        None \<Rightarrow> Inr None
      | Some ForeignClaim \<Rightarrow> Inl BadClaimRecord
      | Some (ClaimFile r) \<Rightarrow>
          if Schema r \<noteq> claimSchema \<or> \<not> validRequest (ClaimRequest r) \<or> \<not> validEvidence (ClaimEvidence r) \<or>
             EvQuoteCommitment (ClaimEvidence r) \<noteq> QuoteCommitment (ClaimRequest r) \<or>
             EvEscrowAddress (ClaimEvidence r) \<noteq> EscrowAddress (ClaimRequest r)
          then Inl BadClaimRecord else Inr (Some r))"

definition write_claim ::
  "io_fault \<Rightarrow> string \<Rightarrow> claim_record \<Rightarrow> bool \<Rightarrow> claim_file dir \<Rightarrow> gate_error option \<times> claim_file dir" where
  "write_claim io path value replace d =
     (if replace then
        (let (ok, d') = atomicReplace io path (ClaimFile value) d in (if ok then None else Some ClaimWrite, d'))
      else
        (let (created, d') = atomicCreate io path (ClaimFile value) d
         in (case created of None \<Rightarrow> Some ClaimWrite | Some c \<Rightarrow> if c then None else Some ClaimRaced, d')))"

definition claim ::
  "(string \<Rightarrow> bytes) \<Rightarrow> op_io \<Rightarrow> Request \<Rightarrow> Evidence \<Rightarrow> claim_file dir \<Rightarrow> gate_error option \<times> claim_file dir" where
  "claim H io req evidence d =
     (let path = claim_path H req;
          new = \<lparr>Schema = claimSchema, ClaimRequest = req, ClaimEvidence = evidence\<rparr> in
      if \<not> LockOk io then (Some ClaimLock, d)
      else case read_claim (ReadOk io 0) path d of
        Inl e \<Rightarrow> (Some e, d)
      | Inr None \<Rightarrow> write_claim (FirstWrite io) path new False d
      | Inr (Some existing) \<Rightarrow>
          let old = ClaimEvidence existing in
          if ClaimRequest existing \<noteq> req then (Some BoundElsewhere, d)
          else if \<not> sameAuthority old evidence then (Some AuthorityChanged, d)
          else if EscrowFinalizedCheckpoint evidence < EscrowFinalizedCheckpoint old \<or>
                  AgentFinalizedCheckpoint evidence < AgentFinalizedCheckpoint old \<or>
                  CapabilityFinalizedCheckpoint evidence < CapabilityFinalizedCheckpoint old
            then (Some CheckpointRegressed, d)
          else if \<not> sameObservation (EscrowFinalizedCheckpoint old) (EscrowTransactionHash old)
                     (EscrowFinalizedCheckpoint evidence) (EscrowTransactionHash evidence) \<or>
                  \<not> sameObservation (AgentFinalizedCheckpoint old) (AgentTransactionHash old)
                     (AgentFinalizedCheckpoint evidence) (AgentTransactionHash evidence) \<or>
                  \<not> sameObservation (CapabilityFinalizedCheckpoint old) (CapabilityTransactionHash old)
                     (CapabilityFinalizedCheckpoint evidence) (CapabilityTransactionHash evidence)
            then (Some ObservationChanged, d)
          else if evidence = old then (None, d)
          else write_claim (FirstWrite io) path new True d)"

subsection \<open>What the gate reads from the chain\<close>

text \<open>The fields of a finalized escrow the gate reads; the accepted quote cell stays opaque.\<close>

record 'q EscrowState =
  EscrowStatus :: u8
  StateQuoteCommitment :: string
  BuyerAddress :: string
  ProviderAddress :: string
  FundingDeadline :: u64
  RefundAvailableAt :: u64
  FundedAtomicAmount :: string
  AcceptedQuote :: 'q

record 'q EscrowStateV2 = "'q EscrowState" +
  ExecutionDeadline :: u64
  StateAcceptedAtUnix :: u64

definition EscrowStatusFunded :: u8 where "EscrowStatusFunded = 1"
definition EscrowStatusFundedV2 :: u8 where "EscrowStatusFundedV2 = 2"

record 's FinalizedEscrow =
  FinalizedState :: "'s option"
  FinalizedReference :: "ChainReference option"

record QuoteProposal =
  ProposalCapabilityId :: string
  ProposalCapabilityVersion :: string
  ProposalProviderAgentId :: string
  ProposalManifestDigest :: string
  ProposalTransportBindingDigest :: string
  ProposalMaximumPrice :: "string option"

record QuoteTerms =
  Proposal :: QuoteProposal
  ExecutionSignerAuthorization :: string

record EscrowTermsV1 =
  TermsBuyerAddress :: string
  TermsProviderAddress :: string
  TermsFundingDeadline :: u64
  TermsRefundAvailableAt :: u64

text \<open>The functions of the quote packages that the gate calls: decoding a schema-1 quote, verifying
  a schema-2 quote against agreement, network, escrow terms and acceptance time (it returns the terms
  and the provider offer), the buyer named by an offer and the digest of an offer; \<open>commerceLib\<close> is the
  library the agreement functions run on.\<close>

record ('q, 'offer) gate_lib =
  DecodeAcceptedQuoteV1 :: "'q \<Rightarrow> NetworkDomain \<Rightarrow> QuoteTerms option"
  VerifyAcceptedQuote ::
    "'q \<Rightarrow> AgentAgreementBody \<Rightarrow> NetworkDomain \<Rightarrow> EscrowTermsV1 \<Rightarrow> int \<Rightarrow> (QuoteTerms \<times> 'offer) option"
  OfferBuyerAgentID :: "'offer \<Rightarrow> string"
  commerceLib :: agreement_lib
  OfferDigest :: "'offer \<Rightarrow> string"

text \<open>A digest whose error the gate discards is the empty string.\<close>

definition or_empty :: "'e + string \<Rightarrow> string" where
  "or_empty x = (case x of Inr d \<Rightarrow> d | Inl _ \<Rightarrow> [])"

text \<open>The answers of the chain readers and of the clock during one call: an error (\<open>Inl\<close>), or the
  object if it was found. A Native answer carries its finalization time; the two Native reads of a
  call are answered separately.\<close>

record 'q gate_env =
  EscrowAnswer :: "string \<Rightarrow> unit + 'q EscrowState FinalizedEscrow option"
  EscrowAnswerV2 :: "string \<Rightarrow> unit + 'q EscrowStateV2 FinalizedEscrow option"
  NativeAnswer :: "nat \<Rightarrow> string \<Rightarrow> unit + (NativeStateV1 \<times> int) option"
  Clock :: int

subsection \<open>The gate: gate.go\<close>

record 'a Gate =
  gate_network :: NetworkDomain
  registryHash :: string
  providerAgent :: string
  gate_provider :: string
  gate_manifest :: string
  gate_transport :: string
  signerAuth :: string
  gate_timeout :: int
  agreement :: 'a

text \<open>A configuration: which resolvers it carries, and whether its directory passes the checks of
  \<^verbatim>\<open>newStore\<close>.\<close>

record 'a Config =
  HasEscrowResolver :: bool
  HasNativeResolver :: bool
  HasOfferResolver :: bool
  DirectoryOk :: bool
  ConfigNetwork :: "NetworkDomain option"
  ConfigRegistryCodeHash :: string
  ConfigProviderAgentID :: string
  ConfigProviderAddress :: string
  ConfigManifestDigest :: string
  ConfigTransportDigest :: string
  ConfigSignerAuthorization :: string
  ConfigAgreement :: 'a
  ConfigTimeout :: int

definition Second :: int where
  "Second = 1000000000"

definition identities_valid :: "'a Config \<Rightarrow> NetworkDomain \<Rightarrow> bool" where
  "identities_valid c n = (NetworkId n \<noteq> [] \<and> cellDigest (ConfigRegistryCodeHash c) \<and>
     agentID (ConfigProviderAgentID c) \<and> rawAddress (ConfigProviderAddress c) \<and>
     shaDigest (ConfigManifestDigest c) \<and> shaDigest (ConfigTransportDigest c) \<and>
     shaDigest (ConfigSignerAuthorization c))"

definition build_gate :: "'a Config \<Rightarrow> NetworkDomain \<Rightarrow> gate_error + 'a Gate" where
  "build_gate c n =
     (let timeout = (if ConfigTimeout c = 0 then 30 * Second else ConfigTimeout c) in
      if timeout < Second \<or> timeout > 5 * Minute then Inl BadTimeout
      else if \<not> DirectoryOk c then Inl BadDirectory
      else Inr \<lparr>gate_network = n, registryHash = ConfigRegistryCodeHash c,
        providerAgent = ConfigProviderAgentID c, gate_provider = ConfigProviderAddress c,
        gate_manifest = ConfigManifestDigest c, gate_transport = ConfigTransportDigest c,
        signerAuth = ConfigSignerAuthorization c, gate_timeout = timeout, agreement = ConfigAgreement c\<rparr>)"

definition New :: "'a Config \<Rightarrow> gate_error + 'a Gate" where
  "New c =
     (case ConfigNetwork c of
        None \<Rightarrow> Inl BadConfig
      | Some n \<Rightarrow>
          if \<not> HasEscrowResolver c \<or> \<not> HasNativeResolver c \<or> \<not> identities_valid c n then Inl BadConfig
          else build_gate c n)"

definition NewPaidDemand :: "agreement_lib \<Rightarrow> AgentAgreementBody Config \<Rightarrow> gate_error + AgentAgreementBody Gate" where
  "NewPaidDemand L c =
     (case ConfigNetwork c of
        None \<Rightarrow> Inl BadConfig
      | Some n \<Rightarrow>
          if \<not> HasEscrowResolver c \<or> \<not> HasNativeResolver c \<or> \<not> HasOfferResolver c \<or>
             \<not> identities_valid c n \<or> \<not> is_ok (ValidateAgreementBody L (ConfigAgreement c)) then Inl BadConfig
          else build_gate c n)"

definition validReference :: "ChainReference option \<Rightarrow> string \<Rightarrow> bool" where
  "validReference r expectedCodeHash =
     (case r of
        None \<Rightarrow> False
      | Some r \<Rightarrow> RefFinalizedCheckpoint r > 0 \<and> cellDigest (RefContractCodeHash r) \<and>
          (expectedCodeHash = [] \<or> RefContractCodeHash r = expectedCodeHash) \<and>
          shaDigest (RefTransactionHash r))"

definition resolveNative ::
  "'a Gate \<Rightarrow> (string \<Rightarrow> unit + (NativeStateV1 \<times> int) option) \<Rightarrow> string \<Rightarrow> int \<Rightarrow> gate_error + NativeStateV1" where
  "resolveNative g answer obj now =
     (case answer obj of
        Inl _ \<Rightarrow> Inl NativeUnavailable
      | Inr None \<Rightarrow> Inl NotNativeState
      | Inr (Some (state, finalizedAt)) \<Rightarrow>
          if finalizedAt = zero_time \<or> finalizedAt > now + Minute \<or>
             \<not> validReference (StateReference state) (registryHash g) \<or>
             \<not> cellDigest (TvmStateHash state) \<or> StateNetwork state \<noteq> Some (gate_network g)
          then Inl NotNativeState else Inr state)"

definition version_active :: "'a Gate \<Rightarrow> string \<Rightarrow> CapabilityStateV1 \<Rightarrow> bool" where
  "version_active g version capability =
     list_ex (\<lambda>v. case v of
        None \<Rightarrow> False
      | Some v \<Rightarrow> Version v = version \<and> ManifestDigest v = gate_manifest g \<and> \<not> Revoked v)
       (CapabilityVersions capability)"

definition reference_of :: "ChainReference option \<Rightarrow> ChainReference" where
  "reference_of r = (case r of Some r \<Rightarrow> r | None \<Rightarrow>
     \<lparr>RefWorkchain = 0, RefAccount = [], RefLogicalTime = 0, RefTransactionHash = [],
      RefContractCodeHash = [], RefFinalizedCheckpoint = 0\<rparr>)"

definition evidence_of ::
  "'a Gate \<Rightarrow> Request \<Rightarrow> QuoteProposal \<Rightarrow> ChainReference \<Rightarrow> ChainReference \<Rightarrow> ChainReference \<Rightarrow> string \<Rightarrow> string \<Rightarrow> u64
   \<Rightarrow> Evidence" where
  "evidence_of g r p escrow agent capability agreementDigest offerDigest acceptedAt =
     \<lparr>NetworkID = NetworkId (gate_network g), ProviderAgentID = providerAgent g,
      EvProviderAddress = gate_provider g, CapabilityID = ProposalCapabilityId p,
      CapabilityVersion = ProposalCapabilityVersion p, EvManifestDigest = gate_manifest g,
      EvQuoteCommitment = QuoteCommitment r, EvEscrowAddress = EscrowAddress r,
      EscrowCodeHash = RefContractCodeHash escrow, RegistryCodeHash = registryHash g,
      EscrowTransactionHash = RefTransactionHash escrow, AgentTransactionHash = RefTransactionHash agent,
      CapabilityTransactionHash = RefTransactionHash capability,
      EscrowFinalizedCheckpoint = RefFinalizedCheckpoint escrow,
      AgentFinalizedCheckpoint = RefFinalizedCheckpoint agent,
      CapabilityFinalizedCheckpoint = RefFinalizedCheckpoint capability,
      AgreementBodyDigest = agreementDigest, ProviderOfferDigest = offerDigest, AcceptedAtUnix = acceptedAt\<rparr>"

definition quote_matches :: "'a Gate \<Rightarrow> QuoteTerms \<Rightarrow> string \<Rightarrow> bool" where
  "quote_matches g quote funded =
     (let p = Proposal quote in
      ProposalProviderAgentId p = providerAgent g \<and> ProposalManifestDigest p = gate_manifest g \<and>
      ProposalTransportBindingDigest p = gate_transport g \<and>
      ExecutionSignerAuthorization quote = signerAuth g \<and> ProposalMaximumPrice p = Some funded)"

text \<open>The two Native reads of a call and the checks on the agent.\<close>

definition resolve_agent :: "'a Gate \<Rightarrow> 'q gate_env \<Rightarrow> gate_error + NativeStateV1" where
  "resolve_agent g env =
     ebind (resolveNative g (NativeAnswer env 0) (providerAgent g) (Clock env)) (\<lambda>agentState.
       case GetAgent agentState of
         None \<Rightarrow> Inl AgentInvalid
       | Some agent \<Rightarrow>
           if AgentId agent \<noteq> providerAgent g \<or> AgentTombstoned agent then Inl AgentInvalid
           else Inr agentState)"

definition capability_authorizes :: "'a Gate \<Rightarrow> string \<Rightarrow> CapabilityStateV1 option \<Rightarrow> bool" where
  "capability_authorizes g capabilityId capability =
     (case capability of
        None \<Rightarrow> False
      | Some c \<Rightarrow> CapabilityId c = capabilityId \<and> OwnerAgentId c = providerAgent g \<and> \<not> CapabilityTombstoned c)"

definition resolve_capability :: "'a Gate \<Rightarrow> 'q gate_env \<Rightarrow> QuoteProposal \<Rightarrow> gate_error + NativeStateV1" where
  "resolve_capability g env p =
     ebind (resolveNative g (NativeAnswer env 1) (ProposalCapabilityId p) (Clock env)) (\<lambda>capabilityState.
       if \<not> capability_authorizes g (ProposalCapabilityId p) (GetCapability capabilityState)
         then Inl CapabilityInvalid
       else if \<not> (case GetCapability capabilityState of None \<Rightarrow> False
                  | Some c \<Rightarrow> version_active g (ProposalCapabilityVersion p) c) then Inl VersionInactive
       else Inr capabilityState)"

text \<open>A claim is recorded before it is reported: an error of the store is the error of the call.\<close>

definition record_claim ::
  "(string \<Rightarrow> bytes) \<Rightarrow> op_io \<Rightarrow> Request \<Rightarrow> Evidence \<Rightarrow> claim_file dir \<Rightarrow> (gate_error + Evidence) \<times> claim_file dir" where
  "record_claim H io r e d =
     (let (err, d') = claim H io r e d in (case err of None \<Rightarrow> Inr e | Some x \<Rightarrow> Inl x, d'))"

definition executable_escrow ::
  "'a Gate \<Rightarrow> int \<Rightarrow> Request \<Rightarrow> 'q EscrowState FinalizedEscrow option \<Rightarrow> ('q EscrowState \<times> ChainReference) option" where
  "executable_escrow g now r answer =
     (case answer of
        None \<Rightarrow> None
      | Some escrow \<Rightarrow>
          (case FinalizedState escrow of
             None \<Rightarrow> None
           | Some st \<Rightarrow>
               if Unix now < 0 \<or> \<not> validReference (FinalizedReference escrow) [] \<or>
                  EscrowStatus st \<noteq> EscrowStatusFunded \<or> StateQuoteCommitment st \<noteq> QuoteCommitment r \<or>
                  ProviderAddress st \<noteq> gate_provider g \<or> uint (RefundAvailableAt st) \<le> Unix now
               then None else Some (st, reference_of (FinalizedReference escrow))))"

definition verify_execution ::
  "('q, 'offer) gate_lib \<Rightarrow> 'a Gate \<Rightarrow> 'q gate_env \<Rightarrow> Request \<Rightarrow> gate_error + Evidence" where
  "verify_execution L g env r =
     (if \<not> rawAddress (EscrowAddress r) \<or> \<not> cellDigest (QuoteCommitment r) \<or> \<not> shaDigest (ExecutionID r) \<or>
         \<not> shaDigest (InputDigest r) \<or> \<not> shaDigest (SourceDigest r) then Inl BadClaim
      else case EscrowAnswer env (EscrowAddress r) of
        Inl _ \<Rightarrow> Inl EscrowUnavailable
      | Inr answer \<Rightarrow>
          (case executable_escrow g (Clock env) r answer of
             None \<Rightarrow> Inl NotExecutable
           | Some (st, escrowRef) \<Rightarrow>
               (case DecodeAcceptedQuoteV1 L (AcceptedQuote st) (gate_network g) of
                  None \<Rightarrow> Inl QuoteUndecodable
                | Some quote \<Rightarrow>
                    if \<not> quote_matches g quote (FundedAtomicAmount st) then Inl QuotePolicy
                    else ebind (resolve_agent g env) (\<lambda>agentState.
                      ebind (resolve_capability g env (Proposal quote)) (\<lambda>capabilityState.
                        Inr (evidence_of g r (Proposal quote) escrowRef (reference_of (StateReference agentState))
                               (reference_of (StateReference capabilityState)) [] [] 0))))))"

definition ClaimExecution ::
  "('q, 'offer) gate_lib \<Rightarrow> (string \<Rightarrow> bytes) \<Rightarrow> 'a Gate \<Rightarrow> 'q gate_env \<Rightarrow> op_io \<Rightarrow> Request \<Rightarrow> claim_file dir
   \<Rightarrow> (gate_error + Evidence) \<times> claim_file dir" where
  "ClaimExecution L H g env io r d =
     (case verify_execution L g env r of
        Inl e \<Rightarrow> (Inl e, d)
      | Inr evidence \<Rightarrow> record_claim H io r evidence d)"

subsection \<open>Paid-demand executions\<close>

definition agreementCommitsExecution ::
  "AgentAgreementBody \<Rightarrow> string \<Rightarrow> string \<Rightarrow> string \<Rightarrow> string \<Rightarrow> bool" where
  "agreementCommitsExecution body provider buyer inputDigest sourceDigest =
     (let inputExtension = ''tos.input.'' @ trim_prefix inputDigest ''sha256:'';
          sourceExtension = ''tos.source.'' @ trim_prefix sourceDigest ''sha256:'' in
      list_ex (\<lambda>obligation.
          ObligorAgentID obligation = provider \<and> BeneficiaryAgentID obligation = buyer \<and>
          list_ex (\<lambda>digest. digest = inputDigest) (AttachmentDigests obligation) \<and>
          list_ex (\<lambda>digest. digest = sourceDigest) (AttachmentDigests obligation) \<and>
          list_ex (\<lambda>extension. extension = inputExtension) (RequiredExtensions obligation) \<and>
          list_ex (\<lambda>extension. extension = sourceExtension) (RequiredExtensions obligation))
        (Obligations body))"

definition executable_escrow_v2 ::
  "'a Gate \<Rightarrow> int \<Rightarrow> Request \<Rightarrow> 'q EscrowStateV2 FinalizedEscrow option \<Rightarrow> ('q EscrowStateV2 \<times> ChainReference) option" where
  "executable_escrow_v2 g now r answer =
     (case answer of
        None \<Rightarrow> None
      | Some escrow \<Rightarrow>
          (case FinalizedState escrow of
             None \<Rightarrow> None
           | Some st \<Rightarrow>
               if Unix now < 0 \<or> \<not> validReference (FinalizedReference escrow) [] \<or>
                  EscrowStatus st \<noteq> EscrowStatusFundedV2 \<or> StateAcceptedAtUnix st = 0 \<or>
                  StateQuoteCommitment st \<noteq> QuoteCommitment r \<or> ProviderAddress st \<noteq> gate_provider g \<or>
                  uint (ExecutionDeadline st) \<le> Unix now \<or> uint (RefundAvailableAt st) \<le> Unix now
               then None else Some (st, reference_of (FinalizedReference escrow))))"

definition verify_paid_demand ::
  "('q, 'offer) gate_lib \<Rightarrow> AgentAgreementBody Gate \<Rightarrow> 'q gate_env \<Rightarrow> Request
   \<Rightarrow> gate_error + Evidence" where
  "verify_paid_demand L g env r =
     (if \<not> rawAddress (EscrowAddress r) \<or> \<not> cellDigest (QuoteCommitment r) \<or> \<not> shaDigest (ExecutionID r) \<or>
         \<not> shaDigest (InputDigest r) \<or> \<not> shaDigest (SourceDigest r) \<or> InputDigest r = SourceDigest r
        then Inl BadClaim
      else case EscrowAnswerV2 env (EscrowAddress r) of
        Inl _ \<Rightarrow> Inl EscrowUnavailable
      | Inr answer \<Rightarrow>
          (case executable_escrow_v2 g (Clock env) r answer of
             None \<Rightarrow> Inl NotExecutable
           | Some (st, escrowRef) \<Rightarrow>
               let terms = \<lparr>TermsBuyerAddress = BuyerAddress st, TermsProviderAddress = ProviderAddress st,
                     TermsFundingDeadline = FundingDeadline st, TermsRefundAvailableAt = RefundAvailableAt st\<rparr> in
               (case VerifyAcceptedQuote L (AcceptedQuote st) (agreement g) (gate_network g) terms
                       (time_unix (StateAcceptedAtUnix st)) of
                  None \<Rightarrow> Inl QuoteUndecodable
                | Some (quote, offer) \<Rightarrow>
                    if \<not> quote_matches g quote (FundedAtomicAmount st) \<or>
                       \<not> agreementCommitsExecution (agreement g) (providerAgent g) (OfferBuyerAgentID L offer)
                            (InputDigest r) (SourceDigest r) then Inl QuotePolicy
                    else ebind (resolve_agent g env) (\<lambda>agentState.
                      ebind (case resolve_capability g env (Proposal quote) of
                               Inl VersionInactive \<Rightarrow> Inl CapabilityInvalid | x \<Rightarrow> x) (\<lambda>capabilityState.
                        Inr (evidence_of g r (Proposal quote) escrowRef (reference_of (StateReference agentState))
                               (reference_of (StateReference capabilityState)) (or_empty (Agreement.AgreementBodyDigest (commerceLib L) (agreement g)))
                               (OfferDigest L offer) (StateAcceptedAtUnix st)))))))"

definition ClaimPaidDemandExecution ::
  "('q, 'offer) gate_lib \<Rightarrow> (string \<Rightarrow> bytes) \<Rightarrow> AgentAgreementBody Gate \<Rightarrow> 'q gate_env
   \<Rightarrow> op_io \<Rightarrow> Request \<Rightarrow> claim_file dir \<Rightarrow> (gate_error + Evidence) \<times> claim_file dir" where
  "ClaimPaidDemandExecution L H g env io r d =
     (case verify_paid_demand L g env r of
        Inl e \<Rightarrow> (Inl e, d)
      | Inr evidence \<Rightarrow> record_claim H io r evidence d)"

subsection \<open>Steps of a claim file\<close>

text \<open>The evidence of a claim may only be refreshed by evidence of the same authority that is at
  least as recent and agrees with it wherever a checkpoint is the same.\<close>

definition refreshes :: "Evidence \<Rightarrow> Evidence \<Rightarrow> bool" where
  "refreshes old new = (sameAuthority old new \<and>
     EscrowFinalizedCheckpoint old \<le> EscrowFinalizedCheckpoint new \<and>
     AgentFinalizedCheckpoint old \<le> AgentFinalizedCheckpoint new \<and>
     CapabilityFinalizedCheckpoint old \<le> CapabilityFinalizedCheckpoint new \<and>
     sameObservation (EscrowFinalizedCheckpoint old) (EscrowTransactionHash old)
       (EscrowFinalizedCheckpoint new) (EscrowTransactionHash new) \<and>
     sameObservation (AgentFinalizedCheckpoint old) (AgentTransactionHash old)
       (AgentFinalizedCheckpoint new) (AgentTransactionHash new) \<and>
     sameObservation (CapabilityFinalizedCheckpoint old) (CapabilityTransactionHash old)
       (CapabilityFinalizedCheckpoint new) (CapabilityTransactionHash new))"

lemma refreshes_refl: "refreshes e e"
  by (simp add: refreshes_def sameAuthority_def sameObservation_def)

lemma refreshes_trans: "refreshes a b \<Longrightarrow> refreshes b c \<Longrightarrow> refreshes a c"
  unfolding refreshes_def sameAuthority_def sameObservation_def
  by (metis (no_types, lifting) order_antisym order_trans)

inductive claim_step :: "claim_file option \<Rightarrow> claim_file option \<Rightarrow> bool" where
  keep: "claim_step f f"
| create: "claim_step None (Some (ClaimFile r))"
| refresh: "refreshes (ClaimEvidence r) e \<Longrightarrow> claim_step (Some (ClaimFile r)) (Some (ClaimFile (r\<lparr>ClaimEvidence := e\<rparr>)))"

inductive_simps claim_step_None: "claim_step f None"
inductive_simps claim_step_ClaimFile: "claim_step (Some (ClaimFile r)) f"

abbreviation new_claim :: "Request \<Rightarrow> Evidence \<Rightarrow> claim_record" where
  "new_claim req e \<equiv> \<lparr>Schema = claimSchema, ClaimRequest = req, ClaimEvidence = e\<rparr>"

definition well_recorded :: "claim_record \<Rightarrow> bool" where
  "well_recorded r = (Schema r = claimSchema \<and> validRequest (ClaimRequest r) \<and> validEvidence (ClaimEvidence r) \<and>
     EvQuoteCommitment (ClaimEvidence r) = QuoteCommitment (ClaimRequest r) \<and>
     EvEscrowAddress (ClaimEvidence r) = EscrowAddress (ClaimRequest r))"

lemma read_claim_Some:
  "read_claim ok path d = Inr (Some r) \<longleftrightarrow> ok \<and> map_of d path = Some (ClaimFile r) \<and> well_recorded r"
  by (auto simp: read_claim_def well_recorded_def split: option.splits claim_file.splits)

lemma read_claim_None: "read_claim ok path d = Inr None \<longleftrightarrow> ok \<and> map_of d path = None"
  by (auto simp: read_claim_def split: option.splits claim_file.splits)

text \<open>What a claim does to its own file, and that it touches no other.\<close>

lemma claim_cases:
  obtains (refused) err where "claim H io req e d = (Some err, d)"
  | (created) "map_of d (claim_path H req) = None"
      "claim H io req e d = write_claim (FirstWrite io) (claim_path H req) (new_claim req e) False d"
  | (same) r where "map_of d (claim_path H req) = Some (ClaimFile r)" "well_recorded r"
      "r = new_claim req e" "claim H io req e d = (None, d)"
  | (refreshed) r where "map_of d (claim_path H req) = Some (ClaimFile r)" "well_recorded r"
      "ClaimRequest r = req" "refreshes (ClaimEvidence r) e"
      "claim H io req e d = write_claim (FirstWrite io) (claim_path H req) (new_claim req e) True d"
proof (cases "LockOk io")
  case False
  then show ?thesis using refused by (auto simp: claim_def)
next
  case True
  show ?thesis
  proof (cases "read_claim (ReadOk io 0) (claim_path H req) d")
    case (Inl err)
    then show ?thesis using refused True by (auto simp: claim_def)
  next
    case (Inr found)
    show ?thesis
    proof (cases found)
      case None
      then show ?thesis
        using created True Inr by (auto simp: claim_def read_claim_None)
    next
      case (Some r)
      have r: "map_of d (claim_path H req) = Some (ClaimFile r)" "well_recorded r"
        using Inr Some by (simp_all add: read_claim_Some)
      consider err where "claim H io req e d = (Some err, d)"
        | "ClaimRequest r = req" "refreshes (ClaimEvidence r) e"
          "claim H io req e d = (if e = ClaimEvidence r then (None, d)
             else write_claim (FirstWrite io) (claim_path H req) (new_claim req e) True d)"
      proof (cases "ClaimRequest r = req \<and> refreshes (ClaimEvidence r) e")
        case ok: True
        then have "\<not> EscrowFinalizedCheckpoint e < EscrowFinalizedCheckpoint (ClaimEvidence r)"
          "\<not> AgentFinalizedCheckpoint e < AgentFinalizedCheckpoint (ClaimEvidence r)"
          "\<not> CapabilityFinalizedCheckpoint e < CapabilityFinalizedCheckpoint (ClaimEvidence r)"
          by (simp_all add: refreshes_def not_less)
        then have "claim H io req e d = (if e = ClaimEvidence r then (None, d)
             else write_claim (FirstWrite io) (claim_path H req) (new_claim req e) True d)"
          using True Inr Some ok by (simp add: claim_def refreshes_def Let_def)
        then show ?thesis using that(2) ok by blast
      next
        case bad: False
        have "\<exists>err. claim H io req e d = (Some err, d)"
          using True Inr Some bad by (auto simp: claim_def refreshes_def Let_def not_less)
        then show ?thesis using that(1) by blast
      qed
      then show ?thesis
      proof cases
        case 1
        then show ?thesis by (rule refused)
      next
        case 2
        have "r = new_claim req e" if "e = ClaimEvidence r"
          using that 2(1) r(2) by (simp add: well_recorded_def)
        then show ?thesis using same refreshed r 2 by (cases "e = ClaimEvidence r") auto
      qed
    qed
  qed
qed

lemma write_claim_map:
  "map_of (snd (write_claim io path r replace d)) p =
     (if p = path \<and> io \<noteq> IoFailBefore \<and> (replace \<or> map_of d path = None) then Some (ClaimFile r) else map_of d p)"
  by (auto simp: write_claim_def case_prod_beta Let_def map_of_atomicCreate map_of_atomicReplace)

lemma write_claim_ok:
  "fst (write_claim io path r replace d) = None \<Longrightarrow>
   map_of (snd (write_claim io path r replace d)) path = Some (ClaimFile r)"
  by (auto simp: write_claim_def case_prod_beta Let_def atomicCreate_created map_of_atomicReplace
      atomicReplace_def update_conv' split: option.splits if_splits)

lemma claim_file_step:
  "claim_step (map_of d p) (map_of (snd (claim H io req e d)) p)"
proof (cases rule: claim_cases [of H io req e d])
  case (refused err)
  then show ?thesis by (simp add: keep)
next
  case created
  then show ?thesis by (auto simp: write_claim_map intro: claim_step.intros)
next
  case (same r)
  then show ?thesis by (simp add: keep)
next
  case (refreshed r)
  have "new_claim req e = r\<lparr>ClaimEvidence := e\<rparr>"
    using refreshed(2,3) by (simp add: well_recorded_def)
  then show ?thesis
    using refreshed claim_step.refresh [of r e] by (auto simp: write_claim_map intro: keep)
qed

text \<open>An accepted claim is on disk with its request and evidence.\<close>

lemma claim_recorded:
  assumes "fst (claim H io req e d) = None"
  shows "map_of (snd (claim H io req e d)) (claim_path H req) = Some (ClaimFile (new_claim req e))"
proof (cases rule: claim_cases [of H io req e d])
  case created
  then show ?thesis using write_claim_ok assms by metis
next
  case (same r)
  then show ?thesis by simp
next
  case (refreshed r)
  then show ?thesis using write_claim_ok assms by metis
qed (use assms in simp)

subsection \<open>Runs of the gate\<close>

text \<open>The calls a provider's gates can make over the life of the claim directory, from any number of
  processes (the file lock serialises them), with any configuration, chain view and faults.\<close>

datatype 'q gate_call =
    ExecutionCall "AgentAgreementBody Gate" "'q gate_env" op_io Request
  | PaidDemandCall "AgentAgreementBody Gate" "'q gate_env" op_io Request

fun gate_request :: "'q gate_call \<Rightarrow> Request" where
  "gate_request (ExecutionCall g env io r) = r"
| "gate_request (PaidDemandCall g env io r) = r"

fun gate_exec ::
  "('q, 'offer) gate_lib \<Rightarrow> (string \<Rightarrow> bytes) \<Rightarrow> claim_file dir \<Rightarrow> 'q gate_call
   \<Rightarrow> (gate_error + Evidence) \<times> claim_file dir" where
  "gate_exec L H d (ExecutionCall g env io r) = ClaimExecution L H g env io r d"
| "gate_exec L H d (PaidDemandCall g env io r) = ClaimPaidDemandExecution L H g env io r d"

definition gate_next ::
  "('q, 'offer) gate_lib \<Rightarrow> (string \<Rightarrow> bytes) \<Rightarrow> claim_file dir \<Rightarrow> 'q gate_call
   \<Rightarrow> claim_file dir" where
  "gate_next L H d c = snd (gate_exec L H d c)"

lemma gate_exec_claim:
  obtains (refused) err where "gate_exec L H d c = (Inl err, d)"
  | (claimed) io e where "gate_exec L H d c = record_claim H io (gate_request c) e d"
proof (cases c)
  case (ExecutionCall g env io r)
  then show ?thesis
    using that by (cases "verify_execution L g env r") (auto simp: ClaimExecution_def)
next
  case (PaidDemandCall g env io r)
  then show ?thesis
    using that by (cases "verify_paid_demand L g env r") (auto simp: ClaimPaidDemandExecution_def)
qed

lemma snd_record_claim [simp]: "snd (record_claim H io r e d) = snd (claim H io r e d)"
  by (simp add: record_claim_def case_prod_beta Let_def)

lemma fst_record_claim: "fst (record_claim H io r e d) = Inr e' \<longleftrightarrow> e' = e \<and> fst (claim H io r e d) = None"
  by (auto simp: record_claim_def case_prod_beta Let_def split: option.splits)

lemma gate_file_step: "claim_step (map_of d p) (map_of (gate_next L H d c) p)"
  by (cases rule: gate_exec_claim [of L H d c]) (simp_all add: gate_next_def keep claim_file_step)

lemma gate_recorded:
  assumes "fst (gate_exec L H d c) = Inr e"
  shows "map_of (gate_next L H d c) (claim_path H (gate_request c)) = Some (ClaimFile (new_claim (gate_request c) e))"
  using assms
  by (cases rule: gate_exec_claim [of L H d c])
    (auto simp: gate_next_def fst_record_claim claim_recorded)

text \<open>A claim file only ever has its evidence refreshed: the contract of a record log.\<close>

definition claim_at :: "claim_file dir \<Rightarrow> string \<Rightarrow> claim_record option" where
  "claim_at d p = (case map_of d p of Some (ClaimFile r) \<Rightarrow> Some r | _ \<Rightarrow> None)"

definition claim_refreshes :: "claim_record \<Rightarrow> claim_record \<Rightarrow> bool" where
  "claim_refreshes a b = (ClaimRequest a = ClaimRequest b \<and> refreshes (ClaimEvidence a) (ClaimEvidence b))"

interpretation claim_records: record_log claim_at "gate_next L H" claim_refreshes for L H
proof
  fix d p r c assume "claim_at d p = Some r"
  then have r: "map_of d p = Some (ClaimFile r)"
    by (auto simp: claim_at_def split: option.splits claim_file.splits)
  have "claim_step (Some (ClaimFile r)) (map_of (gate_next L H d c) p)"
    using gate_file_step [of d p L H c] r by simp
  then show "\<exists>r'. claim_at (gate_next L H d c) p = Some r' \<and> claim_refreshes r r'"
    by (auto simp: claim_step_ClaimFile claim_at_def claim_refreshes_def refreshes_refl)
qed (auto simp: claim_refreshes_def refreshes_refl intro: refreshes_trans)

lemma admitted_refreshes:
  assumes one: "fst (gate_exec L H (foldl (gate_next L H) d cs) c) = Inr e"
    and two: "fst (gate_exec L H (foldl (gate_next L H) d (cs @ c # ds)) c') = Inr e'"
    and path: "claim_path H (gate_request c') = claim_path H (gate_request c)"
  shows "gate_request c' = gate_request c \<and> refreshes e e'"
proof -
  let ?p = "claim_path H (gate_request c)"
  let ?d1 = "foldl (gate_next L H) d (cs @ [c])" and ?d2 = "foldl (gate_next L H) d (cs @ c # ds @ [c'])"
  have "claim_at ?d1 ?p = Some (new_claim (gate_request c) e)"
    using gate_recorded [OF one] by (simp add: claim_at_def)
  moreover have "claim_at ?d2 ?p = Some (new_claim (gate_request c') e')"
    using gate_recorded [OF two] path by (simp add: claim_at_def)
  moreover have "?d2 = foldl (gate_next L H) ?d1 (ds @ [c'])" by simp
  ultimately have "claim_refreshes (new_claim (gate_request c) e) (new_claim (gate_request c') e')"
    using claim_records.at_run by (metis option.inject)
  then show ?thesis by (simp add: claim_refreshes_def)
qed

subsection \<open>Digests have one spelling\<close>

lemma validDigest_iff:
  assumes "ToLower p = p"
  shows "validDigest v p \<longleftrightarrow> (\<exists>b. length b = 32 \<and> b \<noteq> zero_bytes 32 \<and> v = p @ hex_encode b)"
proof
  assume v: "validDigest v p"
  then obtain s where s: "v = p @ s" by (auto simp: validDigest_def has_prefix_iff split: if_splits)
  then obtain b where b: "hex_decode s = Some b" "b \<noteq> zero_bytes 32" "ToLower s = s" "length s = 64"
    using v assms by (auto simp: validDigest_def split: if_splits option.splits)
  then show "\<exists>b. length b = 32 \<and> b \<noteq> zero_bytes 32 \<and> v = p @ hex_encode b"
    using hex_decode_lower hex_decode_length s by fastforce
next
  assume "\<exists>b. length b = 32 \<and> b \<noteq> zero_bytes 32 \<and> v = p @ hex_encode b"
  then show "validDigest v p" using assms by (auto simp: validDigest_def)
qed

subsection \<open>What admits an execution\<close>

text \<open>A finalized reference: a positive checkpoint and canonical digests, under the expected code.\<close>

definition final_reference :: "string \<Rightarrow> ChainReference \<Rightarrow> bool" where
  "final_reference code r = (0 < RefFinalizedCheckpoint r \<and> cellDigest (RefContractCodeHash r) \<and>
     (code = [] \<or> RefContractCodeHash r = code) \<and> shaDigest (RefTransactionHash r))"

text \<open>The chain view of a call shows an object as finalized state of the gate's network and registry,
  not from the future.\<close>

definition shows_object :: "'a Gate \<Rightarrow> 'q gate_env \<Rightarrow> nat \<Rightarrow> string \<Rightarrow> native_object \<Rightarrow> ChainReference \<Rightarrow> bool" where
  "shows_object g env i obj x r = (\<exists>s t. NativeAnswer env i obj = Inr (Some (s, t)) \<and> t \<noteq> zero_time \<and>
     t \<le> Clock env + Minute \<and> StateReference s = Some r \<and> final_reference (registryHash g) r \<and>
     cellDigest (TvmStateHash s) \<and> StateNetwork s = Some (gate_network g) \<and> StateObject s = Some x)"

definition shows_agent :: "'a Gate \<Rightarrow> 'q gate_env \<Rightarrow> ChainReference \<Rightarrow> bool" where
  "shows_agent g env r = (\<exists>a. shows_object g env 0 (providerAgent g) (AgentObject a) r \<and>
     AgentId a = providerAgent g \<and> \<not> AgentTombstoned a)"

definition shows_capability :: "'a Gate \<Rightarrow> 'q gate_env \<Rightarrow> QuoteProposal \<Rightarrow> ChainReference \<Rightarrow> bool" where
  "shows_capability g env p r = (\<exists>c v. shows_object g env 1 (ProposalCapabilityId p) (CapabilityObject c) r \<and>
     CapabilityId c = ProposalCapabilityId p \<and> OwnerAgentId c = providerAgent g \<and> \<not> CapabilityTombstoned c \<and>
     Some v \<in> set (CapabilityVersions c) \<and> Version v = ProposalCapabilityVersion p \<and>
     ManifestDigest v = gate_manifest g \<and> \<not> Revoked v)"

text \<open>The finalized escrow holds the funds of the quote, for this provider, and cannot be refunded
  yet.\<close>

definition shows_funded_escrow ::
  "'a Gate \<Rightarrow> 'q gate_env \<Rightarrow> Request \<Rightarrow> 'q EscrowState \<Rightarrow> ChainReference \<Rightarrow> bool" where
  "shows_funded_escrow g env r st ref = (\<exists>x. EscrowAnswer env (EscrowAddress r) = Inr (Some x) \<and>
     FinalizedState x = Some st \<and> FinalizedReference x = Some ref \<and> final_reference [] ref \<and>
     EscrowStatus st = EscrowStatusFunded \<and> StateQuoteCommitment st = QuoteCommitment r \<and>
     ProviderAddress st = gate_provider g \<and> 0 \<le> Unix (Clock env) \<and>
     Unix (Clock env) < uint (RefundAvailableAt st))"

definition authorises ::
  "('q, 'offer) gate_lib \<Rightarrow> 'a Gate \<Rightarrow> 'q gate_env \<Rightarrow> Request \<Rightarrow> Evidence \<Rightarrow> bool" where
  "authorises L g env r e = (validRequest r \<and> (\<exists>st escrow quote agent capability.
     shows_funded_escrow g env r st escrow \<and>
     DecodeAcceptedQuoteV1 L (AcceptedQuote st) (gate_network g) = Some quote \<and>
     quote_matches g quote (FundedAtomicAmount st) \<and>
     shows_agent g env agent \<and> shows_capability g env (Proposal quote) capability \<and>
     e = evidence_of g r (Proposal quote) escrow agent capability [] [] 0))"

lemma validReference_Some: "validReference (Some r) code \<longleftrightarrow> final_reference code r"
  by (simp add: validReference_def final_reference_def)

lemma validReference_iff: "validReference x code \<longleftrightarrow> (\<exists>r. x = Some r \<and> final_reference code r)"
  by (cases x) (simp_all add: validReference_def final_reference_def)

lemma reference_of_Some [simp]: "reference_of (Some r) = r"
  by (simp add: reference_of_def)

lemma resolveNative_iff:
  "resolveNative g (NativeAnswer env i) obj (Clock env) = Inr s \<and> StateObject s = Some x \<and> reference_of (StateReference s) = r
     \<Longrightarrow> shows_object g env i obj x r"
  by (auto simp: resolveNative_def shows_object_def validReference_iff not_less
      split: sum.splits option.splits prod.splits if_splits)

lemma shows_object_resolves:
  assumes "shows_object g env i obj x r"
  shows "\<exists>s. resolveNative g (NativeAnswer env i) obj (Clock env) = Inr s \<and> StateObject s = Some x \<and>
    reference_of (StateReference s) = r"
  using assms by (auto simp: resolveNative_def shows_object_def validReference_Some)

lemma resolve_agent_iff:
  "(\<exists>s. resolve_agent g env = Inr s \<and> reference_of (StateReference s) = r) \<longleftrightarrow> shows_agent g env r"
proof
  assume "\<exists>s. resolve_agent g env = Inr s \<and> reference_of (StateReference s) = r"
  then obtain s a where "resolveNative g (NativeAnswer env 0) (providerAgent g) (Clock env) = Inr s"
    "StateObject s = Some (AgentObject a)" "reference_of (StateReference s) = r"
    "AgentId a = providerAgent g" "\<not> AgentTombstoned a"
    by (auto simp: resolve_agent_def ebind_eq_Inr GetAgent_def split: option.splits native_object.splits if_splits)
  then show "shows_agent g env r" using resolveNative_iff unfolding shows_agent_def by blast
next
  assume "shows_agent g env r"
  then obtain a s where "resolveNative g (NativeAnswer env 0) (providerAgent g) (Clock env) = Inr s"
    "StateObject s = Some (AgentObject a)" "reference_of (StateReference s) = r"
    "AgentId a = providerAgent g" "\<not> AgentTombstoned a"
    unfolding shows_agent_def using shows_object_resolves by blast
  then show "\<exists>s. resolve_agent g env = Inr s \<and> reference_of (StateReference s) = r"
    by (simp add: resolve_agent_def GetAgent_def)
qed

lemma version_active_iff:
  "version_active g version c \<longleftrightarrow> (\<exists>v. Some v \<in> set (CapabilityVersions c) \<and> Version v = version \<and>
     ManifestDigest v = gate_manifest g \<and> \<not> Revoked v)"
  by (auto simp: version_active_def list_ex_iff split: option.splits)

lemma resolve_capability_iff:
  "(\<exists>s. resolve_capability g env p = Inr s \<and> reference_of (StateReference s) = r) \<longleftrightarrow> shows_capability g env p r"
proof
  assume "\<exists>s. resolve_capability g env p = Inr s \<and> reference_of (StateReference s) = r"
  then obtain s c where "resolveNative g (NativeAnswer env 1) (ProposalCapabilityId p) (Clock env) = Inr s"
    "StateObject s = Some (CapabilityObject c)" "reference_of (StateReference s) = r"
    "CapabilityId c = ProposalCapabilityId p" "OwnerAgentId c = providerAgent g" "\<not> CapabilityTombstoned c"
    "version_active g (ProposalCapabilityVersion p) c"
    by (auto simp: resolve_capability_def ebind_eq_Inr GetCapability_def capability_authorizes_def
        split: option.splits native_object.splits if_splits)
  then show "shows_capability g env p r"
    using resolveNative_iff unfolding shows_capability_def version_active_iff by blast
next
  assume "shows_capability g env p r"
  then obtain c where c: "shows_object g env 1 (ProposalCapabilityId p) (CapabilityObject c) r"
    "CapabilityId c = ProposalCapabilityId p" "OwnerAgentId c = providerAgent g" "\<not> CapabilityTombstoned c"
    "version_active g (ProposalCapabilityVersion p) c"
    unfolding shows_capability_def version_active_iff by blast
  then show "\<exists>s. resolve_capability g env p = Inr s \<and> reference_of (StateReference s) = r"
    using shows_object_resolves [OF c(1)]
    by (auto simp: resolve_capability_def GetCapability_def capability_authorizes_def)
qed

lemma executable_escrow_Some:
  "executable_escrow g now r (Some x) = Some (st, ref) \<longleftrightarrow> FinalizedState x = Some st \<and>
     FinalizedReference x = Some ref \<and> final_reference [] ref \<and> EscrowStatus st = EscrowStatusFunded \<and>
     StateQuoteCommitment st = QuoteCommitment r \<and> ProviderAddress st = gate_provider g \<and>
     0 \<le> Unix now \<and> Unix now < uint (RefundAvailableAt st)"
  by (cases "FinalizedState x"; cases "FinalizedReference x")
    (auto simp: executable_escrow_def validReference_def final_reference_def)

lemma executable_escrow_iff:
  "(\<exists>answer. EscrowAnswer env (EscrowAddress r) = Inr answer \<and>
      executable_escrow g (Clock env) r answer = Some (st, ref)) \<longleftrightarrow> shows_funded_escrow g env r st ref"
proof -
  have "executable_escrow g (Clock env) r answer = Some (st, ref) \<longleftrightarrow>
      (\<exists>x. answer = Some x \<and> executable_escrow g (Clock env) r (Some x) = Some (st, ref))" for answer
    by (cases answer) (simp_all add: executable_escrow_def)
  then show ?thesis unfolding shows_funded_escrow_def executable_escrow_Some by auto
qed

lemma verify_execution_iff: "verify_execution L g env r = Inr e \<longleftrightarrow> authorises L g env r e"
proof -
  have "verify_execution L g env r = Inr e \<longleftrightarrow> validRequest r \<and> (\<exists>answer st escrow quote agentState capabilityState.
      EscrowAnswer env (EscrowAddress r) = Inr answer \<and>
      executable_escrow g (Clock env) r answer = Some (st, escrow) \<and>
      DecodeAcceptedQuoteV1 L (AcceptedQuote st) (gate_network g) = Some quote \<and>
      quote_matches g quote (FundedAtomicAmount st) \<and> resolve_agent g env = Inr agentState \<and>
      resolve_capability g env (Proposal quote) = Inr capabilityState \<and>
      e = evidence_of g r (Proposal quote) escrow (reference_of (StateReference agentState))
        (reference_of (StateReference capabilityState)) [] [] 0)"
    by (auto simp: verify_execution_def validRequest_def ebind_eq_Inr
        split: sum.splits option.splits prod.splits if_splits)
  then show ?thesis
    unfolding authorises_def executable_escrow_iff [symmetric] resolve_agent_iff [symmetric]
      resolve_capability_iff [symmetric] by blast
qed

subsection \<open>Recovery from an interrupted claim\<close>

definition gate_wf :: "'a Gate \<Rightarrow> bool" where
  "gate_wf g = (NetworkId (gate_network g) \<noteq> [] \<and> cellDigest (registryHash g) \<and> agentID (providerAgent g) \<and>
     rawAddress (gate_provider g) \<and> shaDigest (gate_manifest g) \<and> shaDigest (gate_transport g) \<and>
     shaDigest (signerAuth g) \<and> Second \<le> gate_timeout g \<and> gate_timeout g \<le> 5 * Minute)"

lemma New_wf: "New c = Inr g \<Longrightarrow> gate_wf g"
  by (auto simp: New_def build_gate_def identities_valid_def gate_wf_def Let_def
      split: option.splits if_splits)

text \<open>What the gate relies on from the quote decoder: a decoded quote names a canonical capability
  and a version.\<close>

definition decodes_canonically :: "('q, 'offer) gate_lib \<Rightarrow> bool" where
  "decodes_canonically L = (\<forall>q n t. DecodeAcceptedQuoteV1 L q n = Some t \<longrightarrow>
     stringsCapabilityID (ProposalCapabilityId (Proposal t)) \<and> ProposalCapabilityVersion (Proposal t) \<noteq> [])"

lemma authorised_evidence_valid:
  assumes "gate_wf g" and "decodes_canonically L" and "authorises L g env r e"
  shows "well_recorded (new_claim r e)"
proof -
  obtain st escrow quote agent capability where a: "shows_funded_escrow g env r st escrow"
    "DecodeAcceptedQuoteV1 L (AcceptedQuote st) (gate_network g) = Some quote"
    "shows_agent g env agent" "shows_capability g env (Proposal quote) capability" "validRequest r"
    "e = evidence_of g r (Proposal quote) escrow agent capability [] [] 0"
    using assms(3) unfolding authorises_def by blast
  have "final_reference [] escrow" "final_reference (registryHash g) agent" "final_reference (registryHash g) capability"
    using a(1,3,4) by (auto simp: shows_funded_escrow_def shows_agent_def shows_capability_def shows_object_def)
  moreover have "stringsCapabilityID (ProposalCapabilityId (Proposal quote))"
    "ProposalCapabilityVersion (Proposal quote) \<noteq> []"
    using assms(2) a(2) unfolding decodes_canonically_def by blast+
  ultimately show ?thesis
    using assms(1) a(5) unfolding a(6) well_recorded_def validEvidence_def evidence_of_def gate_wf_def
    by (simp add: final_reference_def validRequest_def)
qed

lemma claim_ok_iff:
  assumes "well_recorded (new_claim r e)"
  shows "fst (claim H io_ok r e d) = None \<longleftrightarrow> map_of d (claim_path H r) = None \<or>
    (\<exists>c. map_of d (claim_path H r) = Some (ClaimFile c) \<and> well_recorded c \<and> ClaimRequest c = r \<and>
      refreshes (ClaimEvidence c) e)"
proof
  assume ok: "fst (claim H io_ok r e d) = None"
  show "map_of d (claim_path H r) = None \<or> (\<exists>c. map_of d (claim_path H r) = Some (ClaimFile c) \<and>
      well_recorded c \<and> ClaimRequest c = r \<and> refreshes (ClaimEvidence c) e)"
    by (cases rule: claim_cases [of H io_ok r e d]) (use ok refreshes_refl in auto)
next
  have w: "fst (write_claim IoOk p v True d) = None" for p v
    by (simp add: write_claim_def atomicReplace_def)
  assume "map_of d (claim_path H r) = None \<or> (\<exists>c. map_of d (claim_path H r) = Some (ClaimFile c) \<and>
      well_recorded c \<and> ClaimRequest c = r \<and> refreshes (ClaimEvidence c) e)"
  then show "fst (claim H io_ok r e d) = None"
  proof (elim disjE exE conjE)
    assume n: "map_of d (claim_path H r) = None"
    then show ?thesis
      by (simp add: claim_def Let_def io_ok_def read_claim_def write_claim_def atomicCreate_def)
  next
    fix c assume c: "map_of d (claim_path H r) = Some (ClaimFile c)" "well_recorded c" "ClaimRequest c = r"
      "refreshes (ClaimEvidence c) e"
    have n: "\<not> EscrowFinalizedCheckpoint e < EscrowFinalizedCheckpoint (ClaimEvidence c)"
      "\<not> AgentFinalizedCheckpoint e < AgentFinalizedCheckpoint (ClaimEvidence c)"
      "\<not> CapabilityFinalizedCheckpoint e < CapabilityFinalizedCheckpoint (ClaimEvidence c)"
      using c(4) by (simp_all add: refreshes_def not_less)
    have "read_claim (ReadOk io_ok 0) (claim_path H r) d = Inr (Some c)"
      using c by (simp add: read_claim_Some io_ok_def)
    then show ?thesis
      using c(3,4) n w by (simp add: claim_def Let_def io_ok_def refreshes_def)
  qed
qed

lemma claim_retry:
  assumes wf: "well_recorded (new_claim r e)" and ok: "fst (claim H io_ok r e d) = None"
  shows "fst (claim H io_ok r e (snd (claim H io r e d))) = None"
proof -
  have "map_of (snd (claim H io r e d)) (claim_path H r) = map_of d (claim_path H r) \<or>
      map_of (snd (claim H io r e d)) (claim_path H r) = Some (ClaimFile (new_claim r e))"
    by (cases rule: claim_cases [of H io r e d]) (auto simp: write_claim_map)
  then show ?thesis using ok wf refreshes_refl unfolding claim_ok_iff [OF wf] by auto
qed

lemma ClaimExecution_iff:
  "fst (ClaimExecution L H g env io r d) = Inr e \<longleftrightarrow> authorises L g env r e \<and> fst (claim H io r e d) = None"
  by (cases "verify_execution L g env r")
    (auto simp: ClaimExecution_def fst_record_claim verify_execution_iff [symmetric])

lemma ClaimExecution_retry:
  assumes "gate_wf g" and "decodes_canonically L" and "fst (ClaimExecution L H g env io_ok r d) = Inr e"
  shows "fst (ClaimExecution L H g env io_ok r (snd (ClaimExecution L H g env io r d))) = Inr e"
proof -
  have a: "authorises L g env r e" "fst (claim H io_ok r e d) = None"
    using assms(3) ClaimExecution_iff by (metis, metis)
  have wf: "well_recorded (new_claim r e)"
    by (rule authorised_evidence_valid [OF assms(1,2) a(1)])
  have "snd (ClaimExecution L H g env io r d) = snd (claim H io r e d)"
    using a(1) by (simp add: ClaimExecution_def verify_execution_iff [symmetric])
  then show ?thesis
    using a(1) claim_retry [OF wf a(2)]
    by (simp add: ClaimExecution_def verify_execution_iff [symmetric] fst_record_claim)
qed

subsection \<open>A sample purchase\<close>

definition gate_hex :: string where
  "gate_hex = hex_encode (replicate 32 1)"

abbreviation sample_sha :: string where "sample_sha \<equiv> ''sha256:'' @ gate_hex"
abbreviation sample_cell :: string where "sample_cell \<equiv> ''tvm-cell-sha256:'' @ gate_hex"
abbreviation sample_agent :: string where "sample_agent \<equiv> ''agent_'' @ gate_hex"
abbreviation sample_address :: string where "sample_address \<equiv> ''0:'' @ gate_hex"

definition sample_request :: Request where
  "sample_request = \<lparr>EscrowAddress = sample_address, QuoteCommitment = sample_cell, ExecutionID = sample_sha,
     InputDigest = sample_sha, SourceDigest = sample_sha\<rparr>"

definition sample_network :: NetworkDomain where
  "sample_network = \<lparr>NetworkId = ''net'', GenesisRootHash = [], GenesisFileHash = []\<rparr>"

definition sample_config :: "unit Config" where
  "sample_config = \<lparr>HasEscrowResolver = True, HasNativeResolver = True, HasOfferResolver = False,
     DirectoryOk = True, ConfigNetwork = Some sample_network, ConfigRegistryCodeHash = sample_cell,
     ConfigProviderAgentID = sample_agent, ConfigProviderAddress = sample_address,
     ConfigManifestDigest = sample_sha, ConfigTransportDigest = sample_sha,
     ConfigSignerAuthorization = sample_sha, ConfigAgreement = (), ConfigTimeout = 0\<rparr>"

definition sample_gate :: "'a \<Rightarrow> 'a Gate" where
  "sample_gate a = \<lparr>gate_network = sample_network, registryHash = sample_cell, providerAgent = sample_agent,
     gate_provider = sample_address, gate_manifest = sample_sha, gate_transport = sample_sha,
     signerAuth = sample_sha, gate_timeout = 30 * Second, agreement = a\<rparr>"

definition sample_reference :: ChainReference where
  "sample_reference = \<lparr>RefWorkchain = 0, RefAccount = [], RefLogicalTime = 0, RefTransactionHash = sample_sha,
     RefContractCodeHash = sample_cell, RefFinalizedCheckpoint = 7\<rparr>"

definition sample_terms :: QuoteTerms where
  "sample_terms = \<lparr>Proposal = \<lparr>ProposalCapabilityId = ''cap_'' @ gate_hex, ProposalCapabilityVersion = ''1'',
     ProposalProviderAgentId = sample_agent, ProposalManifestDigest = sample_sha,
     ProposalTransportBindingDigest = sample_sha, ProposalMaximumPrice = Some ''5''\<rparr>,
     ExecutionSignerAuthorization = sample_sha\<rparr>"

text \<open>The zero value of an agreement, which a schema-1 gate carries, and a library that refuses
  everything: a schema-1 claim uses neither.\<close>

definition zero_agreement :: AgentAgreementBody where
  "zero_agreement = \<lparr>SchemaVersion = 0, AgreementID = [], AgreementVersion = 0, PredecessorAgreementDigest = [],
     NetworkContext = [], Participants = [], ReferencedIntents = [], TermsContentType = [], Terms = [],
     BodyAttachmentDigests = [], Obligations = [], AuthorizationPredicates = [], BodyRequiredExtensions = [],
     BodyOptionalExtensions = [], ValidFromUnix = 0, ExpiresAtUnix = 0\<rparr>"

definition no_commerce :: agreement_lib where
  "no_commerce = \<lparr>cborEncode = (\<lambda>_. None), cborDecode = (\<lambda>_. None), jsonLen = (\<lambda>_. 0), sha256 = (\<lambda>_. []),
     decodeAcceptance = (\<lambda>_. None), publicKeyOf = (\<lambda>_. []), edSign = (\<lambda>_ _. []), edVerify = (\<lambda>_ _ _. False)\<rparr>"

definition sample_lib :: "(unit, unit) gate_lib" where
  "sample_lib = \<lparr>DecodeAcceptedQuoteV1 = (\<lambda>_ _. Some sample_terms), VerifyAcceptedQuote = (\<lambda>_ _ _ _ _. None),
     OfferBuyerAgentID = (\<lambda>_. []), commerceLib = no_commerce, OfferDigest = (\<lambda>_. [])\<rparr>"

definition sample_native :: "native_object \<Rightarrow> NativeStateV1" where
  "sample_native x = \<lparr>StateNetwork = Some sample_network, TvmStateHash = sample_cell,
     StateReference = Some sample_reference, StateObject = Some x\<rparr>"

definition sample_capability :: CapabilityStateV1 where
  "sample_capability = \<lparr>CapabilityId = ''cap_'' @ gate_hex, CapabilityGeneration = 1, CapabilitySequence = 1,
     CapabilityLastActionHash = [], OwnerAgentId = sample_agent,
     CapabilityVersions = [Some \<lparr>Version = ''1'', ManifestDigest = sample_sha, Revoked = False\<rparr>],
     CapabilityTombstoned = False\<rparr>"

definition sample_agent_state :: AgentStateV1 where
  "sample_agent_state = \<lparr>AgentId = sample_agent, AgentGeneration = 1, AgentSequence = 1, AgentLastActionHash = [],
     AgentPolicy = None, DelegationDigests = [], RecoveryExecuteAfterUnixSeconds = 0,
     RecoveryInitiationActionHash = [], RecoveryPolicy = None, AgentTombstoned = False,
     RecoveryInitiatingPolicyHash = []\<rparr>"

definition sample_escrow :: "unit EscrowState" where
  "sample_escrow = \<lparr>EscrowStatus = 1, StateQuoteCommitment = sample_cell, BuyerAddress = [],
     ProviderAddress = sample_address, FundingDeadline = 0, RefundAvailableAt = 100, FundedAtomicAmount = ''5'',
     AcceptedQuote = ()\<rparr>"

definition sample_env :: "unit gate_env" where
  "sample_env = \<lparr>EscrowAnswer = (\<lambda>_. Inr (Some \<lparr>FinalizedState = Some sample_escrow,
       FinalizedReference = Some sample_reference\<rparr>)),
     EscrowAnswerV2 = (\<lambda>_. Inr None),
     NativeAnswer = (\<lambda>i _. Inr (Some (sample_native (if i = 0 then AgentObject sample_agent_state
       else CapabilityObject sample_capability), 0))),
     Clock = 0\<rparr>"

definition sample_evidence :: Evidence where
  "sample_evidence = evidence_of (sample_gate ()) sample_request (Proposal sample_terms) sample_reference
     sample_reference sample_reference [] [] 0"

lemma sample_digests:
  "shaDigest sample_sha" "cellDigest sample_cell" "agentID sample_agent" "rawAddress sample_address"
  "stringsCapabilityID (''cap_'' @ gate_hex)"
proof -
  have b: "length (replicate 32 (1 :: u8)) = 32" "replicate 32 (1 :: u8) \<noteq> zero_bytes 32"
    by (simp_all add: zero_bytes_def)
  have low: "ToLower ''sha256:'' = ''sha256:''" "ToLower ''tvm-cell-sha256:'' = ''tvm-cell-sha256:''"
    by (simp_all add: ToLower_def)
  show s: "shaDigest sample_sha" "cellDigest sample_cell"
    unfolding shaDigest_def cellDigest_def gate_hex_def validDigest_iff [OF low(1)] validDigest_iff [OF low(2)]
    using b by blast+
  have len: "length gate_hex = 64" by (simp add: gate_hex_def)
  have v: "validDigest sample_sha ''sha256:''" using s(1) by (simp only: shaDigest_def)
  show "agentID sample_agent"
    unfolding agentID_def using len v by simp
  show "stringsCapabilityID (''cap_'' @ gate_hex)"
    unfolding stringsCapabilityID_def using len v by simp
  show "rawAddress sample_address"
    unfolding rawAddress_def Cut_def Let_def using len v by simp
qed

lemma sample_New: "New sample_config = Inr (sample_gate ())"
  using sample_digests
  by (simp add: New_def sample_config_def identities_valid_def build_gate_def sample_gate_def sample_network_def
      Second_def Minute_def Let_def)

lemma sample_decodes: "decodes_canonically sample_lib"
  using sample_digests by (simp add: decodes_canonically_def sample_lib_def sample_terms_def)

lemma sample_authorised: "authorises sample_lib (sample_gate a) sample_env sample_request sample_evidence"
proof -
  have ref: "final_reference [] sample_reference" "final_reference sample_cell sample_reference"
    using sample_digests by (simp_all add: final_reference_def sample_reference_def)
  have "validRequest sample_request"
    using sample_digests by (simp add: validRequest_def sample_request_def)
  moreover have "shows_funded_escrow (sample_gate a) sample_env sample_request sample_escrow sample_reference"
    using ref by (simp add: shows_funded_escrow_def sample_gate_def sample_env_def sample_request_def
        sample_escrow_def EscrowStatusFunded_def Unix_def)
  moreover have "shows_agent (sample_gate a) sample_env sample_reference"
    using ref sample_digests
    by (simp add: shows_agent_def shows_object_def sample_gate_def sample_env_def sample_native_def
        sample_agent_state_def zero_time_def Minute_def)
  moreover have "shows_capability (sample_gate a) sample_env (Proposal sample_terms) sample_reference"
    using ref sample_digests
    by (simp add: shows_capability_def shows_object_def sample_gate_def sample_env_def sample_native_def
        sample_capability_def sample_terms_def zero_time_def Minute_def)
  moreover have "quote_matches (sample_gate a) sample_terms (FundedAtomicAmount sample_escrow)"
    by (simp add: quote_matches_def sample_gate_def sample_terms_def sample_escrow_def)
  moreover have "DecodeAcceptedQuoteV1 sample_lib (AcceptedQuote sample_escrow) n = Some sample_terms" for n
    by (simp add: sample_lib_def)
  moreover have "sample_evidence = evidence_of (sample_gate a) sample_request (Proposal sample_terms)
      sample_reference sample_reference sample_reference [] [] 0"
    by (simp add: sample_evidence_def evidence_of_def sample_gate_def)
  ultimately show ?thesis unfolding authorises_def by blast
qed

lemma sample_first: "fst (ClaimExecution sample_lib H (sample_gate a) sample_env io_ok sample_request []) = Inr sample_evidence"
proof -
  have "well_recorded (new_claim sample_request sample_evidence)"
    by (rule authorised_evidence_valid [OF New_wf [OF sample_New] sample_decodes sample_authorised])
  then show ?thesis unfolding ClaimExecution_iff using sample_authorised claim_ok_iff by auto
qed

lemma sample_second:
  "fst (ClaimExecution sample_lib H (sample_gate a) sample_env io_ok sample_request
     (snd (ClaimExecution sample_lib H (sample_gate a) sample_env io_ok sample_request []))) = Inr sample_evidence"
proof (rule ClaimExecution_retry)
  show "gate_wf (sample_gate a)" using New_wf [OF sample_New] by (simp add: gate_wf_def sample_gate_def)
qed (use sample_decodes sample_first in auto)

subsection \<open>Properties\<close>

text \<open>C14: One paid purchase executes one request. Over every sequence of gate calls, by any gates,
  chain views and I/O faults, if a request was admitted for a quote and escrow, every later admission
  for the same quote and escrow is for the identical request, under the same authority, with
  checkpoints that never went back and the same transactions wherever a checkpoint is unchanged.\<close>

theorem purchase_executes_one_request:
  assumes "fst (gate_exec L H (foldl (gate_next L H) d cs) c) = Inr e"
    and "fst (gate_exec L H (foldl (gate_next L H) d (cs @ c # ds)) c') = Inr e'"
    and "QuoteCommitment (gate_request c') = QuoteCommitment (gate_request c)"
    and "EscrowAddress (gate_request c') = EscrowAddress (gate_request c)"
  shows "gate_request c' = gate_request c \<and> sameAuthority e e' \<and>
    EscrowFinalizedCheckpoint e \<le> EscrowFinalizedCheckpoint e' \<and>
    AgentFinalizedCheckpoint e \<le> AgentFinalizedCheckpoint e' \<and>
    CapabilityFinalizedCheckpoint e \<le> CapabilityFinalizedCheckpoint e' \<and>
    sameObservation (EscrowFinalizedCheckpoint e) (EscrowTransactionHash e)
      (EscrowFinalizedCheckpoint e') (EscrowTransactionHash e')"
proof -
  have "claim_path H (gate_request c') = claim_path H (gate_request c)"
    using assms(3,4) by (simp add: claim_path_def)
  from admitted_refreshes [OF assms(1,2) this] show ?thesis by (simp add: refreshes_def)
qed

theorem purchase_executes_one_request_witness:
  "let c = ExecutionCall (sample_gate zero_agreement) sample_env io_ok sample_request in
   fst (gate_exec sample_lib (\<lambda>_. []) [] c) = Inr sample_evidence \<and>
   gate_request c = gate_request c \<and> sameAuthority sample_evidence sample_evidence"
proof -
  let ?c = "ExecutionCall (sample_gate zero_agreement) sample_env io_ok sample_request"
  have one: "fst (gate_exec sample_lib (\<lambda>_. []) (foldl (gate_next sample_lib (\<lambda>_. [])) [] []) ?c) = Inr sample_evidence"
    using sample_first by simp
  have two: "fst (gate_exec sample_lib (\<lambda>_. []) (foldl (gate_next sample_lib (\<lambda>_. [])) [] ([] @ ?c # [])) ?c)
      = Inr sample_evidence"
    using sample_second by (simp add: gate_next_def)
  show ?thesis using purchase_executes_one_request [OF one two] one by simp
qed


text \<open>C16: No purchase is lost to a crash. If an execution would be admitted, then after any attempt
  at it, however it was interrupted by I/O faults, repeating it without faults under the same chain
  view admits it with the same evidence. The gate relies on the quote decoder returning canonical
  capability identifiers.\<close>

theorem interrupted_claim_can_be_retried:
  assumes "New c = Inr g" and "decodes_canonically L"
    and "fst (ClaimExecution L H g env io_ok r d) = Inr e"
  shows "fst (ClaimExecution L H g env io_ok r (snd (ClaimExecution L H g env io r d))) = Inr e"
  by (rule ClaimExecution_retry [OF New_wf [OF assms(1)] assms(2,3)])

theorem interrupted_claim_can_be_retried_witness:
  "New sample_config = Inr (sample_gate ()) \<and>
   fst (ClaimExecution sample_lib (\<lambda>_. []) (sample_gate ()) sample_env io_ok sample_request
     (snd (ClaimExecution sample_lib (\<lambda>_. []) (sample_gate ()) sample_env
       (io_ok\<lparr>FirstWrite := IoFailAfter\<rparr>) sample_request []))) = Inr sample_evidence"
  using interrupted_claim_can_be_retried [OF sample_New sample_decodes sample_first] sample_New by simp

end
