(* ===== verification/Finality.thy ===== *)
theory Finality
  imports Durable_Dir Native_State
begin

text \<open>
  Finalized reads of the TOS chain, \<^verbatim>\<open>pkg/toschain\<close>: quorum reads over the configured endpoints
  (\<^verbatim>\<open>quorum.go\<close>, \<^verbatim>\<open>adapter.go\<close>, \<^verbatim>\<open>readiness.go\<close>), the two durable checkpoint fences
  (\<^verbatim>\<open>checkpoint_store.go\<close>, \<^verbatim>\<open>agent_relay_checkpoint.go\<close>), the observation store
  (\<^verbatim>\<open>agent_relay_observation_store.go\<close>) and the resolver of Native objects that composes them
  (\<^verbatim>\<open>simplified_native.go\<close>). Endpoint answers arrive in any order; Go's unspecified map iteration is
  an explicit reordering of the groups. Durable writes take explicit faults.
\<close>

subsection \<open>Configuration: adapter.go\<close>

record adapter_policy =
  Endpoints :: "string list"
  Quorum :: int
  QueryTimeout :: int
  MaxResponseBytes :: int
  ReadinessMaxAge :: int

definition with_defaults :: "adapter_policy \<Rightarrow> adapter_policy" where
  "with_defaults c = c\<lparr>
     QueryTimeout := (if QueryTimeout c = 0 then 5 * 1000000000 else QueryTimeout c),
     MaxResponseBytes := (if MaxResponseBytes c = 0 then 4 * 2 ^ 20 else MaxResponseBytes c),
     ReadinessMaxAge := (if ReadinessMaxAge c = 0 then 2 * Minute else ReadinessMaxAge c)\<rparr>"

definition policy_bounds :: "adapter_policy \<Rightarrow> bool" where
  "policy_bounds c = (\<not> (length (Endpoints c) < 3 \<or> length (Endpoints c) > 8) \<and>
     \<not> (Quorum c \<le> int (length (Endpoints c) div 2) \<or> Quorum c > int (length (Endpoints c))))"

definition policy_limits :: "adapter_policy \<Rightarrow> bool" where
  "policy_limits c = (\<not> (QueryTimeout c \<le> 0 \<or> QueryTimeout c > 30 * 1000000000 \<or> MaxResponseBytes c \<le> 0 \<or>
     MaxResponseBytes c > 16 * 2 ^ 20 \<or> ReadinessMaxAge c \<le> 0 \<or> ReadinessMaxAge c > 60 * Minute))"

text \<open>The loop over the endpoints. \<open>authority_of_url\<close> is the network and URL library's view of an
  endpoint: the canonical host and port of an acceptable URL for which a client can be made.\<close>

fun endpoint_loop ::
  "(string \<Rightarrow> string option) \<Rightarrow> string list \<Rightarrow> string list \<Rightarrow> string list \<Rightarrow> bool" where
  "endpoint_loop authority_of_url seenEndpoints seenAuthorities [] = True"
| "endpoint_loop authority_of_url seenEndpoints seenAuthorities (endpoint # rest) =
     (if endpoint = [] \<or> length endpoint > 2048 then False
      else if endpoint \<in> set seenEndpoints then False
      else case authority_of_url endpoint of
        None \<Rightarrow> False
      | Some authority \<Rightarrow>
          if authority \<in> set seenAuthorities then False
          else endpoint_loop authority_of_url (endpoint # seenEndpoints) (authority # seenAuthorities) rest)"

record Adapter =
  adapter_nodes :: "string list"
  adapter_quorum :: nat
  readinessAge :: int

definition New_Adapter :: "(string \<Rightarrow> string option) \<Rightarrow> adapter_policy \<Rightarrow> Adapter option" where
  "New_Adapter authority_of_url config =
     (if \<not> policy_bounds config then None
      else let c = with_defaults config in
        if \<not> policy_limits c then None
        else if \<not> endpoint_loop authority_of_url [] [] (Endpoints c) then None
        else Some \<lparr>adapter_nodes = Endpoints c, adapter_quorum = nat (Quorum c),
                   readinessAge = ReadinessMaxAge c\<rparr>)"

subsection \<open>Quorum reads: quorum.go\<close>

text \<open>The answers in order of arrival: a node with its value, or with an error. \<open>key\<close> is
  \<^verbatim>\<open>quorumKey\<close>, the digest of the value's JSON form.\<close>

type_synonym ('n, 'v) arrivals = "('n \<times> 'v option) list"
type_synonym ('n, 'v) groups = "(string \<times> 'v \<times> 'n list) list"

fun collect_votes :: "('v \<Rightarrow> string option) \<Rightarrow> ('n, 'v) arrivals \<Rightarrow> ('n, 'v) groups \<Rightarrow> ('n, 'v) groups" where
  "collect_votes key [] groups = groups"
| "collect_votes key ((node, None) # rest) groups = collect_votes key rest groups"
| "collect_votes key ((node, Some value) # rest) groups =
     (case key value of
        None \<Rightarrow> collect_votes key rest groups
      | Some k \<Rightarrow>
          (case map_of groups k of
             None \<Rightarrow> collect_votes key rest (AList.update k (value, [node]) groups)
           | Some (v, nodes) \<Rightarrow> collect_votes key rest (AList.update k (v, nodes @ [node]) groups)))"

definition quorumRead ::
  "('v \<Rightarrow> string option) \<Rightarrow> (('n, 'v) groups \<Rightarrow> ('n, 'v) groups) \<Rightarrow> bool \<Rightarrow> nat \<Rightarrow> ('n, 'v) arrivals
   \<Rightarrow> ('v \<times> 'n list) option" where
  "quorumRead key order cancelled quorum arrivals =
     (if cancelled then None
      else map_option snd (List.find (\<lambda>(k, v, nodes). length nodes \<ge> quorum) (order (collect_votes key arrivals []))))"

record consensusResult =
  ResultType :: string
  ConsensusBlock :: u64
  Timestamp :: u64
  LastBlockUtime :: u64

record consensusVote =
  VoteBlock :: u64
  VoteUtime :: u64

text \<open>The timestamps are Go \<^verbatim>\<open>int64\<close>s: words read as signed, whose sum wraps.\<close>

definition consensus_vote :: "consensusResult \<Rightarrow> consensusVote option" where
  "consensus_vote v =
     (if ResultType v \<noteq> ''ext.blocks.consensusBlock'' \<or> ConsensusBlock v = 0 \<or> sint (Timestamp v) \<le> 0 \<or>
         sint (LastBlockUtime v) \<le> 0 \<or> sint (LastBlockUtime v) > sint (Timestamp v + 120) then None
      else Some \<lparr>VoteBlock = ConsensusBlock v, VoteUtime = LastBlockUtime v\<rparr>)"

record consensusObservation =
  seqno :: u64
  observedAt :: int

definition validateObservationTime :: "Adapter \<Rightarrow> consensusObservation \<Rightarrow> int \<Rightarrow> bool" where
  "validateObservationTime a ob now =
     (now \<noteq> zero_time \<and>
      \<not> (observedAt ob = zero_time \<or> observedAt ob > now + 2 * Minute \<or>
         \<not> observedAt ob + readinessAge a > now))"

text \<open>\<open>rpc\<close> is the arrival of the endpoint answers, each already read as a vote or an error.\<close>

definition consensus ::
  "(consensusVote \<Rightarrow> string option) \<Rightarrow> ((string, consensusVote) groups \<Rightarrow> (string, consensusVote) groups) \<Rightarrow> bool
   \<Rightarrow> Adapter \<Rightarrow> (string \<times> consensusResult option) list \<Rightarrow> int \<Rightarrow> (consensusObservation \<times> string list) option" where
  "consensus key order cancelled a rpc now =
     (case quorumRead key order cancelled (adapter_quorum a)
             (map (\<lambda>(n, r). (n, Option.bind r consensus_vote)) rpc) of
        None \<Rightarrow> None
      | Some (vote, nodes) \<Rightarrow>
          let ob = \<lparr>seqno = VoteBlock vote, observedAt = sint (VoteUtime vote) * 1000000000\<rparr> in
          if \<not> validateObservationTime a ob now then None else Some (ob, nodes))"

record ReadinessSnapshot =
  ObservedMasterSeqno :: u64
  SnapshotObservedAt :: int
  QuorumEndpoints :: nat

definition Readiness ::
  "(consensusVote \<Rightarrow> string option) \<Rightarrow> ((string, consensusVote) groups \<Rightarrow> (string, consensusVote) groups) \<Rightarrow> bool
   \<Rightarrow> Adapter \<Rightarrow> (string \<times> consensusResult option) list \<Rightarrow> int \<Rightarrow> int \<Rightarrow> ReadinessSnapshot option" where
  "Readiness key order cancelled a rpc clock now =
     (if now = zero_time \<or> cancelled then None
      else case consensus key order cancelled a rpc clock of
        None \<Rightarrow> None
      | Some (ob, nodes) \<Rightarrow>
          if \<not> validateObservationTime a ob now then None
          else Some \<lparr>ObservedMasterSeqno = seqno ob, SnapshotObservedAt = observedAt ob,
                     QuorumEndpoints = length nodes\<rparr>)"

subsection \<open>The checkpoint store: checkpoint\_store.go\<close>

text \<open>The store rewrites its file in place: it truncates the file and then writes the new number. A
  call can fail before touching the file, or stop (by an error or a crash) after the truncation and
  the first \<open>n\<close> characters of the write; all of them written and only the sync missing is the case of
  a large \<open>n\<close>.\<close>

datatype rewrite_fault = RewriteOk | RewriteFailEarly | RewriteStop nat

datatype checkpoint_error = CheckpointIO | CheckpointCorrupt | FinalizedRegressed | CheckpointForked | BadObservation

text \<open>The number read from the file: zero for an empty one, None for a corrupt one.\<close>

definition stored_checkpoint :: "string option \<Rightarrow> u64 option" where
  "stored_checkpoint content =
     (let text = trim_space (case content of None \<Rightarrow> [] | Some raw \<Rightarrow> raw) in
      if text = [] then Some 0
      else case ParseUint64 text of None \<Rightarrow> None | Some previous \<Rightarrow> if previous = 0 then None else Some previous)"

definition checkAndAdvance :: "rewrite_fault \<Rightarrow> u64 \<Rightarrow> string option \<Rightarrow> checkpoint_error option \<times> string option" where
  "checkAndAdvance fault value content =
     (if fault = RewriteFailEarly then (Some CheckpointIO, content)
      else case stored_checkpoint content of
        None \<Rightarrow> (Some CheckpointCorrupt, content)
      | Some previous \<Rightarrow>
          if value = 0 \<or> value < previous then (Some FinalizedRegressed, content)
          else if value = previous then (None, content)
          else let written = dec_string (unat value) @ [CHR 0x0A] in
            (case fault of
               RewriteStop n \<Rightarrow> (Some CheckpointIO, Some (take n written))
             | _ \<Rightarrow> (None, Some written)))"

subsection \<open>The relay checkpoint fence: agent\_relay\_checkpoint.go\<close>

record fence_record =
  FenceSchema :: string
  FenceSequence :: u64
  FenceCheckpointID :: string

datatype fence_file = FenceFile fence_record | ForeignFence

definition fenceSchema :: string where
  "fenceSchema = ''tos.relay-checkpoint-fence.v1''"

definition readTOSRelayCheckpointFence :: "bool \<Rightarrow> fence_file option \<Rightarrow> checkpoint_error + fence_record option" where
  "readTOSRelayCheckpointFence ok f =
     (if \<not> ok then Inl CheckpointIO
      else case f of
        None \<Rightarrow> Inr None
      | Some ForeignFence \<Rightarrow> Inl CheckpointCorrupt
      | Some (FenceFile r) \<Rightarrow>
          if FenceSchema r \<noteq> fenceSchema \<or> FenceSequence r = 0 \<or> FenceCheckpointID r = [] \<or>
             length (FenceCheckpointID r) > 1024 then Inl CheckpointCorrupt
          else Inr (Some r))"

text \<open>The fence publishes its record by a rename: the write happens or it does not.\<close>

definition fence_replace :: "io_fault \<Rightarrow> fence_record \<Rightarrow> fence_file option \<Rightarrow> checkpoint_error option \<times> fence_file option" where
  "fence_replace io r f =
     (if io = IoFailBefore then (Some CheckpointIO, f)
      else (if io = IoOk then None else Some CheckpointIO, Some (FenceFile r)))"

definition fence_checkAndAdvance ::
  "op_io \<Rightarrow> u64 \<Rightarrow> string \<Rightarrow> fence_file option \<Rightarrow> checkpoint_error option \<times> fence_file option" where
  "fence_checkAndAdvance io sequence checkpointID f =
     (if sequence = 0 \<or> checkpointID = [] \<or> length checkpointID > 1024 then (Some BadObservation, f)
      else if \<not> LockOk io then (Some CheckpointIO, f)
      else case readTOSRelayCheckpointFence (ReadOk io 0) f of
        Inl e \<Rightarrow> (Some e, f)
      | Inr found \<Rightarrow>
          let new = \<lparr>FenceSchema = fenceSchema, FenceSequence = sequence, FenceCheckpointID = checkpointID\<rparr> in
          (case found of
             None \<Rightarrow> fence_replace (FirstWrite io) new f
           | Some previous \<Rightarrow>
               if sequence < FenceSequence previous then (Some FinalizedRegressed, f)
               else if sequence = FenceSequence previous then
                 (if checkpointID \<noteq> FenceCheckpointID previous then (Some CheckpointForked, f) else (None, f))
               else fence_replace (FirstWrite io) new f))"

subsection \<open>The observation store: agent\_relay\_observation\_store.go\<close>

definition canonicalSHA256Digest :: "string \<Rightarrow> bool" where
  "canonicalSHA256Digest v =
     (if length v \<noteq> 7 + 64 \<or> \<not> has_prefix v ''sha256:'' \<or> v \<noteq> ToLower v then False
      else case hex_decode (trim_prefix v ''sha256:'') of None \<Rightarrow> False | Some decoded \<Rightarrow> length decoded = 32)"

definition observation_path :: "string \<Rightarrow> string option" where
  "observation_path digest =
     (if \<not> canonicalSHA256Digest digest then None
      else case hex_decode (trim_prefix digest ''sha256:'') of
        None \<Rightarrow> None
      | Some raw \<Rightarrow> if length raw \<noteq> 32 then None else Some (''relay-observation-'' @ hex_encode raw @ ''.json''))"

datatype 'r observation_file = ObservationFile 'r | ForeignObservation

datatype observation_error = InvalidReference | TooLarge | BadDigest | StoreIO | BadObservationFile | Conflicting | NotFound

text \<open>\<open>refDigest\<close> is \<^verbatim>\<open>TOSRelayRPCObservationReferenceDigest\<close> (None for a reference it refuses) and
  \<open>jsonSize\<close> the length of the JSON form.\<close>

definition readPath :: "('r \<Rightarrow> string option) \<Rightarrow> bool \<Rightarrow> string \<Rightarrow> 'r observation_file dir \<Rightarrow> observation_error + 'r option" where
  "readPath refDigest ok path d =
     (if \<not> ok then Inl StoreIO
      else case map_of d path of
        None \<Rightarrow> Inr None
      | Some ForeignObservation \<Rightarrow> Inl BadObservationFile
      | Some (ObservationFile r) \<Rightarrow> if refDigest r = None then Inl BadObservationFile else Inr (Some r))"

definition put_observation ::
  "('r \<Rightarrow> string option) \<Rightarrow> ('r \<Rightarrow> nat) \<Rightarrow> op_io \<Rightarrow> 'r \<Rightarrow> 'r observation_file dir
   \<Rightarrow> (observation_error + string) \<times> 'r observation_file dir" where
  "put_observation refDigest jsonSize io reference d =
     (case refDigest reference of
        None \<Rightarrow> (Inl InvalidReference, d)
      | Some digest \<Rightarrow>
          if jsonSize reference = 0 \<or> jsonSize reference > 64 * 1024 then (Inl TooLarge, d)
          else case observation_path digest of
            None \<Rightarrow> (Inl BadDigest, d)
          | Some path \<Rightarrow>
              if \<not> LockOk io then (Inl StoreIO, d)
              else case readPath refDigest (ReadOk io 0) path d of
                Inl e \<Rightarrow> (Inl e, d)
              | Inr (Some existing) \<Rightarrow> if existing \<noteq> reference then (Inl Conflicting, d) else (Inr digest, d)
              | Inr None \<Rightarrow>
                  let (created, d') = atomicCreate (FirstWrite io) path (ObservationFile reference) d in
                  (case created of
                     None \<Rightarrow> (Inl StoreIO, d')
                   | Some True \<Rightarrow> (Inr digest, d')
                   | Some False \<Rightarrow>
                       if readPath refDigest (ReadOk io 1) path d' = Inr (Some reference) then (Inr digest, d')
                       else (Inl Conflicting, d')))"

definition get_observation ::
  "('r \<Rightarrow> string option) \<Rightarrow> bool \<Rightarrow> string \<Rightarrow> 'r observation_file dir \<Rightarrow> observation_error + 'r" where
  "get_observation refDigest ok digest d =
     (case observation_path digest of
        None \<Rightarrow> Inl BadDigest
      | Some path \<Rightarrow>
          (case readPath refDigest ok path d of
             Inl e \<Rightarrow> Inl e
           | Inr None \<Rightarrow> Inl NotFound
           | Inr (Some reference) \<Rightarrow>
               if refDigest reference \<noteq> Some digest then Inl BadDigest else Inr reference))"

subsection \<open>Resolving Native objects: simplified\_native.go\<close>

definition decodeBase64Hash :: "string \<Rightarrow> bytes option" where
  "decodeBase64Hash v =
     (case base64_decode v of None \<Rightarrow> None | Some decoded \<Rightarrow> if length decoded \<noteq> 32 then None else Some decoded)"

record nativeAccountVote =
  Found :: bool
  Balance :: u64
  AccountCode :: string
  AccountData :: string
  LT :: string
  VoteTransactionHash :: string
  TransactionTime :: u64
  BlockRoot :: string
  BlockFile :: string

definition transactionTuple :: "nativeAccountVote \<Rightarrow> (u64 \<times> bytes) option" where
  "transactionTuple v =
     (case ParseUint64 (LT v) of
        None \<Rightarrow> None
      | Some lt \<Rightarrow>
          if lt = 0 then None
          else case decodeBase64Hash (VoteTransactionHash v) of
            None \<Rightarrow> None
          | Some hash \<Rightarrow> if hash = zero_bytes 32 then None else Some (lt, hash))"

text \<open>The resolver's process state and its checkpoint file.\<close>

record resolver_state =
  highWater :: u64
  checkpointFile :: "string option"

text \<open>The locator and the typed decoding of account data are functions of \<^verbatim>\<open>pkg/nativecore\<close>: the
  account address and code hash of an object, and its state (None if the data is undecodable or
  holds no object).\<close>

record resolver_lib =
  LocatorWorkchain :: int
  Locate :: "string \<Rightarrow> (string \<times> string) option"
  DecodeData :: "string \<Rightarrow> string \<Rightarrow> NativeStateV1 option"

text \<open>What the network does during one resolution: the endpoints' consensus answers, their account
  answers at a checkpoint and address, the clocks read by \<^verbatim>\<open>consensus\<close> and by the resolver, and the
  fault of the checkpoint write.\<close>

record resolver_env =
  ConsensusRPC :: "(string \<times> consensusResult option) list"
  AccountRPC :: "string list \<Rightarrow> string \<Rightarrow> u64 \<Rightarrow> (string \<times> nativeAccountVote option) list"
  AdapterClock :: int
  ResolverClock :: int
  Cancelled :: bool
  CheckpointFault :: rewrite_fault

datatype resolve_error =
    BadTarget | NoConsensus | StaleConsensus | SequenceRegressed | NoAccountQuorum | CheckpointRejected
  | BadAccountData | StateHashMismatch | BadTuple

definition commitCheckpoint :: "rewrite_fault \<Rightarrow> u64 \<Rightarrow> resolver_state \<Rightarrow> bool \<times> resolver_state" where
  "commitCheckpoint fault value s =
     (if value = 0 \<or> value < highWater s then (False, s)
      else let (err, content) = checkAndAdvance fault value (checkpointFile s) in
        if err \<noteq> None then (False, s\<lparr>checkpointFile := content\<rparr>)
        else (True, s\<lparr>checkpointFile := content, highWater := value\<rparr>))"

definition resolveFinalizedState ::
  "resolver_lib \<Rightarrow> (consensusVote \<Rightarrow> string option) \<Rightarrow> (nativeAccountVote \<Rightarrow> string option)
   \<Rightarrow> ((string, consensusVote) groups \<Rightarrow> (string, consensusVote) groups)
   \<Rightarrow> ((string, nativeAccountVote) groups \<Rightarrow> (string, nativeAccountVote) groups)
   \<Rightarrow> Adapter \<Rightarrow> resolver_env \<Rightarrow> string \<Rightarrow> string \<Rightarrow> resolver_state
   \<Rightarrow> (resolve_error + (NativeStateV1 option \<times> int)) \<times> resolver_state" where
  "resolveFinalizedState L key1 key2 order1 order2 a env obj expectedStateHash s =
     (case Locate L obj of
        None \<Rightarrow> (Inl BadTarget, s)
      | Some (account, codeHash) \<Rightarrow>
          (case consensus key1 order1 (Cancelled env) a (ConsensusRPC env) (AdapterClock env) of
             None \<Rightarrow> (Inl NoConsensus, s)
           | Some (ob, nodes) \<Rightarrow>
               if \<not> validateObservationTime a ob (ResolverClock env) then (Inl StaleConsensus, s)
               else if seqno ob = 0 \<or> seqno ob < highWater s then (Inl SequenceRegressed, s)
               else (case quorumRead key2 order2 (Cancelled env) (adapter_quorum a)
                            (AccountRPC env nodes account (seqno ob)) of
                  None \<Rightarrow> (Inl NoAccountQuorum, s)
                | Some (vote, _) \<Rightarrow>
                    if \<not> Found vote then
                      (let (ok, s') = commitCheckpoint (CheckpointFault env) (seqno ob) s in
                       (if ok then Inr (None, observedAt ob) else Inl CheckpointRejected, s'))
                    else (case DecodeData L (AccountData vote) obj of
                       None \<Rightarrow> (Inl BadAccountData, s)
                     | Some state \<Rightarrow>
                         if expectedStateHash \<noteq> [] \<and> TvmStateHash state \<noteq> expectedStateHash
                           then (Inl StateHashMismatch, s)
                         else (case transactionTuple vote of
                            None \<Rightarrow> (Inl BadTuple, s)
                          | Some (lt, txHash) \<Rightarrow>
                              let ref = \<lparr>RefWorkchain = LocatorWorkchain L, RefAccount = account, RefLogicalTime = lt,
                                    RefTransactionHash = ''sha256:'' @ hex_encode txHash,
                                    RefContractCodeHash = codeHash, RefFinalizedCheckpoint = seqno ob\<rparr>;
                                  (ok, s') = commitCheckpoint (CheckpointFault env) (seqno ob) s in
                              (if ok then Inr (Some (state\<lparr>StateReference := Some ref\<rparr>), observedAt ob)
                               else Inl CheckpointRejected, s'))))))"

subsection \<open>Quorum reads\<close>

text \<open>The nodes that answered a value of a given key, in order of arrival.\<close>

definition voters :: "('v \<Rightarrow> string option) \<Rightarrow> ('n, 'v) arrivals \<Rightarrow> string \<Rightarrow> 'n list" where
  "voters key arr k = map fst (filter (\<lambda>(n, a). \<exists>v. a = Some v \<and> key v = Some k) arr)"

definition group_for :: "('v \<Rightarrow> string option) \<Rightarrow> ('n, 'v) arrivals \<Rightarrow> string \<Rightarrow> ('v \<times> 'n list) option \<Rightarrow> bool" where
  "group_for key arr k g = (case g of
      None \<Rightarrow> voters key arr k = []
    | Some (v, ns) \<Rightarrow> key v = Some k \<and> ns = voters key arr k \<and> ns \<noteq> [])"

definition groups_ok :: "('v \<Rightarrow> string option) \<Rightarrow> ('n, 'v) arrivals \<Rightarrow> ('n, 'v) groups \<Rightarrow> bool" where
  "groups_ok key arr gs = (distinct (map fst gs) \<and> (\<forall>k. group_for key arr k (map_of gs k)))"

lemma voters_snoc:
  "voters key (arr @ [(n, a)]) k = voters key arr k @ (if \<exists>v. a = Some v \<and> key v = Some k then [n] else [])"
  by (simp add: voters_def)

lemma group_for_other:
  "\<not> (\<exists>v. a = Some v \<and> key v = Some k) \<Longrightarrow> group_for key (arr @ [(n, a)]) k g = group_for key arr k g"
  by (cases g) (auto simp: group_for_def voters_snoc)

lemma groups_ok_skip:
  "\<forall>v. a = Some v \<longrightarrow> key v = None \<Longrightarrow> groups_ok key arr gs \<Longrightarrow> groups_ok key (arr @ [(n, a)]) gs"
  unfolding groups_ok_def by (metis group_for_other option.distinct(1))

lemma groups_ok_vote:
  assumes "groups_ok key arr gs" and "key v = Some k"
    and "g = (case map_of gs k of None \<Rightarrow> (v, [n]) | Some (w, ns) \<Rightarrow> (w, ns @ [n]))"
  shows "groups_ok key (arr @ [(n, Some v)]) (AList.update k g gs)"
  unfolding groups_ok_def
proof (intro conjI allI)
  show "distinct (map fst (AList.update k g gs))" using assms(1) by (simp add: groups_ok_def distinct_update)
  fix k'
  have old: "group_for key arr k' (map_of gs k')" using assms(1) by (simp add: groups_ok_def)
  show "group_for key (arr @ [(n, Some v)]) k' (map_of (AList.update k g gs) k')"
  proof (cases "k' = k")
    case True
    show ?thesis
      using old assms(2) unfolding True assms(3) group_for_def
      by (cases "map_of gs k") (auto simp: voters_snoc update_conv')
  next
    case False
    then show ?thesis using old assms(2) by (simp add: group_for_other update_conv')
  qed
qed

lemma collect_votes_ok:
  "groups_ok key done groups \<Longrightarrow> groups_ok key (done @ arr) (collect_votes key arr groups)"
proof (induction key arr groups arbitrary: "done" rule: collect_votes.induct)
  case (1 key groups)
  then show ?case by simp
next
  case (2 key node rest groups)
  then show ?case using groups_ok_skip [of None key "done" groups node] by fastforce
next
  case (3 key node "value" rest groups)
  show ?case
  proof (cases "key value")
    case None
    have "groups_ok key (done @ [(node, Some value)]) groups"
      using groups_ok_skip [of "Some value" key "done" groups node] 3(4) None by simp
    from 3(1) [OF None this] show ?thesis using None by simp
  next
    case (Some k)
    note step = groups_ok_vote [OF 3(4) Some refl, of node]
    show ?thesis
    proof (cases "map_of groups k")
      case None
      from 3(2) [OF Some None, of "done @ [(node, Some value)]"] step show ?thesis using None Some by simp
    next
      case found: (Some g)
      obtain v ns where g: "g = (v, ns)" by (cases g)
      from 3(3) [OF Some found g [symmetric], of "done @ [(node, Some value)]"] step show ?thesis using found Some g by simp
    qed
  qed
qed

lemma collect_votes_groups: "groups_ok key arr (collect_votes key arr [])"
  using collect_votes_ok [of key "[]" "[]" arr] by (simp add: groups_ok_def group_for_def voters_def)

lemma groups_member:
  assumes "groups_ok key arr gs"
  shows "(k, v, ns) \<in> set gs \<Longrightarrow> key v = Some k \<and> ns = voters key arr k"
    and "voters key arr k \<noteq> [] \<Longrightarrow> \<exists>v. (k, v, voters key arr k) \<in> set gs"
proof -
  have d: "distinct (map fst gs)" and m: "\<And>k. group_for key arr k (map_of gs k)"
    using assms by (auto simp: groups_ok_def)
  show "key v = Some k \<and> ns = voters key arr k" if "(k, v, ns) \<in> set gs"
    using m [of k] map_of_is_SomeI [OF d that] by (simp add: group_for_def)
  show "\<exists>v. (k, v, voters key arr k) \<in> set gs" if "voters key arr k \<noteq> []"
    using m [of k] that by (cases "map_of gs k") (auto simp: group_for_def dest: map_of_SomeD)
qed

lemma find_member: "List.find P xs = Some x \<Longrightarrow> P x \<and> x \<in> set xs"
  by (induction xs) (auto split: if_splits)

lemma quorumRead_Some:
  assumes "\<And>gs. set (order gs) = set gs" and "quorumRead key order c q arr = Some (v, ns)"
  shows "\<exists>k. key v = Some k \<and> ns = voters key arr k \<and> q \<le> length ns"
proof -
  let ?gs = "collect_votes key arr []"
  obtain k where k: "List.find (\<lambda>(k, v, nodes). length nodes \<ge> q) (order ?gs) = Some (k, v, ns)"
    using assms(2) unfolding quorumRead_def by (auto split: if_splits)
  have m: "q \<le> length ns" "(k, v, ns) \<in> set ?gs"
    using find_member [OF k] assms(1) by simp_all
  have "key v = Some k \<and> ns = voters key arr k"
    by (rule groups_member(1) [OF collect_votes_groups m(2)])
  then show ?thesis using m(1) by simp
qed

lemma quorumRead_None:
  assumes "\<And>gs. set (order gs) = set gs" and "0 < q"
  shows "quorumRead key order False q arr = None \<longleftrightarrow> (\<forall>k. length (voters key arr k) < q)"
proof -
  have "quorumRead key order False q arr = None \<longleftrightarrow>
      (\<forall>(k, v, ns) \<in> set (collect_votes key arr []). length ns < q)"
    using assms(1) by (auto simp: quorumRead_def find_None_iff not_le)
  also have "\<dots> \<longleftrightarrow> (\<forall>k. length (voters key arr k) < q)"
  proof
    assume l: "\<forall>(k, v, ns) \<in> set (collect_votes key arr []). length ns < q"
    show "\<forall>k. length (voters key arr k) < q"
    proof
      fix k show "length (voters key arr k) < q"
      proof (cases "voters key arr k = []")
        case True
        then show ?thesis using assms(2) by simp
      next
        case False
        then show ?thesis using groups_member(2) [OF collect_votes_groups False] l by auto
      qed
    qed
  next
    assume r: "\<forall>k. length (voters key arr k) < q"
    have "length ns < q" if "(k, v, ns) \<in> set (collect_votes key arr [])" for k v ns
      using groups_member(1) [OF collect_votes_groups that] r by simp
    then show "\<forall>(k, v, ns) \<in> set (collect_votes key arr []). length ns < q" by auto
  qed
  finally show ?thesis .
qed

text \<open>Two keys cannot both have a strict majority of the answers.\<close>

lemma voters_disjoint:
  "k \<noteq> k' \<Longrightarrow> length (voters key arr k) + length (voters key arr k') \<le> length arr"
  by (induction arr) (auto simp: voters_def)

lemma majority_unique:
  assumes "length arr < 2 * q" and "q \<le> length (voters key arr k)" and "q \<le> length (voters key arr k')"
  shows "k = k'"
  using voters_disjoint [of k k' key arr] assms by (cases "k = k'") auto

lemma voters_mset: "mset arr = mset arr' \<Longrightarrow> mset (voters key arr k) = mset (voters key arr' k)"
  by (simp add: voters_def)

lemma New_Adapter_majority:
  assumes "New_Adapter au c = Some a"
  shows "length (adapter_nodes a) < 2 * adapter_quorum a" "0 < adapter_quorum a"
    "adapter_quorum a \<le> length (adapter_nodes a)"
  using assms by (auto simp: New_Adapter_def policy_bounds_def with_defaults_def Let_def split: if_splits)

lemma arrivals_bound:
  assumes "set (map fst arr) \<subseteq> set nodes" and "distinct (map fst arr)"
  shows "length arr \<le> length nodes"
  using card_mono [OF _ assms(1)] distinct_card [OF assms(2)] card_length [of nodes] by simp

subsection \<open>The checkpoint store without and with interruptions\<close>

lemma trim_written: "trim_space (dec_string n @ [CHR 0x0A]) = dec_string n"
  using dec_string_digits [of n] by (simp add: trim_space_digits_nl)

lemma ParseUint64_dec_string: "ParseUint64 (dec_string (unat (v :: u64))) = Some v"
  using dec_string_digits [of "unat v"] unat_u64_less [of v] by (simp add: ParseUint64_def)

lemma stored_written: "stored_checkpoint (Some (dec_string (unat (v :: u64)) @ [CHR 0x0A])) = (if v = 0 then None else Some v)"
  using dec_string_digits [of "unat v"] by (simp add: stored_checkpoint_def trim_written ParseUint64_dec_string)

lemma stored_empty: "stored_checkpoint (Some []) = Some 0"
  by (simp add: stored_checkpoint_def trim_space_graphic)

definition fence_value :: "string option \<Rightarrow> nat" where
  "fence_value content = (case stored_checkpoint content of None \<Rightarrow> 0 | Some v \<Rightarrow> unat v)"

lemma checkAndAdvance_cases:
  obtains (kept) err where "checkAndAdvance fault v content = (Some err, content)"
  | (same) "v \<noteq> 0" "stored_checkpoint content = Some v" "checkAndAdvance fault v content = (None, content)"
  | (written) previous where "v \<noteq> 0" "stored_checkpoint content = Some previous" "previous < v"
      "checkAndAdvance fault v content = (case fault of
         RewriteStop n \<Rightarrow> (Some CheckpointIO, Some (take n (dec_string (unat v) @ [CHR 0x0A])))
       | _ \<Rightarrow> (None, Some (dec_string (unat v) @ [CHR 0x0A])))"
proof (cases "stored_checkpoint content")
  case None
  then have "\<exists>err. checkAndAdvance fault v content = (Some err, content)" by (simp add: checkAndAdvance_def)
  then show ?thesis using kept by blast
next
  case (Some previous)
  consider "fault = RewriteFailEarly" | "v = 0 \<or> v < previous" | "v \<noteq> 0" "v = previous" "fault \<noteq> RewriteFailEarly"
    | "v \<noteq> 0" "previous < v" "fault \<noteq> RewriteFailEarly" by (meson linorder_neqE)
  then show ?thesis
  proof cases
    case 1
    then show ?thesis using kept by (simp add: checkAndAdvance_def)
  next
    case 2
    then have "\<exists>err. checkAndAdvance fault v content = (Some err, content)"
      using Some by (auto simp: checkAndAdvance_def)
    then show ?thesis using kept by blast
  next
    case 3
    then show ?thesis using same Some by (simp add: checkAndAdvance_def)
  next
    case 4
    have "\<not> v < previous" "v \<noteq> previous" using 4(2) by auto
    then show ?thesis
      using written [OF 4(1) Some 4(2)] Some 4 by (simp add: checkAndAdvance_def Let_def)
  qed
qed

text \<open>Without an interrupted rewrite the stored number only grows: each call is either refused early
  or runs to its end.\<close>

definition checkpoint_next :: "string option \<Rightarrow> bool \<times> u64 \<Rightarrow> string option" where
  "checkpoint_next content op = snd (checkAndAdvance (if fst op then RewriteFailEarly else RewriteOk) (snd op) content)"

interpretation uninterrupted_checkpoints: monotone_log "\<lambda>content (_ :: unit). fence_value content" checkpoint_next
proof
  fix content k op
  show "fence_value content \<le> fence_value (checkpoint_next content op)"
    unfolding checkpoint_next_def
    by (cases rule: checkAndAdvance_cases [of "if fst op then RewriteFailEarly else RewriteOk" "snd op" content])
      (auto simp: fence_value_def stored_written word_less_nat_alt checkAndAdvance_def)
qed

subsection \<open>The relay fence\<close>

definition fence_next :: "fence_file option \<Rightarrow> op_io \<times> u64 \<times> string \<Rightarrow> fence_file option" where
  "fence_next f op = snd (fence_checkAndAdvance (fst op) (fst (snd op)) (snd (snd op)) f)"

definition fence_at :: "fence_file option \<Rightarrow> unit \<Rightarrow> fence_record option" where
  "fence_at f k = (case f of Some (FenceFile r) \<Rightarrow> Some r | _ \<Rightarrow> None)"

definition fence_moves :: "fence_record \<Rightarrow> fence_record \<Rightarrow> bool" where
  "fence_moves a b = (FenceSequence a \<le> FenceSequence b \<and>
     (FenceSequence a = FenceSequence b \<longrightarrow> FenceCheckpointID a = FenceCheckpointID b))"

lemma fence_step:
  "fence_at f () = Some r \<Longrightarrow> \<exists>r'. fence_at (fence_next f op) () = Some r' \<and> fence_moves r r'"
  by (cases f) (auto simp: fence_at_def fence_next_def fence_checkAndAdvance_def fence_replace_def Let_def
      readTOSRelayCheckpointFence_def fence_moves_def not_less split: fence_file.splits)

interpretation relay_fence: record_log fence_at fence_next fence_moves
proof
  show "fence_moves a b \<Longrightarrow> fence_moves b c \<Longrightarrow> fence_moves a c" for a b c
    by (auto simp: fence_moves_def)
  show "fence_at s k = Some v \<Longrightarrow> \<exists>w. fence_at (fence_next s c) k = Some w \<and> fence_moves v w" for s k v c
    using fence_step by simp
qed (simp add: fence_moves_def)

lemma fence_accepted:
  assumes "fst (fence_checkAndAdvance io sq cid f) = None"
  shows "\<exists>r. fence_at (fence_next f (io, sq, cid)) () = Some r \<and> FenceSequence r = sq \<and> FenceCheckpointID r = cid"
  using assms
  by (cases f) (auto simp: fence_at_def fence_next_def fence_checkAndAdvance_def fence_replace_def Let_def
      readTOSRelayCheckpointFence_def split: fence_file.splits if_splits)

subsection \<open>The observation store\<close>

definition observation_next ::
  "('r \<Rightarrow> string option) \<Rightarrow> ('r \<Rightarrow> nat) \<Rightarrow> 'r observation_file dir \<Rightarrow> op_io \<times> 'r \<Rightarrow> 'r observation_file dir" where
  "observation_next refDigest jsonSize d op = snd (put_observation refDigest jsonSize (fst op) (snd op) d)"

definition observation_at :: "'r observation_file dir \<Rightarrow> string \<Rightarrow> 'r option" where
  "observation_at d p = (case map_of d p of Some (ObservationFile r) \<Rightarrow> Some r | _ \<Rightarrow> None)"

lemma put_observation_keeps:
  assumes "map_of d p = Some f"
  shows "map_of (snd (put_observation refDigest jsonSize io r d)) p = Some f"
  using assms
  by (auto simp: put_observation_def Let_def case_prod_beta map_of_atomicCreate
      split: option.splits sum.splits bool.splits)

interpretation observations: binding_log observation_at "observation_next refDigest jsonSize"
  for refDigest :: "'r \<Rightarrow> string option" and jsonSize :: "'r \<Rightarrow> nat"
proof
  fix d :: "'r observation_file dir" and p v c assume "observation_at d p = Some v"
  then have "map_of d p = Some (ObservationFile v)"
    by (auto simp: observation_at_def split: option.splits observation_file.splits)
  from put_observation_keeps [OF this]
  show "observation_at (observation_next refDigest jsonSize d c) p = Some v"
    by (simp add: observation_next_def observation_at_def)
qed

lemma put_observation_recorded:
  assumes "fst (put_observation refDigest jsonSize io r d) = Inr digest"
  shows "refDigest r = Some digest \<and> (\<exists>path. observation_path digest = Some path \<and>
    observation_at (snd (put_observation refDigest jsonSize io r d)) path = Some r)"
proof -
  obtain path where p: "refDigest r = Some digest" "observation_path digest = Some path"
    using assms by (auto simp: put_observation_def Let_def case_prod_beta split: option.splits if_splits sum.splits bool.splits)
  have read: "readPath refDigest ok path d' = Inr (Some r) \<Longrightarrow> map_of d' path = Some (ObservationFile r)" for ok d'
    by (auto simp: readPath_def split: if_splits option.splits observation_file.splits)
  have "observation_at (snd (put_observation refDigest jsonSize io r d)) path = Some r"
    using assms p
    by (auto simp: put_observation_def Let_def case_prod_beta observation_at_def
        split: option.splits if_splits sum.splits bool.splits dest!: read atomicCreate_created)
  then show ?thesis using p by blast
qed

subsection \<open>Commitment of a checkpoint\<close>

lemma commitCheckpoint_ok:
  assumes "commitCheckpoint fault v s = (True, s')"
  shows "highWater s \<le> v \<and> v \<noteq> 0 \<and> highWater s' = v \<and> stored_checkpoint (checkpointFile s') = Some v"
proof -
  have v: "v \<noteq> 0" "highWater s \<le> v" "fst (checkAndAdvance fault v (checkpointFile s)) = None"
    "s' = s\<lparr>checkpointFile := snd (checkAndAdvance fault v (checkpointFile s)), highWater := v\<rparr>"
    using assms by (auto simp: commitCheckpoint_def Let_def case_prod_beta split: if_splits)
  have "stored_checkpoint (snd (checkAndAdvance fault v (checkpointFile s))) = Some v"
    by (cases rule: checkAndAdvance_cases [of fault v "checkpointFile s"])
      (use v in \<open>auto simp: stored_written split: rewrite_fault.splits\<close>)
  then show ?thesis using v by simp
qed

subsection \<open>What a resolved object rests on\<close>

definition map_order :: "(('n, 'v) groups \<Rightarrow> ('n, 'v) groups) \<Rightarrow> bool" where
  "map_order order = (\<forall>gs. mset (order gs) = mset gs)"

lemma map_order_set: "map_order order \<Longrightarrow> set (order gs) = set gs"
  by (metis map_order_def set_mset_mset)

abbreviation votes_of :: "resolver_env \<Rightarrow> (string, consensusVote) arrivals" where
  "votes_of env \<equiv> map (\<lambda>(n, r). (n, Option.bind r consensus_vote)) (ConsensusRPC env)"

text \<open>A quorum of endpoints voted for a final position that is neither stale nor from the future, and
  a quorum of those endpoints reported the account at that position.\<close>

definition quorum_position ::
  "(consensusVote \<Rightarrow> string option) \<Rightarrow> Adapter \<Rightarrow> resolver_env \<Rightarrow> consensusObservation \<Rightarrow> string list \<Rightarrow> bool" where
  "quorum_position key a env ob nodes = (\<exists>vote k. key vote = Some k \<and> nodes = voters key (votes_of env) k \<and>
     adapter_quorum a \<le> length nodes \<and> seqno ob = VoteBlock vote \<and>
     observedAt ob = sint (VoteUtime vote) * 1000000000 \<and>
     observedAt ob \<le> ResolverClock env + 2 * Minute \<and> ResolverClock env < observedAt ob + readinessAge a)"

definition quorum_account ::
  "(nativeAccountVote \<Rightarrow> string option) \<Rightarrow> Adapter \<Rightarrow> resolver_env \<Rightarrow> string list \<Rightarrow> string \<Rightarrow> u64 \<Rightarrow> nativeAccountVote \<Rightarrow> bool" where
  "quorum_account key a env nodes account sq vote = (\<exists>k. key vote = Some k \<and>
     adapter_quorum a \<le> length (voters key (AccountRPC env nodes account sq) k))"

lemma consensus_position:
  assumes "map_order order" and "consensus key order c a (ConsensusRPC env) now = Some (ob, nodes)"
    and "validateObservationTime a ob (ResolverClock env)"
  shows "quorum_position key a env ob nodes"
proof -
  obtain vote where v: "quorumRead key order c (adapter_quorum a) (votes_of env) = Some (vote, nodes)"
    "seqno ob = VoteBlock vote" "observedAt ob = sint (VoteUtime vote) * 1000000000"
    using assms(2) by (auto simp: consensus_def Let_def split: option.splits prod.splits if_splits)
  obtain k where "key vote = Some k" "nodes = voters key (votes_of env) k" "adapter_quorum a \<le> length nodes"
    using quorumRead_Some [OF map_order_set [OF assms(1)] v(1)] by blast
  then show ?thesis using v assms(3) by (auto simp: quorum_position_def validateObservationTime_def)
qed

lemma account_quorum:
  assumes "map_order order"
    and "quorumRead key order c (adapter_quorum a) (AccountRPC env nodes account sq) = Some (vote, x)"
  shows "quorum_account key a env nodes account sq vote"
  using quorumRead_Some [OF map_order_set [OF assms(1)] assms(2)] by (auto simp: quorum_account_def)

lemma resolve_parts:
  assumes "resolveFinalizedState L key1 key2 order1 order2 a env obj expected s = (Inr (Some st, t), s')"
  obtains account codeHash ob nodes vote x state lt h where "Locate L obj = Some (account, codeHash)"
    "consensus key1 order1 (Cancelled env) a (ConsensusRPC env) (AdapterClock env) = Some (ob, nodes)"
    "validateObservationTime a ob (ResolverClock env)"
    "quorumRead key2 order2 (Cancelled env) (adapter_quorum a) (AccountRPC env nodes account (seqno ob)) = Some (vote, x)"
    "Found vote" "DecodeData L (AccountData vote) obj = Some state"
    "expected = [] \<or> TvmStateHash state = expected"
    "transactionTuple vote = Some (lt, h)" "commitCheckpoint (CheckpointFault env) (seqno ob) s = (True, s')"
    "t = observedAt ob"
    "st = state\<lparr>StateReference := Some \<lparr>RefWorkchain = LocatorWorkchain L, RefAccount = account, RefLogicalTime = lt,
       RefTransactionHash = ''sha256:'' @ hex_encode h, RefContractCodeHash = codeHash,
       RefFinalizedCheckpoint = seqno ob\<rparr>\<rparr>"
proof -
  obtain account codeHash where 1: "Locate L obj = Some (account, codeHash)"
    using assms unfolding resolveFinalizedState_def by (auto split: option.splits)
  obtain ob nodes where 2: "consensus key1 order1 (Cancelled env) a (ConsensusRPC env) (AdapterClock env) = Some (ob, nodes)"
    using assms 1 unfolding resolveFinalizedState_def by (auto split: option.splits)
  have 3: "validateObservationTime a ob (ResolverClock env)" "\<not> (seqno ob = 0 \<or> seqno ob < highWater s)"
    using assms 1 2 unfolding resolveFinalizedState_def by (auto split: if_splits)
  obtain vote x where 4: "quorumRead key2 order2 (Cancelled env) (adapter_quorum a)
      (AccountRPC env nodes account (seqno ob)) = Some (vote, x)"
    using assms 1 2 3 unfolding resolveFinalizedState_def by (auto split: option.splits)
  have 5: "Found vote"
    using assms 1 2 3 4 unfolding resolveFinalizedState_def
    by (cases "Found vote") (auto simp: Let_def case_prod_beta split: if_splits)
  obtain state where 6: "DecodeData L (AccountData vote) obj = Some state"
    using assms 1 2 3 4 5 unfolding resolveFinalizedState_def by (auto split: option.splits)
  have 7: "expected = [] \<or> TvmStateHash state = expected"
    using assms 1 2 3 4 5 6 unfolding resolveFinalizedState_def by (auto split: if_splits)
  obtain lt h where 8: "transactionTuple vote = Some (lt, h)"
    using assms 1 2 3 4 5 6 7 unfolding resolveFinalizedState_def by (auto split: option.splits)
  obtain ok s2 where 9: "commitCheckpoint (CheckpointFault env) (seqno ob) s = (ok, s2)" by fastforce
  show ?thesis
    using that [OF 1 2 3(1) 4 5 6 7 8] assms 1 2 3 4 5 6 7 8 9 unfolding resolveFinalizedState_def
    by (auto simp: Let_def split: if_splits)
qed

subsection \<open>Properties\<close>

text \<open>C27: A quorum read has one answer. For an adapter that its constructor accepted (quorum a strict
  majority of distinct endpoints), whatever the order in which the endpoint answers arrive and in
  which Go ranges over the groups, either every read fails or every read returns values of the same
  digest, from the same endpoints, at least a quorum of them.\<close>

theorem quorum_read_has_one_answer:
  assumes "New_Adapter au c = Some a" and "map_order order" and "map_order order'"
    and "mset arr' = mset arr" and "distinct (map fst arr)" and "set (map fst arr) \<subseteq> set (adapter_nodes a)"
  shows "(quorumRead key order False (adapter_quorum a) arr = None \<and>
      quorumRead key order' False (adapter_quorum a) arr' = None) \<or>
    (\<exists>k v ns v' ns'. quorumRead key order False (adapter_quorum a) arr = Some (v, ns) \<and>
      quorumRead key order' False (adapter_quorum a) arr' = Some (v', ns') \<and>
      key v = Some k \<and> key v' = Some k \<and> mset ns = mset ns' \<and> adapter_quorum a \<le> length ns)"
proof -
  let ?q = "adapter_quorum a"
  have q: "length arr < 2 * ?q" "0 < ?q"
    using New_Adapter_majority [OF assms(1)] arrivals_bound [OF assms(6,5)] by simp_all
  have len: "length (voters key arr' k) = length (voters key arr k)" for k
    using voters_mset [OF assms(4)] by (metis mset_eq_length)
  note none = quorumRead_None [OF map_order_set [OF assms(2)] q(2)] quorumRead_None [OF map_order_set [OF assms(3)] q(2)]
  show ?thesis
  proof (cases "quorumRead key order False ?q arr")
    case None
    then show ?thesis using none len by metis
  next
    case (Some r)
    then obtain v ns where r: "quorumRead key order False ?q arr = Some (v, ns)" by (cases r) simp
    then have "quorumRead key order' False ?q arr' \<noteq> None" using none len by (metis option.distinct(1))
    then obtain v' ns' where r': "quorumRead key order' False ?q arr' = Some (v', ns')" by auto
    obtain k where k: "key v = Some k" "ns = voters key arr k" "?q \<le> length ns"
      using quorumRead_Some [OF map_order_set [OF assms(2)] r] by blast
    obtain k' where k': "key v' = Some k'" "ns' = voters key arr' k'" "?q \<le> length ns'"
      using quorumRead_Some [OF map_order_set [OF assms(3)] r'] by blast
    have "k' = k" using majority_unique [OF q(1), of key k k'] k k' len by simp
    then have "mset ns = mset ns'" using voters_mset [OF assms(4)] k k' by metis
    then show ?thesis using r r' k k' \<open>k' = k\<close> by blast
  qed
qed

definition sample_adapter_policy :: adapter_policy where
  "sample_adapter_policy = \<lparr>Endpoints = [''a'', ''b'', ''c''], Quorum = 2, QueryTimeout = 0, MaxResponseBytes = 0,
     ReadinessMaxAge = 0\<rparr>"

definition sample_adapter :: Adapter where
  "sample_adapter = \<lparr>adapter_nodes = [''a'', ''b'', ''c''], adapter_quorum = 2, readinessAge = 2 * Minute\<rparr>"

lemma sample_adapter_New: "New_Adapter Some sample_adapter_policy = Some sample_adapter"
  by (simp add: New_Adapter_def sample_adapter_policy_def sample_adapter_def policy_bounds_def policy_limits_def
      with_defaults_def Minute_def)

theorem quorum_read_has_one_answer_witness:
  "quorumRead (\<lambda>v. Some v) id False (adapter_quorum sample_adapter)
     [(''a'', Some ''x''), (''b'', Some ''y''), (''c'', Some ''x'')] = Some (''x'', [''a'', ''c'']) \<and>
   (\<exists>ns'. quorumRead (\<lambda>v. Some v) rev False (adapter_quorum sample_adapter)
     [(''c'', Some ''x''), (''b'', Some ''y''), (''a'', Some ''x'')] = Some (''x'', ns'))"
proof -
  have one: "quorumRead (\<lambda>v. Some v) id False (adapter_quorum sample_adapter)
      [(''a'', Some ''x''), (''b'', Some ''y''), (''c'', Some ''x'')] = Some (''x'', [''a'', ''c''])"
    by (simp add: quorumRead_def sample_adapter_def)
  have "map_order id" "map_order rev" by (simp_all add: map_order_def)
  from quorum_read_has_one_answer [OF sample_adapter_New this, of
      "[(''c'', Some ''x''), (''b'', Some ''y''), (''a'', Some ''x'')]"
      "[(''a'', Some ''x''), (''b'', Some ''y''), (''c'', Some ''x'')]" "\<lambda>v. Some v"] one
  show ?thesis by (auto simp: sample_adapter_def)
qed


definition sample_hash64 :: string where
  "sample_hash64 = concat (replicate 10 ''AQEB'') @ ''AQE=''"

definition sample_account_vote :: nativeAccountVote where
  "sample_account_vote = \<lparr>Found = True, Balance = 1, AccountCode = [], AccountData = ''d'', LT = ''5'',
     VoteTransactionHash = sample_hash64, TransactionTime = 1, BlockRoot = [], BlockFile = []\<rparr>"

definition sample_consensus :: consensusResult where
  "sample_consensus = \<lparr>ResultType = ''ext.blocks.consensusBlock'', ConsensusBlock = 7, Timestamp = 100, LastBlockUtime = 100\<rparr>"

definition sample_resolver_env :: resolver_env where
  "sample_resolver_env = \<lparr>ConsensusRPC = [(''a'', Some sample_consensus), (''b'', None), (''c'', Some sample_consensus)],
     AccountRPC = (\<lambda>nodes _ _. map (\<lambda>n. (n, Some sample_account_vote)) nodes),
     AdapterClock = 100 * 1000000000, ResolverClock = 101 * 1000000000, Cancelled = False, CheckpointFault = RewriteOk\<rparr>"

definition sample_object :: NativeStateV1 where
  "sample_object = \<lparr>StateNetwork = None, TvmStateHash = [], StateReference = None, StateObject = None\<rparr>"

definition sample_resolver_lib :: resolver_lib where
  "sample_resolver_lib = \<lparr>LocatorWorkchain = 0, Locate = (\<lambda>_. Some (''account'', ''code'')),
     DecodeData = (\<lambda>_ _. Some sample_object)\<rparr>"

definition sample_resolver_state :: resolver_state where
  "sample_resolver_state = \<lparr>highWater = 3, checkpointFile = Some ''3''\<rparr>"

lemma base64_ones_step:
  "s \<noteq> [] \<Longrightarrow> base64_groups (''AQEB'' @ s) = Option.bind (base64_groups s) (\<lambda>r. Some ([1, 1, 1] @ r))"
  by (cases s) (simp_all add: unbase64_def)

lemma base64_ones: "base64_groups (concat (replicate n ''AQEB'') @ ''AQE='') = Some (replicate (3 * n) 1 @ [1, 1])"
proof (induction n)
  case 0
  then show ?case by (simp add: unbase64_def)
next
  case (Suc n)
  let ?s = "concat (replicate n ''AQEB'') @ ''AQE=''"
  have "concat (replicate (Suc n) ''AQEB'') @ ''AQE='' = ''AQEB'' @ ?s"
    by (simp only: replicate_Suc concat.simps append_assoc)
  then have "base64_groups (concat (replicate (Suc n) ''AQEB'') @ ''AQE='') = Option.bind (base64_groups ?s) (\<lambda>r. Some ([1, 1, 1] @ r))"
    by (simp only: base64_ones_step [of ?s] append_is_Nil_conv list.distinct simp_thms)
  with Suc.IH show ?case by (simp only: Option.bind.simps) (simp add: numeral_3_eq_3)
qed

lemma sample_base64: "base64_decode sample_hash64 = Some (replicate 32 1)"
proof -
  have "filter (\<lambda>c. (of_char c :: nat) \<noteq> 10 \<and> (of_char c :: nat) \<noteq> 13) sample_hash64 = sample_hash64"
    by (rule filter_True) (auto simp: sample_hash64_def)
  moreover have "replicate (3 * 10) (1 :: u8) @ [1, 1] = replicate 32 1"
    using replicate_add [of 30 2 "1 :: u8"] by (simp add: numeral_2_eq_2)
  ultimately show ?thesis
    using base64_ones [of 10] by (simp only: base64_decode_def sample_hash64_def)
qed

lemma sample_tuple: "transactionTuple sample_account_vote = Some (5, replicate 32 1)"
proof -
  have "replicate 32 (1 :: u8) \<noteq> zero_bytes 32" by (simp add: zero_bytes_def)
  then show ?thesis
    by (simp add: transactionTuple_def decodeBase64Hash_def sample_account_vote_def sample_base64 ParseUint64_def
        is_dec_digit_def dec_value_def)
qed

lemma sample_votes:
  "collect_votes (\<lambda>_. Some k) (map (\<lambda>n. (n, Some v)) [''a'', ''c'']) [] = [(k, v, [''a'', ''c''])]"
  by simp

lemma sample_stored: "stored_checkpoint (Some ''3'') = Some 3"
  by (simp add: stored_checkpoint_def trim_space_digits ParseUint64_def is_dec_digit_def dec_value_def)

lemma sample_resolved:
  "\<exists>st s'. resolveFinalizedState sample_resolver_lib (\<lambda>_. Some ''k'') (\<lambda>_. Some ''k'') id id sample_adapter
     sample_resolver_env ''o'' [] sample_resolver_state = (Inr (Some st, 100 * 1000000000), s')"
proof -
  let ?ob = "\<lparr>seqno = 7, observedAt = 100 * 1000000000\<rparr>"
  have vote: "consensus_vote sample_consensus = Some \<lparr>VoteBlock = 7, VoteUtime = 100\<rparr>"
    by (simp add: consensus_vote_def sample_consensus_def)
  have time: "validateObservationTime sample_adapter ?ob (100 * 1000000000)"
    "validateObservationTime sample_adapter ?ob (101 * 1000000000)"
    by (simp_all add: validateObservationTime_def sample_adapter_def zero_time_def Minute_def)
  have con: "consensus (\<lambda>_. Some ''k'') id False sample_adapter (ConsensusRPC sample_resolver_env) (100 * 1000000000)
      = Some (?ob, [''a'', ''c''])"
    using time(1) by (simp add: consensus_def sample_resolver_env_def vote quorumRead_def sample_adapter_def)
  have acc: "quorumRead (\<lambda>_. Some ''k'') id False (adapter_quorum sample_adapter)
      (AccountRPC sample_resolver_env [''a'', ''c''] ''account'' 7) = Some (sample_account_vote, [''a'', ''c''])"
    by (simp add: quorumRead_def sample_resolver_env_def sample_adapter_def)
  have commit: "fst (commitCheckpoint RewriteOk 7 sample_resolver_state)"
    by (simp add: commitCheckpoint_def sample_resolver_state_def checkAndAdvance_def sample_stored Let_def)
  show ?thesis
    using con acc time commit sample_tuple
    by (simp add: resolveFinalizedState_def sample_resolver_lib_def sample_account_vote_def sample_resolver_state_def
        sample_resolver_env_def Let_def case_prod_beta)
qed


text \<open>C28: The relay fence neither regresses nor forks. Over every sequence of fence calls, with any
  I/O faults and restarts in between, a later accepted checkpoint has a sequence at least that of an
  earlier accepted one, and the same identity if the sequence is the same.\<close>

theorem relay_fence_never_regresses_or_forks:
  assumes "fst (fence_checkAndAdvance io1 seq1 id1 (foldl fence_next f ops)) = None"
    and "fst (fence_checkAndAdvance io2 seq2 id2 (foldl fence_next f (ops @ (io1, seq1, id1) # ops'))) = None"
  shows "seq1 \<le> seq2 \<and> (seq1 = seq2 \<longrightarrow> id1 = id2)"
proof -
  let ?f1 = "foldl fence_next f (ops @ [(io1, seq1, id1)])"
  obtain r1 where r1: "fence_at ?f1 () = Some r1" "FenceSequence r1 = seq1" "FenceCheckpointID r1 = id1"
    using fence_accepted [OF assms(1)] by auto
  have "foldl fence_next f (ops @ (io1, seq1, id1) # ops' @ [(io2, seq2, id2)])
      = foldl fence_next ?f1 (ops' @ [(io2, seq2, id2)])" by simp
  moreover obtain r2 where r2: "fence_at (foldl fence_next f (ops @ (io1, seq1, id1) # ops' @ [(io2, seq2, id2)])) () = Some r2"
    "FenceSequence r2 = seq2" "FenceCheckpointID r2 = id2"
    using fence_accepted [OF assms(2)] by auto
  ultimately have "fence_moves r1 r2" using relay_fence.at_run [OF r1(1)] by (metis option.inject)
  then show ?thesis using r1 r2 by (simp add: fence_moves_def)
qed

theorem relay_fence_never_regresses_or_forks_witness:
  "fst (fence_checkAndAdvance io_ok 5 ''x'' None) = None \<and>
   fst (fence_checkAndAdvance io_ok 5 ''x'' (fence_next None (io_ok, 5, ''x''))) = None \<and> (5 :: u64) \<le> 5"
proof -
  have one: "fst (fence_checkAndAdvance io_ok 5 ''x'' (foldl fence_next None [])) = None"
    by (simp add: fence_checkAndAdvance_def io_ok_def readTOSRelayCheckpointFence_def fence_replace_def)
  have two: "fst (fence_checkAndAdvance io_ok 5 ''x'' (foldl fence_next None ([] @ (io_ok, 5, ''x'') # []))) = None"
    by (simp add: fence_next_def fence_checkAndAdvance_def io_ok_def readTOSRelayCheckpointFence_def
        fence_replace_def fenceSchema_def)
  show ?thesis using relay_fence_never_regresses_or_forks [OF one two] one two by simp
qed

text \<open>C29: The checkpoint store forgets its fence when a rewrite is interrupted: it truncates the file
  before it writes the new number, and reads an empty file as no fence at all. So after an accepted
  checkpoint, an advance that stops right after the truncation lets every later checkpoint pass,
  however far back.\<close>

theorem interrupted_advance_forgets_fence:
  assumes "checkAndAdvance RewriteOk p content = (None, content1)" and "p < v" and "w \<noteq> 0"
  shows "fst (checkAndAdvance RewriteOk w (snd (checkAndAdvance (RewriteStop 0) v content1))) = None"
proof -
  have "stored_checkpoint content1 = Some p"
    by (cases rule: checkAndAdvance_cases [of RewriteOk p content])
      (use assms(1) in \<open>auto simp: stored_written\<close>)
  then have "snd (checkAndAdvance (RewriteStop 0) v content1) = Some []"
    using assms(2) by (auto simp: checkAndAdvance_def Let_def)
  then show ?thesis using assms(3) by (simp add: checkAndAdvance_def stored_empty)
qed

theorem interrupted_advance_forgets_fence_witness:
  "fst (checkAndAdvance RewriteOk 9 None) = None \<and>
   fst (checkAndAdvance RewriteOk 1 (snd (checkAndAdvance (RewriteStop 0) 10 (snd (checkAndAdvance RewriteOk 9 None))))) = None"
proof -
  have "stored_checkpoint None = Some 0" by (simp add: stored_checkpoint_def trim_space_graphic)
  then have "checkAndAdvance RewriteOk 9 None = (None, Some (dec_string (unat (9 :: u64)) @ [CHR 0x0A]))"
    by (simp add: checkAndAdvance_def)
  from interrupted_advance_forgets_fence [OF this, of 10 1] this show ?thesis by simp
qed

text \<open>Recorded evidence is read back. When an observation is stored under its digest, then after
  any further stores, whatever their faults, the store returns exactly that observation for that
  digest.\<close>

theorem observation_read_back:
  assumes "fst (put_observation refDigest jsonSize io r d) = Inr digest"
  shows "get_observation refDigest True digest
    (foldl (observation_next refDigest jsonSize) (snd (put_observation refDigest jsonSize io r d)) ops) = Inr r"
proof -
  obtain path where p: "refDigest r = Some digest" "observation_path digest = Some path"
    "observation_at (snd (put_observation refDigest jsonSize io r d)) path = Some r"
    using put_observation_recorded [OF assms] by blast
  have "observation_at (foldl (observation_next refDigest jsonSize)
      (snd (put_observation refDigest jsonSize io r d)) ops) path = Some r"
    by (rule observations.bound_run [OF p(3)])
  then show ?thesis
    using p(1,2) by (auto simp: get_observation_def readPath_def observation_at_def split: option.splits observation_file.splits)
qed

theorem observation_read_back_witness:
  "let refDigest = (\<lambda>b. Some (''sha256:'' @ hex_encode (replicate 32 b))); d = snd (put_observation refDigest (\<lambda>_. 1) io_ok 7 []) in
   get_observation refDigest True (''sha256:'' @ hex_encode (replicate 32 7)) (observation_next refDigest (\<lambda>_. 1) d (io_ok, 8)) = Inr 7"
proof -
  let ?D = "\<lambda>b. Some (''sha256:'' @ hex_encode (replicate 32 b))"
  have low: "ToLower (''sha256:'' @ hex_encode b) = ''sha256:'' @ hex_encode b" for b
    unfolding ToLower_append by (simp add: ToLower_def [of "''sha256:''"])
  have "canonicalSHA256Digest (''sha256:'' @ hex_encode (replicate 32 7))"
    unfolding canonicalSHA256Digest_def trim_prefix_append low by simp
  then have "observation_path (''sha256:'' @ hex_encode (replicate 32 7)) \<noteq> None"
    unfolding observation_path_def trim_prefix_append by simp
  then have "fst (put_observation ?D (\<lambda>_. 1) io_ok 7 []) = Inr (''sha256:'' @ hex_encode (replicate 32 7))"
    by (auto simp add: put_observation_def io_ok_def readPath_def atomicCreate_def)
  from observation_read_back [OF this, of "[(io_ok, 8)]"] show ?thesis by (simp add: Let_def)
qed

end
