(* ===== verification/Agreement_Props.thy ===== *)
theory Agreement_Props
  imports Agreement
begin

text \<open>
  Correctness of agreements: the cycle check is exact, accepted obligations have an order of discharge,
  targets and validation are inverse, a complete authorization covers every predicate once, and a signed
  acceptance verifies. A concrete agreement witnesses the hypotheses.
\<close>

subsection \<open>The cycle check is exact\<close>

definition dep_edges :: "obligation_map \<Rightarrow> (string \<times> string) set" where
  "dep_edges obs = {(a, b). b \<in> set (depends_on obs a)}"

definition marked :: "mark \<Rightarrow> (string \<times> mark) list \<Rightarrow> string set" where
  "marked m st = {i. map_of st i = Some m}"

text \<open>What the search keeps: finished obligations depend on finished ones only and lie on no cycle.\<close>

definition finished_ok :: "obligation_map \<Rightarrow> (string \<times> mark) list \<Rightarrow> bool" where
  "finished_ok obs st \<longleftrightarrow> (\<forall>b\<in>marked Visited st. set (depends_on obs b) \<subseteq> marked Visited st \<and> (b, b) \<notin> (dep_edges obs)\<^sup>+)"

lemma marked_update: "marked m (AList.update i m' st) = (if m = m' then insert i (marked m st) else marked m st - {i})"
  by (auto simp: marked_def update_conv')

lemma finished_closed:
  assumes "finished_ok obs st" "(a, b) \<in> (dep_edges obs)\<^sup>+" "a \<in> marked Visited st"
  shows "b \<in> marked Visited st"
  using assms(2,3) by (induction rule: trancl_induct) (use assms(1) in \<open>auto simp: finished_ok_def dep_edges_def\<close>)

lemma finish_one:
  assumes "finished_ok obs st" "i \<in> marked Visiting st" "set (depends_on obs i) \<subseteq> marked Visited st"
  shows "finished_ok obs (AList.update i Visited st)"
proof -
  have i: "i \<notin> marked Visited st" using assms(2) by (auto simp: marked_def)
  have "(i, i) \<notin> (dep_edges obs)\<^sup>+"
  proof
    assume "(i, i) \<in> (dep_edges obs)\<^sup>+"
    then obtain d where d: "(i, d) \<in> dep_edges obs" "d = i \<or> (d, i) \<in> (dep_edges obs)\<^sup>+" by (metis tranclD rtranclD)
    then have "d \<in> marked Visited st" using assms(3) by (auto simp: dep_edges_def)
    then show False using d(2) i finished_closed [OF assms(1)] by blast
  qed
  then show ?thesis using assms(1,3) by (auto simp: finished_ok_def marked_update)
qed

lemma visit_spec:
  "finished_ok obs st \<Longrightarrow> (\<And>g. g \<in> marked Visiting st \<Longrightarrow> (g, i) \<in> (dep_edges obs)\<^sup>+) \<Longrightarrow> visit obs i st = (c, st') \<Longrightarrow>
     if c then \<not> acyclic (dep_edges obs)
     else finished_ok obs st' \<and> marked Visiting st' = marked Visiting st \<and> insert i (marked Visited st) \<subseteq> marked Visited st'"
  "finished_ok obs st \<Longrightarrow> (\<And>g d. g \<in> marked Visiting st \<Longrightarrow> d \<in> set is \<Longrightarrow> (g, d) \<in> (dep_edges obs)\<^sup>+) \<Longrightarrow>
     visit_all obs is st = (c, st') \<Longrightarrow>
     if c then \<not> acyclic (dep_edges obs)
     else finished_ok obs st' \<and> marked Visiting st' = marked Visiting st \<and> set is \<union> marked Visited st \<subseteq> marked Visited st'"
proof (induction obs i st and obs "is" st arbitrary: c st' and c st' rule: visit_visit_all.induct)
  case (1 obs i st)
  let ?E = "dep_edges obs"
  consider (grey) "map_of st i = Some Visiting" | (black) "map_of st i = Some Visited" | (fresh) "map_of st i = None"
    by (cases "map_of st i"; cases "the (map_of st i)") auto
  then show ?case
  proof cases
    case grey
    then have "(i, i) \<in> ?E\<^sup>+" using "1.prems"(2) by (simp add: marked_def)
    then show ?thesis using "1.prems"(3) grey by (auto simp: visit.simps acyclic_def)
  next
    case black
    then show ?thesis using "1.prems" by (auto simp: visit.simps marked_def)
  next
    case fresh
    obtain c1 s1 where v: "visit_all obs (depends_on obs i) (AList.update i Visiting st) = (c1, s1)" by fastforce
    have ok: "finished_ok obs (AList.update i Visiting st)"
      using "1.prems"(1) fresh by (auto simp: finished_ok_def marked_update) (fastforce simp: marked_def)
    have reach: "(g, d) \<in> ?E\<^sup>+" if "g \<in> marked Visiting (AList.update i Visiting st)" "d \<in> set (depends_on obs i)" for g d
    proof -
      have "(i, d) \<in> ?E" using that(2) by (simp add: dep_edges_def)
      moreover have "g = i \<or> (g, i) \<in> ?E\<^sup>+" using that(1) "1.prems"(2) by (auto simp: marked_update)
      ultimately show ?thesis by (auto intro: trancl_into_trancl)
    qed
    have IH: "if c1 then \<not> acyclic ?E
      else finished_ok obs s1 \<and> marked Visiting s1 = marked Visiting (AList.update i Visiting st) \<and>
        set (depends_on obs i) \<union> marked Visited (AList.update i Visiting st) \<subseteq> marked Visited s1"
      using "1.IH" fresh ok reach v by simp
    show ?thesis
    proof (cases c1)
      case True
      then show ?thesis using IH v fresh "1.prems"(3) by (simp add: visit.simps)
    next
      case False
      have i: "i \<notin> marked Visiting st" "i \<notin> marked Visited st" using fresh by (simp_all add: marked_def)
      have s': "c = False" "st' = AList.update i Visited s1" using "1.prems"(3) v fresh False by (simp_all add: visit.simps)
      have "finished_ok obs st'" unfolding s' using IH False by (intro finish_one) (auto simp: marked_update)
      then show ?thesis using IH False i by (auto simp: s' marked_update)
    qed
  qed
next
  case (2 obs st)
  then show ?case by (simp add: visit_all.simps)
next
  case (3 obs d ds st)
  obtain c1 s1 where v: "visit obs d st = (c1, s1)" by fastforce
  have one: "if c1 then \<not> acyclic (dep_edges obs)
    else finished_ok obs s1 \<and> marked Visiting s1 = marked Visiting st \<and> insert d (marked Visited st) \<subseteq> marked Visited s1"
    using "3.IH"(1) [OF "3.prems"(1) _ v] "3.prems"(2) by simp
  show ?case
  proof (cases c1)
    case True
    then show ?thesis using one v "3.prems"(3) by (simp add: visit_all.simps)
  next
    case False
    then have rest: "visit_all obs ds s1 = (c, st')" using v "3.prems"(3) by (simp add: visit_all.simps)
    have "if c then \<not> acyclic (dep_edges obs)
      else finished_ok obs st' \<and> marked Visiting st' = marked Visiting s1 \<and> set ds \<union> marked Visited s1 \<subseteq> marked Visited st'"
      using "3.IH"(2) [OF v [symmetric] _ _ _ rest] False one "3.prems"(2) by simp
    then show ?thesis using one False by (auto split: if_splits)
  qed
qed

lemma cycle_loop_spec:
  "finished_ok obs st \<Longrightarrow> marked Visiting st = {} \<Longrightarrow>
   if cycle_loop obs is st then \<not> acyclic (dep_edges obs) else (\<forall>i\<in>set is. (i, i) \<notin> (dep_edges obs)\<^sup>+)"
proof (induction obs "is" st rule: cycle_loop.induct)
  case (2 obs i rest st)
  obtain c s1 where v: "visit obs i st = (c, s1)" by fastforce
  note one = visit_spec(1) [OF "2.prems"(1) _ v]
  show ?case
  proof (cases c)
    case True
    then show ?thesis using one v "2.prems"(2) by simp
  next
    case False
    have ok: "finished_ok obs s1" "marked Visiting s1 = {}" "i \<in> marked Visited s1" using one "2.prems"(2) False by auto
    then have "(i, i) \<notin> (dep_edges obs)\<^sup>+" by (simp add: finished_ok_def)
    moreover have "if cycle_loop obs rest s1 then \<not> acyclic (dep_edges obs) else (\<forall>i\<in>set rest. (i, i) \<notin> (dep_edges obs)\<^sup>+)"
      using "2.IH" [OF v [symmetric] _ ok(1,2)] False by simp
    ultimately show ?thesis using v False by simp
  qed
qed simp

lemma edge_source: "(a, b) \<in> dep_edges obs \<Longrightarrow> a \<in> obligation_ids obs"
  by (cases "map_of obs a") (auto simp: dep_edges_def depends_on_def obligation_ids_def dest: map_of_SomeD intro: rev_image_eqI)

lemma has_cycle_iff:
  assumes "set order = obligation_ids obs"
  shows "agreementHasCycle order obs \<longleftrightarrow> \<not> acyclic (dep_edges obs)"
proof -
  have start: "finished_ok obs []" "marked Visiting [] = {}" by (simp_all add: finished_ok_def marked_def)
  have "a \<in> set order" if "(a, a) \<in> (dep_edges obs)\<^sup>+" for a
    using tranclD [OF that] edge_source assms by blast
  then show ?thesis
    using cycle_loop_spec [OF start, of order] by (auto simp: agreementHasCycle_def acyclic_def split: if_splits)
qed

subsection \<open>The shape of an accepted body\<close>

lemma update_append_new: "k \<notin> fst ` set m \<Longrightarrow> AList.update k v m = m @ [(k, v)]"
  by (induction m) auto

lemma obligations_loop_map:
  "obligations_loop parts m bs = Inr m' \<Longrightarrow> distinct (map fst m) \<Longrightarrow>
   m' = m @ map (\<lambda>b. (ObligationID b, b)) bs \<and> distinct (map fst m')"
proof (induction parts m bs rule: obligations_loop.induct)
  case (2 parts m b bs)
  then have "ObligationID b \<notin> fst ` set m"
    by (auto simp: obligation_valid_def map_of_eq_None_iff split: if_splits)
  then have upd: "AList.update (ObligationID b) b m = m @ [(ObligationID b, b)]" "distinct (map fst (m @ [(ObligationID b, b)]))"
    using "2.prems"(2) by (simp_all add: update_append_new)
  have ok: "obligation_valid parts m b" "obligation_times b"
    "obligations_loop parts (m @ [(ObligationID b, b)]) bs = Inr m'"
    using "2.prems"(1) upd(1) by (auto simp: bind_simps split: if_splits)
  have "m' = (m @ [(ObligationID b, b)]) @ map (\<lambda>b. (ObligationID b, b)) bs \<and> distinct (map fst m')"
    by (rule "2.IH" [unfolded upd(1)]) (use ok upd(2) in simp_all)
  then have "m' = m @ map (\<lambda>b. (ObligationID b, b)) (b # bs)" "distinct (map fst m')" by (elim conjE, simp only: append.simps append_assoc list.map, blast)
  then show ?case by blast
qed simp

lemma references_loop_deps:
  "references_loop preds obs bs = Inr u \<Longrightarrow> b \<in> set bs \<Longrightarrow> d \<in> set (DependsOnObligationIDs b) \<Longrightarrow> map_of obs d \<noteq> None"
  by (induction preds obs bs rule: references_loop.induct) (auto simp: bind_simps list_ex_iff split: if_splits)

definition obligation_table :: "AgentAgreementBody \<Rightarrow> obligation_map" where
  "obligation_table body = map (\<lambda>b. (ObligationID b, b)) (Obligations body)"

lemma structure_parts:
  assumes "validate_structure L body rt = Inr u"
  obtains parts preds where
    "participants_loop [] [] (Participants body) = Inr parts"
    "predicates_loop L rt [] [] (AuthorizationPredicates body) = Inr preds"
    "obligations_loop parts [] (Obligations body) = Inr (obligation_table body)"
    "distinct (map ObligationID (Obligations body))"
    "references_loop preds (obligation_table body) (Obligations body) = Inr ()"
    "\<not> agreementHasCycle (map fst (obligation_table body)) (obligation_table body)"
proof -
  from assms obtain parts preds obs where p: "participants_loop [] [] (Participants body) = Inr parts"
    "predicates_loop L rt [] [] (AuthorizationPredicates body) = Inr preds"
    "obligations_loop parts [] (Obligations body) = Inr obs"
    "references_loop preds obs (Obligations body) = Inr ()" "\<not> agreementHasCycle (map fst obs) obs"
    unfolding validate_structure_def by (auto simp: bind_simps split: if_splits)
  have t: "obs = obligation_table body" "distinct (map fst obs)"
    using obligations_loop_map [OF p(3)] by (auto simp: obligation_table_def simp del: map_map)
  then have "distinct (map ObligationID (Obligations body))" by (simp add: obligation_table_def comp_def)
  with t p show thesis by (intro that) simp_all
qed

subsection \<open>An order of discharge\<close>

fun dischargeable :: "string list \<Rightarrow> AgreementObligation list \<Rightarrow> bool" where
  "dischargeable discharged [] = True"
| "dischargeable discharged (b # bs) =
     (list_all (\<lambda>d. d \<in> set discharged) (DependsOnObligationIDs b) \<and> dischargeable (ObligationID b # discharged) bs)"

lemma discharge_order_exists:
  assumes "wf {(d, ObligationID b) | d b. b \<in> set bs \<and> d \<in> set (DependsOnObligationIDs b)}"
    and "\<And>b. b \<in> set bs \<Longrightarrow> set (DependsOnObligationIDs b) \<subseteq> ObligationID ` set bs \<union> set discharged"
    and "distinct (map ObligationID bs)"
  shows "\<exists>bs'. mset bs' = mset bs \<and> dischargeable discharged bs'"
  using assms
proof (induction "length bs" arbitrary: bs discharged)
  case 0
  then show ?case by auto
next
  case (Suc n)
  let ?R = "{(d, ObligationID b) | d b. b \<in> set bs \<and> d \<in> set (DependsOnObligationIDs b)}"
  from Suc(2) have "bs \<noteq> []" by auto
  then obtain i where "i \<in> ObligationID ` set bs" by (metis imageI list.set_sel(1))
  then obtain i where i: "i \<in> ObligationID ` set bs" "\<And>d. (d, i) \<in> ?R \<Longrightarrow> d \<notin> ObligationID ` set bs"
    by (rule wfE_min [OF Suc.prems(1)]) blast
  then obtain b where b: "b \<in> set bs" "ObligationID b = i" by auto
  have free: "set (DependsOnObligationIDs b) \<subseteq> set discharged"
    using i(2) b Suc.prems(2) [OF b(1)] by blast
  let ?rest = "remove1 b bs"
  have sub: "set ?rest \<subseteq> set bs" "distinct (map ObligationID ?rest)"
    using Suc.prems(3) by (auto simp: set_remove1_subset distinct_map dest: inj_on_subset [OF _ set_remove1_subset])
  have ids: "ObligationID ` set bs \<subseteq> insert i (ObligationID ` set ?rest)"
  proof
    fix x assume "x \<in> ObligationID ` set bs"
    then obtain c where "c \<in> set bs" "x = ObligationID c" by blast
    then show "x \<in> insert i (ObligationID ` set ?rest)" using b(2) by (cases "c = b") (simp_all add: in_set_remove1)
  qed
  have "\<exists>bs'. mset bs' = mset ?rest \<and> dischargeable (i # discharged) bs'"
  proof (rule Suc.hyps(1))
    show "n = length ?rest" using Suc(2) b(1) by (simp add: length_remove1)
    show "wf {(d, ObligationID b) | d b. b \<in> set ?rest \<and> d \<in> set (DependsOnObligationIDs b)}"
      using sub(1) by (intro wf_subset [OF Suc.prems(1)]) blast
    fix c assume "c \<in> set ?rest"
    then have "set (DependsOnObligationIDs c) \<subseteq> ObligationID ` set bs \<union> set discharged"
      using sub(1) by (intro Suc.prems(2)) blast
    then show "set (DependsOnObligationIDs c) \<subseteq> ObligationID ` set ?rest \<union> set (i # discharged)"
      using ids unfolding list.set by blast
  qed (rule sub(2))
  then obtain bs' where "mset bs' = mset ?rest" "dischargeable (i # discharged) bs'" by blast
  then have "mset (b # bs') = mset bs \<and> dischargeable discharged (b # bs')"
    using b free by (auto simp: list_all_iff)
  then show ?case by blast
qed

lemma table_edges:
  assumes "distinct (map ObligationID (Obligations body))"
  shows "dep_edges (obligation_table body) =
    {(ObligationID b, d) | b d. b \<in> set (Obligations body) \<and> d \<in> set (DependsOnObligationIDs b)}"
proof -
  have look: "map_of (obligation_table body) a = Some b \<longleftrightarrow> b \<in> set (Obligations body) \<and> a = ObligationID b" for a b
    using assms by (auto simp: obligation_table_def comp_def map_of_eq_Some_iff)
  have "(a, d) \<in> dep_edges (obligation_table body) \<longleftrightarrow>
      (\<exists>b. map_of (obligation_table body) a = Some b \<and> d \<in> set (DependsOnObligationIDs b))" for a d
    by (cases "map_of (obligation_table body) a") (simp_all add: dep_edges_def depends_on_def)
  then show ?thesis by (auto simp: look)
qed

lemma structure_order:
  assumes "validate_structure L body rt = Inr u"
  shows "\<exists>bs. mset bs = mset (Obligations body) \<and> dischargeable [] bs"
proof -
  obtain parts preds where p: "distinct (map ObligationID (Obligations body))"
    "references_loop preds (obligation_table body) (Obligations body) = Inr ()"
    "\<not> agreementHasCycle (map fst (obligation_table body)) (obligation_table body)"
    by (rule structure_parts [OF assms])
  let ?E = "dep_edges (obligation_table body)"
  have "acyclic ?E" using p(3) has_cycle_iff [of "map fst (obligation_table body)"] by (simp add: obligation_ids_def)
  moreover have "finite ?E"
    unfolding table_edges [OF p(1)]
    by (rule finite_subset [of _ "\<Union>b\<in>set (Obligations body). {ObligationID b} \<times> set (DependsOnObligationIDs b)"]) auto
  ultimately have "wf (?E\<inverse>)" by (simp add: finite_acyclic_wf_converse)
  moreover have "?E\<inverse> = {(d, ObligationID b) | d b. b \<in> set (Obligations body) \<and> d \<in> set (DependsOnObligationIDs b)}"
    unfolding table_edges [OF p(1)] by auto
  moreover have "set (DependsOnObligationIDs b) \<subseteq> ObligationID ` set (Obligations body) \<union> set []" if "b \<in> set (Obligations body)" for b
    using references_loop_deps [OF p(2) that] by (fastforce simp: obligation_table_def map_of_eq_None_iff)
  ultimately show ?thesis using discharge_order_exists [of "Obligations body" "[]"] p(1) by simp
qed

subsection \<open>Targets do not take part in the other checks\<close>

lemma with_target_simps [simp]:
  "PredicateID (with_target t p) = PredicateID p" "PredicateSubject (with_target t p) = PredicateSubject p"
  "ObligationIDs (with_target t p) = ObligationIDs p" "EvidenceProfileURI (with_target t p) = EvidenceProfileURI p"
  "EvidenceProfileVersion (with_target t p) = EvidenceProfileVersion p"
  "EvidenceProfileDigest (with_target t p) = EvidenceProfileDigest p"
  "EvidenceTargetProjectionDigest (with_target t p) = t" "with_target t (with_target u p) = with_target t p"
  "with_target (EvidenceTargetProjectionDigest p) p = p"
  "predicate_valid previous (with_target t p) = predicate_valid previous p"
  "builtin_profiles L (with_target t p) = builtin_profiles L p"
  "predicate_json [] (with_target t p) = predicate_json [] p"
  by (simp_all add: with_target_def predicate_valid_def builtin_profiles_def builtin_profile_def predicate_json_def)

definition strip :: "predicate_map \<Rightarrow> predicate_map" where
  "strip m = map (\<lambda>(k, p). (k, with_target [] p)) m"

lemma strip_update: "strip (AList.update k p m) = AList.update k (with_target [] p) (strip m)"
  by (induction m) (auto simp: strip_def)

lemma map_of_strip: "map_of (strip m) k = map_option (with_target []) (map_of m k)"
  by (induction m) (auto simp: strip_def)

lemma predicates_loop_strip:
  "list_all (target_valid rt) ps \<Longrightarrow>
   predicates_loop L False previous (strip m) (map (with_target []) ps) = map_sum id strip (predicates_loop L rt previous m ps)"
proof (induction ps arbitrary: previous m)
  case (Cons p ps)
  then show ?case by (cases "builtin_profiles L p") (simp_all add: target_valid_def strip_update [symmetric])
qed simp

lemma predicates_loop_targets: "predicates_loop L rt previous m ps = Inr m' \<Longrightarrow> list_all (target_valid rt) ps"
  by (induction ps arbitrary: previous m) (auto simp: bind_simps split: if_splits)

lemma obligation_predicates_strip: "obligation_predicates (strip m) b is a = obligation_predicates m b is a"
  by (induction m b "is" a rule: obligation_predicates.induct)
    (auto simp: map_of_strip obligor_predicate_def split: option.splits)

lemma references_loop_strip: "references_loop (strip m) obs bs = references_loop m obs bs"
  by (induction m obs bs rule: references_loop.induct) (auto simp: obligation_predicates_strip ebind_def split: sum.splits)

lemma ebind_map_sum: "ebind (map_sum id f m) k = ebind m (\<lambda>x. k (f x))"
  by (cases m) simp_all

lemma list_ex_map_conv: "list_ex P (map f xs) = list_ex (\<lambda>x. P (f x)) xs"
  by (induction xs) simp_all

lemma validate_structure_clear:
  assumes "list_all (target_valid rt) (AuthorizationPredicates body)"
  shows "validate_structure L (clear_targets body) False = validate_structure L body rt"
proof -
  have "predicates_loop L False [] [] (map (with_target []) (AuthorizationPredicates body)) =
      map_sum id strip (predicates_loop L rt [] [] (AuthorizationPredicates body))"
    using predicates_loop_strip [OF assms, of L "[]" "[]"] by (simp add: strip_def)
  then show ?thesis
    unfolding validate_structure_def clear_targets_def
    by (simp add: ebind_map_sum references_loop_strip list_ex_map_conv cong: if_cong)
qed

lemma structure_targets: "validate_structure L body rt = Inr u \<Longrightarrow> list_all (target_valid rt) (AuthorizationPredicates body)"
  by (rule structure_parts) (auto dest: predicates_loop_targets)

lemma clear_targets_id: "validate_structure L body False = Inr u \<Longrightarrow> clear_targets body = body"
proof -
  assume "validate_structure L body False = Inr u"
  from structure_targets [OF this] have "map (with_target []) (AuthorizationPredicates body) = AuthorizationPredicates body"
    by (intro map_idI) (auto simp: list_all_iff target_valid_def with_target_def)
  then show ?thesis by (simp add: clear_targets_def)
qed

lemma hex_digit_is_lower: "n < 16 \<Longrightarrow> is_lower_hex (hex_digit n)"
  by (drule upto_16) (auto simp: hex_digit_def is_lower_hex_def)

lemma lower_hex_encode: "lower_hex (2 * length b) (hex_encode b)"
proof -
  have "list_all is_lower_hex (hex_encode b)"
  proof (induction b)
    case (Cons w b)
    have "unat w div 16 < 16" using unat_u8_less [of w] by (simp add: less_mult_imp_div_less)
    with Cons show ?case by (simp add: hex_digit_is_lower)
  qed simp
  then show ?thesis by (simp add: lower_hex_def)
qed

lemma canonical_digest: "length b = 32 \<Longrightarrow> canonicalDigestPattern (''sha256:'' @ hex_encode b)"
  using lower_hex_encode [of b] unfolding canonicalDigestPattern_def prefixed_hex64_def by simp

lemma prepare_parts:
  assumes "PrepareAgreementTargets L body = Inr body'"
  obtains c p where "validate_structure L body False = Inr ()"
    "body' = body\<lparr>AuthorizationPredicates := map (\<lambda>q. with_target (predicate_target L c p q) q) (AuthorizationPredicates body)\<rparr>"
  using assms by (auto simp: PrepareAgreementTargets_def bind_simps Let_def)

lemma prepared_body_is_valid:
  assumes "\<And>b. length (sha256 L b) = 32" and prep: "PrepareAgreementTargets L body = Inr body'"
  shows "ValidateAgreementBody L body' = Inr () \<and> clear_targets body' = body"
proof -
  obtain c p where p: "validate_structure L body False = Inr ()"
    "body' = body\<lparr>AuthorizationPredicates := map (\<lambda>q. with_target (predicate_target L c p q) q) (AuthorizationPredicates body)\<rparr>"
    by (rule prepare_parts [OF prep])
  have clear: "clear_targets body' = body"
    using clear_targets_id [OF p(1)] by (simp add: p(2) clear_targets_def comp_def)
  have "list_all (target_valid True) (AuthorizationPredicates body')"
    unfolding p(2) using canonical_digest [OF assms(1)]
    by (simp add: list_all_iff target_valid_def predicate_target_def del: append_Cons append_Nil)
  from validate_structure_clear [OF this, of L] have "validate_structure L body' True = Inr ()" using clear p(1) by simp
  then show ?thesis using prep clear by (simp add: ValidateAgreementBody_def validateAgreementBody_def)
qed

lemma valid_body_is_prepared:
  assumes "ValidateAgreementBody L body = Inr u"
  shows "PrepareAgreementTargets L (clear_targets body) = Inr body"
proof -
  from assms obtain r where r: "PrepareAgreementTargets L (clear_targets body) = Inr r"
    "map EvidenceTargetProjectionDigest (AuthorizationPredicates body) = map EvidenceTargetProjectionDigest (AuthorizationPredicates r)"
    by (auto simp: ValidateAgreementBody_def validateAgreementBody_def bind_simps split: if_splits)
  obtain c p where p: "r = (clear_targets body)\<lparr>AuthorizationPredicates :=
      map (\<lambda>q. with_target (predicate_target L c p q) q) (AuthorizationPredicates (clear_targets body))\<rparr>"
    by (rule prepare_parts [OF r(1)])
  have "\<forall>q\<in>set (AuthorizationPredicates body). predicate_target L c p (with_target [] q) = EvidenceTargetProjectionDigest q"
    using r(2) by (simp add: p clear_targets_def comp_def)
  then have "map (\<lambda>q. with_target (predicate_target L c p (with_target [] q)) q) (AuthorizationPredicates body) = AuthorizationPredicates body"
    by (intro map_idI) simp
  then have "r = body" by (simp add: p clear_targets_def comp_def)
  with r(1) show ?thesis by simp
qed

subsection \<open>Group keys name their group\<close>

lemma NUL_split:
  "CHR 0x00 \<notin> set a \<Longrightarrow> CHR 0x00 \<notin> set b \<Longrightarrow> a @ NUL @ r = b @ NUL @ s \<longleftrightarrow> a = b \<and> r = s"
proof (induction a arbitrary: b)
  case Nil
  then show ?case by (cases b) (auto simp: NUL_def)
next
  case (Cons c a)
  then show ?case by (cases b) (auto simp: NUL_def)
qed

lemma bounded_no_NUL: "boundedIdentifier v m \<Longrightarrow> CHR 0x00 \<notin> set v"
  by (auto simp: boundedIdentifier_def list_ex_iff)

lemma subject_no_NUL:
  assumes "validAuthoritySubject s"
  shows "CHR 0x00 \<notin> set (SubjectKind s)" "CHR 0x00 \<notin> set (SubjectNamespace s)"
    "CHR 0x00 \<notin> set (SubjectIdentifier s)" "CHR 0x00 \<notin> set (RepresentedAgentID s)"
  using assms by (auto simp: validAuthoritySubject_def dest: bounded_no_NUL split: if_splits)

lemma dec_no_NUL: "CHR 0x00 \<notin> set (dec_string n)"
  using dec_string_digits [of n] by (auto simp: list_all_iff is_dec_digit_def)

lemma group_key_inj:
  assumes "validAuthoritySubject s" "validAuthoritySubject t" "boundedIdentifier u 256" "boundedIdentifier u' 256"
    and "group_key s u v d = group_key t u' v' d'"
  shows "s = t \<and> u = u' \<and> v = v' \<and> d = d'"
proof -
  note nul = subject_no_NUL [OF assms(1)] subject_no_NUL [OF assms(2)] bounded_no_NUL [OF assms(3)]
    bounded_no_NUL [OF assms(4)] dec_no_NUL
  have "SubjectKind s = SubjectKind t \<and> SubjectNamespace s = SubjectNamespace t \<and> SubjectIdentifier s = SubjectIdentifier t \<and>
      RepresentedAgentID s = RepresentedAgentID t \<and> u = u' \<and> dec_string (unat v) = dec_string (unat v') \<and> d = d'"
    using assms(5) unfolding group_key_def subject_key_def append_assoc by (simp only: NUL_split nul not_False_eq_True)
  then show ?thesis by (cases s; cases t) (simp add: dec_string_inj word_unat_eq_iff)
qed

subsection \<open>What an accepted evidence set says\<close>

lemma groups_loop_spec:
  "groups_loop now g ps = Inr g' \<Longrightarrow>
   (\<forall>k. group_of g' k = group_of g k @ filter (\<lambda>p. predicate_key p = k) ps) \<and> fst ` set g' = fst ` set g \<union> predicate_key ` set ps"
proof (induction now g ps rule: groups_loop.induct)
  case (2 now g p ps)
  let ?g = "AList.update (predicate_key p) (group_of g (predicate_key p) @ [p]) g"
  have "group_of ?g k = group_of g k @ (if predicate_key p = k then [p] else [])" for k
    by (simp add: group_of_def update_conv')
  moreover have "fst ` set ?g = insert (predicate_key p) (fst ` set g)" by (simp add: dom_update)
  ultimately show ?case using 2 by (auto split: if_splits)
qed simp

definition evidence_matches :: "predicate_groups \<Rightarrow> AgreementAuthorizationEvidence \<Rightarrow> bool" where
  "evidence_matches groups e \<longleftrightarrow>
     map PredicateID (group_of groups (evidence_key e)) = EvidencePredicateIDs e \<and>
     map EvidenceTargetProjectionDigest (group_of groups (evidence_key e)) = EvidenceTargets e"

lemma evidence_loop_spec:
  "evidence_loop L body dg verify now groups seen es = Inr seen' \<Longrightarrow> distinct seen \<Longrightarrow>
   seen' = rev (map evidence_key es) @ seen \<and> distinct seen' \<and>
   (\<forall>e\<in>set es. evidence_wellformed body dg e \<and> evidence_matches groups e \<and> verify e now = Inr ())"
proof (induction es arbitrary: seen)
  case (Cons e es)
  from Cons.prems(1) have ok: "evidence_wellformed body dg e" "evidence_key e \<notin> set seen" "evidence_matches groups e"
    "verify e now = Inr ()" "evidence_loop L body dg verify now groups (evidence_key e # seen) es = Inr seen'"
    by (auto simp: bind_simps Let_def evidence_matches_def split: if_splits)
  have "distinct (evidence_key e # seen)" using ok(2) Cons.prems(2) by simp
  from Cons.IH [OF ok(5) this] ok(1,3,4) show ?case
    unfolding list.map rev.simps append_assoc append.simps list.set by blast
qed simp

lemma valid_predicates:
  "predicates_loop L rt previous m ps = Inr m' \<Longrightarrow> p \<in> set ps \<Longrightarrow> \<exists>q. predicate_valid q p \<and> builtin_profiles L p = Inr ()"
  by (induction L rt previous m ps rule: predicates_loop.induct) (auto simp: bind_simps split: if_splits)

lemma accepted_predicates:
  assumes "ValidateAgreementBody L body = Inr u" "p \<in> set (AuthorizationPredicates body)"
  shows "\<exists>q. predicate_valid q p \<and> builtin_profiles L p = Inr ()"
proof -
  from assms(1) have "validate_structure L body True = Inr ()"
    by (auto simp: ValidateAgreementBody_def validateAgreementBody_def bind_simps)
  then show ?thesis by (rule structure_parts) (use valid_predicates assms(2) in blast)
qed

text \<open>Evidence covers a predicate: same subject and profile, and the predicate's identifier and target
  at one index.\<close>

definition covers :: "AgreementAuthorizationEvidence \<Rightarrow> AgreementAuthorizationPredicate \<Rightarrow> bool" where
  "covers e p \<longleftrightarrow> EvidenceSubject e = PredicateSubject p \<and> EvidenceURI e = EvidenceProfileURI p \<and>
     EvidenceVersion e = EvidenceProfileVersion p \<and> EvidenceDigest e = EvidenceProfileDigest p \<and>
     (PredicateID p, EvidenceTargetProjectionDigest p) \<in> set (zip (EvidencePredicateIDs e) (EvidenceTargets e))"

lemma matches_covers:
  assumes "evidence_matches groups e" "p \<in> set (group_of groups (evidence_key e))"
  shows "(PredicateID p, EvidenceTargetProjectionDigest p) \<in> set (zip (EvidencePredicateIDs e) (EvidenceTargets e))"
proof -
  have zip: "zip (map f xs) (map g xs) = map (\<lambda>x. (f x, g x)) xs" for f :: "AgreementAuthorizationPredicate \<Rightarrow> string" and g :: "AgreementAuthorizationPredicate \<Rightarrow> string" and xs
    by (induction xs) simp_all
  have "EvidencePredicateIDs e = map PredicateID (group_of groups (evidence_key e))"
    "EvidenceTargets e = map EvidenceTargetProjectionDigest (group_of groups (evidence_key e))"
    using assms(1) by (simp_all add: evidence_matches_def)
  with assms(2) show ?thesis by (simp add: zip)
qed

lemma covers_key: "covers e p \<Longrightarrow> evidence_key e = predicate_key p"
  by (simp add: covers_def evidence_key_def predicate_key_def)

lemma authorization_parts:
  assumes "validateAgreementEvidenceSet L ag (Some verify) now True = Inr u"
  obtains dg groups seen where "ValidateAgreementBody L (AgreementBody ag) = Inr ()" "AgreementBodyDigest L (AgreementBody ag) = Inr dg"
    "groups_loop now [] (AuthorizationPredicates (AgreementBody ag)) = Inr groups"
    "evidence_loop L (AgreementBody ag) dg verify now groups [] (AuthorizationEvidence ag) = Inr seen"
    "fst ` set groups \<subseteq> set seen" "time_unix (ValidFromUnix (AgreementBody ag)) \<le> now" "now < time_unix (ExpiresAtUnix (AgreementBody ag))"
  using assms by (auto simp: validateAgreementEvidenceSet_def bind_simps Let_def list_ex_iff split: if_splits)

lemma complete_evidence_covers:
  assumes "validateAgreementEvidenceSet L ag (Some verify) now True = Inr u"
    and p: "p \<in> set (AuthorizationPredicates (AgreementBody ag))"
  shows "\<exists>!i. i < length (AuthorizationEvidence ag) \<and> covers (AuthorizationEvidence ag ! i) p"
proof -
  obtain dg groups seen where a: "ValidateAgreementBody L (AgreementBody ag) = Inr ()"
    "groups_loop now [] (AuthorizationPredicates (AgreementBody ag)) = Inr groups"
    "evidence_loop L (AgreementBody ag) dg verify now groups [] (AuthorizationEvidence ag) = Inr seen" "fst ` set groups \<subseteq> set seen"
    by (rule authorization_parts [OF assms(1)])
  let ?es = "AuthorizationEvidence ag"
  have g: "\<And>k. group_of groups k = filter (\<lambda>p. predicate_key p = k) (AuthorizationPredicates (AgreementBody ag))"
    "fst ` set groups = predicate_key ` set (AuthorizationPredicates (AgreementBody ag))"
    using groups_loop_spec [OF a(2)] by (auto simp: group_of_def)
  have l: "seen = rev (map evidence_key ?es)" "distinct (map evidence_key ?es)"
    "\<And>e. e \<in> set ?es \<Longrightarrow> evidence_wellformed (AgreementBody ag) dg e \<and> evidence_matches groups e"
    using evidence_loop_spec [OF a(3)] by auto
  have "predicate_key p \<in> set seen" using a(4) g(2) p by blast
  then obtain e where e: "e \<in> set ?es" "evidence_key e = predicate_key p" unfolding l(1) by auto
  then obtain i where i: "i < length ?es" "?es ! i = e" by (auto simp: in_set_conv_nth)
  have pin: "p \<in> set (group_of groups (evidence_key e))" using g(1) p e(2) by simp
  obtain q where "predicate_valid q p" using accepted_predicates [OF a(1) p] by blast
  then have "EvidenceSubject e = PredicateSubject p \<and> EvidenceURI e = EvidenceProfileURI p \<and>
      EvidenceVersion e = EvidenceProfileVersion p \<and> EvidenceDigest e = EvidenceProfileDigest p"
    using l(3) [OF e(1)] e(2) unfolding evidence_key_def predicate_key_def
    by (intro group_key_inj) (auto simp: predicate_valid_def evidence_wellformed_def)
  then have "covers e p" using matches_covers [OF _ pin] l(3) [OF e(1)] by (simp add: covers_def)
  moreover have "j = i" if "j < length ?es" "covers (?es ! j) p" for j
    using l(2) i that e(2) covers_key [OF that(2)] by (metis length_map nth_eq_iff_index_eq nth_map)
  ultimately show ?thesis using i by blast
qed

subsection \<open>From a signature to accepted evidence\<close>

definition ed25519_lawful :: "agreement_lib \<Rightarrow> bool" where
  "ed25519_lawful L \<longleftrightarrow> (\<forall>k m. length k = 64 \<longrightarrow> length (publicKeyOf L k) = 32 \<and> length (edSign L k m) = 64 \<and>
     edVerify L (publicKeyOf L k) m (edSign L k m))"

definition reads_back :: "agreement_lib \<Rightarrow> SignedAgreementAcceptance \<Rightarrow> bool" where
  "reads_back L s \<longleftrightarrow> (\<forall>v. decodeJSONModel (tokens (signed_acceptance_json s)) = Inr v \<longrightarrow> decodeAcceptance L (json_of v) = Some s)"

lemma equalStrings_iff: "equalStrings xs ys \<longleftrightarrow> xs = ys"
  by (induction xs ys rule: equalStrings.induct) auto

lemma codec_Inr [bind_simps]: "codec m = Inr x \<longleftrightarrow> m = Inr x"
  by (cases m) (simp_all add: codec_def)

lemma codec_is_Inr [simp]: "codec (Inr x) = Inr x"
  by (simp add: codec_def)

lemma parse_key_text: "length k = 32 \<Longrightarrow> parseEd25519PublicKey (''ed25519:'' @ hex_encode k) = Some k"
  unfolding parseEd25519PublicKey_def trim_prefix_append by simp

lemma parse_signature_text: "length s = 64 \<Longrightarrow> parseEd25519Signature (''ed25519:'' @ rawurl_encode s) = Some s"
  unfolding parseEd25519Signature_def trim_prefix_append by simp

lemma nest_leaf: "json_nesting (juint w) = 0" "json_nesting (jbytes b) = 0" "json_nesting (jstrs vs) \<le> Suc 0"
proof -
  show "json_nesting (jstrs vs) \<le> Suc 0"
    unfolding jstrs_def by (rule order.trans [OF json_nesting_le(1) [of _ 0]]) auto
qed (simp_all add: juint_def jbytes_def)

lemma signed_acceptance_nesting: "json_nesting (signed_acceptance_json s) \<le> 16"
proof -
  have "json_nesting (subject_json u) \<le> 1" for u
    unfolding subject_json_def
    by (rule order.trans [OF json_nesting_le(2) [of _ 0]]) (auto simp: plain_def opt_str_def split: if_splits)
  then have "json_nesting (acceptance_json a) \<le> 2" for a
    unfolding acceptance_json_def
    by (rule_tac order.trans [OF json_nesting_le(2) [of _ 1]]) (auto simp: plain_def opt_strs_def nest_leaf split: if_splits)
  then have "json_nesting (signed_acceptance_json s) \<le> Suc 2"
    unfolding signed_acceptance_json_def by (intro json_nesting_le(2)) (auto simp: plain_def)
  then show ?thesis by simp
qed

lemma written_acceptance_reads_back:
  assumes "cbor_lawful (codec_of L)" "reads_back L s" "Marshal (codec_of L) (signed_acceptance_json s) = Inr b"
  shows "DecodeSignedAgreementAcceptance L b = Inr s"
proof -
  obtain v where v: "decodeJSONModel (tokens (signed_acceptance_json s)) = Inr v" "cborEncode (codec_of L) v = Some b"
    "is_ok (validateDecoded v 0 0)" "length b \<le> MaxCanonicalBytes"
    by (rule Marshal_ok [OF assms(3)])
  have "nesting v \<le> MaxNestedLevels"
    using order.trans [OF decoded_nesting [OF v(1)] signed_acceptance_nesting] by (simp add: MaxNestedLevels_def)
  from Marshal_decodes [OF assms(1,3) v(1) this] v assms(2) show ?thesis
    by (auto simp: DecodeSignedAgreementAcceptance_def Unmarshal_def is_ok_iff reads_back_def)
qed

lemma agent_profile_predicate:
  assumes "ValidateAgreementBody L body = Inr u" "p \<in> set (AuthorizationPredicates body)"
    and "EvidenceProfileURI p = EvidenceProfileAgentSignature"
  shows "EvidenceProfileVersion p = 1 \<and> AgentSignatureProfileDigest L = Inr (EvidenceProfileDigest p) \<and>
    SubjectKind (PredicateSubject p) = ''agent''"
  using accepted_predicates [OF assms(1,2)] assms(3)
  by (auto simp: builtin_profiles_def builtin_profile_def bind_simps split: if_splits)

lemma evidence_parts:
  assumes "AgentSignatureEvidence L body s = Inr e"
  obtains p dg canonical where "ValidateAgreementBody L body = Inr ()" "p \<in> set (AuthorizationPredicates body)"
    "PredicateSubject p = AcceptingSubject (AcceptanceBody s)" "EvidenceProfileURI p = EvidenceProfileAgentSignature"
    "AcceptanceAgreementID (AcceptanceBody s) = AgreementID body" "AcceptanceAgreementVersion (AcceptanceBody s) = AgreementVersion body"
    "AcceptanceBodyDigest (AcceptanceBody s) = dg"
    "Marshal (codec_of L) (signed_acceptance_json s) = Inr canonical"
    "e = \<lparr>EvidenceAgreementID = AgreementID body, EvidenceAgreementVersion = AgreementVersion body, EvidenceBodyDigest = dg,
       EvidenceSubject = AcceptingSubject (AcceptanceBody s), EvidencePredicateIDs = AcceptancePredicateIDs (AcceptanceBody s),
       EvidenceURI = EvidenceProfileAgentSignature, EvidenceVersion = EvidenceProfileVersion p,
       EvidenceDigest = EvidenceProfileDigest p, EvidenceTargets = AcceptanceTargets (AcceptanceBody s),
       EvidenceContentType = AgreementAcceptanceContentType, EvidenceBytes = canonical\<rparr>"
proof -
  let ?ps = "filter (\<lambda>p. PredicateSubject p = AcceptingSubject (AcceptanceBody s) \<and> EvidenceProfileURI p = EvidenceProfileAgentSignature)
    (AuthorizationPredicates body)"
  from assms obtain dg canonical where a: "ValidateAgreementBody L body = Inr ()" "?ps \<noteq> []"
    "AcceptanceAgreementID (AcceptanceBody s) = AgreementID body" "AcceptanceAgreementVersion (AcceptanceBody s) = AgreementVersion body"
    "AcceptanceBodyDigest (AcceptanceBody s) = dg" "Marshal (codec_of L) (signed_acceptance_json s) = Inr canonical"
    "e = \<lparr>EvidenceAgreementID = AgreementID body, EvidenceAgreementVersion = AgreementVersion body, EvidenceBodyDigest = dg,
       EvidenceSubject = AcceptingSubject (AcceptanceBody s), EvidencePredicateIDs = AcceptancePredicateIDs (AcceptanceBody s),
       EvidenceURI = EvidenceProfileAgentSignature, EvidenceVersion = EvidenceProfileVersion (hd ?ps),
       EvidenceDigest = EvidenceProfileDigest (hd ?ps), EvidenceTargets = AcceptanceTargets (AcceptanceBody s),
       EvidenceContentType = AgreementAcceptanceContentType, EvidenceBytes = canonical\<rparr>"
    by (auto simp: AgentSignatureEvidence_def bind_simps Let_def split: sum.splits if_splits)
  have "hd ?ps \<in> set ?ps" using a(2) by (rule hd_in_set)
  then show thesis using a by (intro that [of "hd ?ps" dg canonical]) auto
qed

lemma signed_evidence_verifies:
  assumes lib: "cbor_lawful (codec_of L)" "ed25519_lawful L" "reads_back L s"
    and sign: "SignAgreementAcceptance L a key = Inr s" and ev: "AgentSignatureEvidence L body s = Inr e"
    and key: "authorize (SubjectIdentifier (AcceptingSubject a)) (publicKeyOf L key) now = Inr ()"
    and now: "now < time_unix (AcceptanceExpiresAtUnix a)"
  shows "VerifyAgreementEvidence L (Some authorize) e now = Inr ()"
proof -
  from sign obtain c where s: "length key = 64" "Marshal (codec_of L) (acceptance_json a) = Inr c"
    "s = \<lparr>AcceptanceBody = a, AcceptancePublicKey = ''ed25519:'' @ hex_encode (publicKeyOf L key),
          AcceptanceSignature = ''ed25519:'' @ rawurl_encode (edSign L key (acceptance_message L c))\<rparr>"
    by (auto simp: SignAgreementAcceptance_def bind_simps split: if_splits)
  have keys: "parseEd25519PublicKey (AcceptancePublicKey s) = Some (publicKeyOf L key)"
    "parseEd25519Signature (AcceptanceSignature s) = Some (edSign L key (acceptance_message L c))"
    "edVerify L (publicKeyOf L key) (acceptance_message L c) (edSign L key (acceptance_message L c))"
    using lib(2) s(1) parse_key_text parse_signature_text unfolding s(3) ed25519_lawful_def SignedAgreementAcceptance.simps by blast+
  have body: "AcceptanceBody s = a" using s(3) by simp
  show ?thesis
  proof (rule evidence_parts [OF ev], goal_cases)
    case (1 p dg canonical)
    note prof = agent_profile_predicate [OF 1(1,2,4)]
    have "DecodeSignedAgreementAcceptance L (EvidenceBytes e) = Inr s"
      using written_acceptance_reads_back [OF lib(1,3) 1(8)] 1(9) by simp
    then show ?case
      using prof 1 key now keys s(2) body
      by (simp add: VerifyAgreementEvidence_def VerifySignedAgreementAcceptance_def equalStrings_iff)
  qed
qed

subsection \<open>A concrete agreement\<close>

lemma graphic_valid: "list_all graphic s \<Longrightarrow> ValidString s"
  by (rule ValidString_ascii) (fastforce simp: list_all_iff graphic_def ascii_def)

lemma bounded_graphic:
  assumes "v \<noteq> []" "length v \<le> m" "list_all graphic v"
  shows "boundedIdentifier v m"
proof -
  have "ValidString v" using assms(3) by (rule graphic_valid)
  moreover have "trim_space v = v" using assms by (intro trim_space_graphic) (auto simp: list_all_iff)
  moreover have "\<not> list_ex (\<lambda>c. (of_char c :: nat) \<in> {0, 13, 10}) v" using assms(3) by (auto simp: list_ex_iff list_all_iff graphic_def)
  ultimately show ?thesis using assms(1,2) by (cases v) (simp_all add: boundedIdentifier_def boundedUTF8_def)
qed

lemma good_graphic: "length s \<le> MaxStringBytes \<Longrightarrow> list_all graphic s \<Longrightarrow> good_string s"
  by (simp add: good_string_def graphic_valid)

lemma number_fits: "n < 2 ^ 64 \<Longrightarrow> json_number (dec_string n) = Some (int n)"
  using json_number_format [of "int n"] by (simp add: format_int_def nat_less_iff)

definition zero_digest :: string where
  "zero_digest = ''sha256:'' @ hex_encode (replicate 32 0)"

definition sample_subject :: AgreementAuthoritySubject where
  "sample_subject = \<lparr>SubjectKind = ''agent'', SubjectNamespace = ''n'', SubjectIdentifier = ''a'', RepresentedAgentID = []\<rparr>"

definition sample_predicate :: "string \<Rightarrow> AgreementAuthorizationPredicate" where
  "sample_predicate t = \<lparr>PredicateID = ''p'', PredicateSubject = sample_subject, RoleScope = [], ObligationIDs = [''o''],
     EvidenceProfileURI = EvidenceProfileAgentSignature, EvidenceProfileVersion = 1, EvidenceProfileDigest = zero_digest,
     EvidenceTargetProjectionDigest = t, PredicateValidFromUnix = 0, PredicateExpiresAtUnix = 200,
     PredicateRequiredExtensions = [], PredicateOptionalExtensions = []\<rparr>"

definition sample_obligation :: AgreementObligation where
  "sample_obligation = \<lparr>ObligationID = ''o'', ObligationKind = ''k'', ObligorAgentID = ''a'', BeneficiaryAgentID = ''b'',
     DependsOnObligationIDs = [], SubjectContentType = ''t'', ObligationSubject = [1], AttachmentDigests = [], Amount = None,
     NotBeforeUnix = 0, DueAtUnix = 0, ObligationExpiresAtUnix = 0, AcceptanceEvidenceRequirements = [],
     ConfidentialityPolicy = ''c'', CancellationPolicy = ''c'', DisputePolicy = ''d'', ObligationBillingTerms = None,
     SettlementAdapterURI = [], SettlementParameters = [], AuthorizationPredicateIDs = [''p''], RequiredExtensions = [],
     OptionalExtensions = []\<rparr>"

definition sample_body :: "string \<Rightarrow> AgentAgreementBody" where
  "sample_body t = \<lparr>SchemaVersion = 1, AgreementID = ''g'', AgreementVersion = 1, PredecessorAgreementDigest = [], NetworkContext = ''w'',
     Participants = [\<lparr>ParticipantAgentID = ''a'', Roles = [''r'']\<rparr>, \<lparr>ParticipantAgentID = ''b'', Roles = [''r'']\<rparr>],
     ReferencedIntents = [], TermsContentType = ''t'', Terms = [1], BodyAttachmentDigests = [], Obligations = [sample_obligation],
     AuthorizationPredicates = [sample_predicate t], BodyRequiredExtensions = [], BodyOptionalExtensions = [],
     ValidFromUnix = 100, ExpiresAtUnix = 200\<rparr>"

definition sample_acceptance :: AgreementAcceptanceBody where
  "sample_acceptance = \<lparr>AcceptanceAgreementID = ''g'', AcceptanceAgreementVersion = 1, AcceptanceBodyDigest = zero_digest,
     AcceptingSubject = sample_subject, AcceptedRoles = [], AcceptancePredicateIDs = [''p''], AcceptanceTargets = [zero_digest],
     AcceptanceExpiresAtUnix = 200\<rparr>"

definition sample_signed :: SignedAgreementAcceptance where
  "sample_signed = \<lparr>AcceptanceBody = sample_acceptance, AcceptancePublicKey = ''ed25519:'' @ hex_encode (replicate 32 0),
     AcceptanceSignature = ''ed25519:'' @ rawurl_encode (replicate 64 0)\<rparr>"

definition sample_profile :: json where
  "sample_profile = JObject
     (plain ''profile_uri'' (JString EvidenceProfileAgentSignature) @ plain ''profile_version'' (juint (1 :: u32)) @
      plain ''allowed_subject_kinds'' (jstrs [''agent'']) @ plain ''evidence_content_types'' (jstrs [AgreementAcceptanceContentType]) @
      plain ''predicate_grouping_rule'' (JString ''complete-subject-profile-group'') @
      plain ''target_binding_rule'' (JString ''agreement-predicate-target-v1'') @
      plain ''verifier_profile_uri'' (JString ''tos.verifier.agent-signature.v1'') @
      plain ''validity_policy'' (JString ''expires-before-agreement''))"

definition sample_jsons :: "json list" where
  "sample_jsons = [sample_profile, body_json [] (sample_body []), JArray [predicate_json [] (sample_predicate [])],
     agreement_json (sample_body zero_digest), acceptance_json sample_acceptance, signed_acceptance_json sample_signed]"

lemma zero_digest_good: "good_string zero_digest" "canonicalDigestPattern zero_digest" "zero_digest \<noteq> []"
proof -
  have "list_all graphic zero_digest" "length zero_digest = 71" unfolding zero_digest_def by code_simp+
  then show "good_string zero_digest" by (intro good_graphic) (simp_all add: MaxStringBytes_def)
  show "canonicalDigestPattern zero_digest" unfolding zero_digest_def by (rule canonical_digest) simp
qed (simp add: zero_digest_def)

lemma juint_fits [simp]: "LENGTH('a) \<le> 64 \<Longrightarrow> json_fits d (juint (w :: 'a::len word)) = (d \<le> MaxNestedLevels)"
proof -
  assume "LENGTH('a) \<le> 64"
  then have "(2 :: nat) ^ LENGTH('a) \<le> 2 ^ 64" by (intro power_increasing) simp_all
  then have "unat w < 2 ^ 64" using unsigned_less [of w, where ?'a = nat] by linarith
  then show ?thesis by (simp add: juint_def number_fits)
qed

lemma jstrs_fits [simp]: "json_fits d (jstrs vs) = (d \<le> MaxNestedLevels \<and> length vs \<le> MaxCollectionItems \<and> (Suc d \<le> MaxNestedLevels \<or> vs = []) \<and> list_all good_string vs)"
  by (cases vs) (auto simp: jstrs_def list_all_iff)

lemma json_count_leaf [simp]: "json_count (juint w) = 1" "json_count (jbytes b) = 1" "json_count (jstrs vs) = Suc (length vs)"
  by (simp_all add: juint_def jbytes_def jstrs_def comp_def sum_list_triv)

lemmas tag_simps = plain_def opt_str_def opt_strs_def opt_uint_def opt_bytes_def opt_json_def

lemma good_literal: "length s \<le> 1048576 \<and> list_all graphic s \<Longrightarrow> good_string s"
  by (intro good_graphic) (simp_all add: MaxStringBytes_def)

lemma sample_profile_fits: "json_fits 0 sample_profile \<and> json_count sample_profile \<le> MaxTotalItems"
  by (simp add: sample_profile_def tag_simps good_literal graphic_def MaxNestedLevels_def MaxCollectionItems_def MaxTotalItems_def
      EvidenceProfileAgentSignature_def AgreementAcceptanceContentType_def)

lemma sample_texts_good:
  "good_string (''ed25519:'' @ hex_encode (replicate 32 0))" "good_string (''ed25519:'' @ rawurl_encode (replicate 64 0))"
  "good_string (base64_encode [1])"
proof -
  have a: "list_all graphic (''ed25519:'' @ hex_encode (replicate 32 0))" "length (''ed25519:'' @ hex_encode (replicate 32 0)) \<le> 1000"
    by code_simp+
  have b: "list_all graphic (''ed25519:'' @ rawurl_encode (replicate 64 0))" "length (''ed25519:'' @ rawurl_encode (replicate 64 0)) \<le> 1000"
    by code_simp+
  have c: "list_all graphic (base64_encode [1])" "length (base64_encode [1]) \<le> 1000" by code_simp+
  show "good_string (''ed25519:'' @ hex_encode (replicate 32 0))" "good_string (''ed25519:'' @ rawurl_encode (replicate 64 0))"
    "good_string (base64_encode [1])"
    using a(2) b(2) c(2) by (intro good_literal conjI a(1) b(1) c(1); linarith)+
qed

lemma subject_fits: "json_fits d (subject_json sample_subject) = (Suc d \<le> MaxNestedLevels)" "json_count (subject_json sample_subject) = 4"
  by (auto simp: subject_json_def sample_subject_def tag_simps good_literal graphic_def MaxCollectionItems_def)

lemma obligation_fits: "Suc (Suc d) \<le> MaxNestedLevels \<Longrightarrow> json_fits d (obligation_json sample_obligation)" "json_count (obligation_json sample_obligation) \<le> 20"
  by (auto simp: obligation_json_def sample_obligation_def tag_simps good_literal graphic_def MaxCollectionItems_def
      jbytes_def sample_texts_good)

lemma predicate_fits:
  "Suc (Suc d) \<le> MaxNestedLevels \<Longrightarrow> json_fits d (predicate_json [] (sample_predicate t))"
  "Suc (Suc d) \<le> MaxNestedLevels \<Longrightarrow> json_fits d (predicate_json (plain ''evidence_target_projection_digest'' (JString zero_digest)) (sample_predicate t))"
  "json_count (predicate_json [] (sample_predicate t)) \<le> 20"
  "json_count (predicate_json (plain ''evidence_target_projection_digest'' (JString zero_digest)) (sample_predicate t)) \<le> 20"
  by (auto simp: predicate_json_def sample_predicate_def tag_simps good_literal graphic_def MaxCollectionItems_def
      subject_fits zero_digest_good EvidenceProfileAgentSignature_def)

lemma participant_fits:
  "Suc (Suc d) \<le> MaxNestedLevels \<Longrightarrow> list_all (json_fits d) (map participant_json (Participants (sample_body t)))"
  "sum_list (map json_count (map participant_json (Participants (sample_body t)))) \<le> 20"
  by (auto simp: participant_json_def sample_body_def tag_simps good_literal graphic_def MaxCollectionItems_def)

lemma body_fits:
  assumes "predicates = [] \<or> (\<exists>j. predicates = [(''authorization_predicates'', j)] \<and> json_fits 1 j \<and> json_count j \<le> 100)"
  shows "json_fits 0 (body_json predicates (sample_body t)) \<and> json_count (body_json predicates (sample_body t)) \<le> 200"
  using assms participant_fits(1) [of "Suc (Suc 0)" t] participant_fits(2) [of t] obligation_fits(1) [of "Suc (Suc 0)"] obligation_fits(2)
  by (auto simp: body_json_def sample_body_def tag_simps good_literal graphic_def MaxCollectionItems_def MaxNestedLevels_def
      jbytes_def sample_texts_good extensions_json_def)

lemma acceptance_fits: "Suc (Suc d) \<le> MaxNestedLevels \<Longrightarrow> json_fits d (acceptance_json sample_acceptance)" "json_count (acceptance_json sample_acceptance) \<le> 20"
  by (auto simp: acceptance_json_def sample_acceptance_def tag_simps good_literal graphic_def MaxCollectionItems_def
      subject_fits zero_digest_good)

lemma signed_fits: "json_fits 0 (signed_acceptance_json sample_signed)" "json_count (signed_acceptance_json sample_signed) \<le> 30"
  using acceptance_fits
  by (auto simp: signed_acceptance_json_def sample_signed_def tag_simps good_literal graphic_def MaxCollectionItems_def MaxNestedLevels_def
      sample_texts_good simp del: append_Cons)

text \<open>A library for the sample: an encoding of exactly the values that occur, a constant hash, and a
  signature scheme that accepts.\<close>

definition sample_table :: "cvalue list" where
  "sample_table = map (\<lambda>j. case decodeJSONModel (tokens j) of Inr v \<Rightarrow> v | Inl _ \<Rightarrow> VNull) sample_jsons"

definition sample_agreement_lib :: agreement_lib where
  "sample_agreement_lib = \<lparr>cborEncode = (\<lambda>v. if v \<in> set sample_table then Some [of_nat (length (takeWhile (\<lambda>u. u \<noteq> v) sample_table))] else None),
     cborDecode = (\<lambda>b. case b of [w] \<Rightarrow> if unat w < length sample_table then Some (sample_table ! unat w) else None | _ \<Rightarrow> None),
     jsonLen = (\<lambda>_. 0), sha256 = (\<lambda>_. replicate 32 0),
     decodeAcceptance = (\<lambda>_. Some sample_signed), publicKeyOf = (\<lambda>_. replicate 32 0), edSign = (\<lambda>_ _. replicate 64 0),
     edVerify = (\<lambda>_ _ _. True)\<rparr>"

lemma sample_jsons_ok: "j \<in> set sample_jsons \<Longrightarrow> \<exists>v. decodeJSONModel (tokens j) = Inr v"
proof -
  have pred1: "json_fits 0 (JArray [predicate_json [] (sample_predicate [])])" "json_count (JArray [predicate_json [] (sample_predicate [])]) \<le> 200"
    using predicate_fits(1) [of "Suc 0" "[]"] predicate_fits(3) [of "[]"] by (auto simp: MaxCollectionItems_def MaxNestedLevels_def)
  have "json_fits 1 (JArray [predicate_json (plain ''evidence_target_projection_digest'' (JString zero_digest)) (sample_predicate zero_digest)])"
    using predicate_fits(2) [of "Suc (Suc 0)" zero_digest] by (auto simp: MaxCollectionItems_def MaxNestedLevels_def)
  moreover have "json_count (JArray [predicate_json (plain ''evidence_target_projection_digest'' (JString zero_digest)) (sample_predicate zero_digest)]) \<le> 100"
    using predicate_fits(4) [of zero_digest] by simp
  moreover have "agreement_json (sample_body zero_digest) = body_json [(''authorization_predicates'',
      JArray [predicate_json (plain ''evidence_target_projection_digest'' (JString zero_digest)) (sample_predicate zero_digest)])] (sample_body zero_digest)"
    by (simp add: agreement_json_def sample_body_def sample_predicate_def plain_def)
  ultimately have agr: "json_fits 0 (agreement_json (sample_body zero_digest)) \<and> json_count (agreement_json (sample_body zero_digest)) \<le> 200"
    using body_fits by metis
  assume "j \<in> set sample_jsons"
  then have "json_fits 0 j \<and> json_count j \<le> MaxTotalItems"
    using sample_profile_fits body_fits [of "[]" "[]"] pred1 agr acceptance_fits(1) [of 0] acceptance_fits(2) signed_fits
    by (auto simp: sample_jsons_def MaxTotalItems_def MaxNestedLevels_def)
  then show ?thesis using fits_decodes is_ok_iff by blast
qed

lemma sample_table_ok: "v \<in> set sample_table \<Longrightarrow> wf_value v"
  using sample_jsons_ok decodeJSONModel_ok by (fastforce simp: sample_table_def)

lemma sample_lawful: "cbor_lawful (codec_of sample_agreement_lib)"
proof -
  have len: "length sample_table = 6" by (simp add: sample_table_def sample_jsons_def)
  have "unat (of_nat (length (takeWhile (\<lambda>u. u \<noteq> v) sample_table)) :: u8) < 6 \<and>
      sample_table ! unat (of_nat (length (takeWhile (\<lambda>u. u \<noteq> v) sample_table)) :: u8) = v" if "v \<in> set sample_table" for v
  proof -
    let ?n = "length (takeWhile (\<lambda>u. u \<noteq> v) sample_table)"
    have "?n \<noteq> length sample_table"
      using that takeWhile_eq_take [of "\<lambda>u. u \<noteq> v" sample_table] takeWhile_eq_all_conv [of "\<lambda>u. u \<noteq> v" sample_table] by auto
    then have n: "?n < length sample_table" using length_takeWhile_le [of "\<lambda>u. u \<noteq> v" sample_table] by simp
    then have "sample_table ! ?n = v" using nth_length_takeWhile [OF n] by simp
    moreover have "unat (of_nat ?n :: u8) = ?n" using n len by (simp add: unat_of_nat)
    ultimately show ?thesis using n len by simp
  qed
  then show ?thesis
    using sample_table_ok len
    by (auto simp: cbor_lawful_def sample_agreement_lib_def codec_lib.defs split: list.splits if_splits)
qed

lemma sample_marshal: "j \<in> set sample_jsons \<Longrightarrow> \<exists>b. Marshal (codec_of sample_agreement_lib) j = Inr b"
proof -
  assume j: "j \<in> set sample_jsons"
  then obtain v where v: "decodeJSONModel (tokens j) = Inr v" using sample_jsons_ok by blast
  then have "v \<in> set sample_table" using j by (force simp: sample_table_def)
  with v show ?thesis
    by (simp add: Marshal_def sample_agreement_lib_def codec_lib.defs MaxCanonicalBytes_def)
qed

lemma sample_hash: "sha256 sample_agreement_lib b = replicate 32 0" "sha256 (codec_of sample_agreement_lib) b = replicate 32 0"
  by (simp_all add: sample_agreement_lib_def codec_lib.defs)

lemma sample_profile_digest: "AgentSignatureProfileDigest sample_agreement_lib = Inr zero_digest"
proof -
  have b: "boundedIdentifier EvidenceProfileAgentSignature 256" "boundedIdentifier ''complete-subject-profile-group'' 256"
    "boundedIdentifier ''agreement-predicate-target-v1'' 256" "boundedIdentifier ''tos.verifier.agent-signature.v1'' 256"
    "boundedIdentifier ''expires-before-agreement'' 256" "boundedIdentifier ''agent'' 64" "boundedIdentifier AgreementAcceptanceContentType 128"
    by (intro bounded_graphic; simp add: graphic_def EvidenceProfileAgentSignature_def AgreementAcceptanceContentType_def)+
  obtain c where "Marshal (codec_of sample_agreement_lib) sample_profile = Inr c"
    using sample_marshal by (force simp: sample_jsons_def)
  then show ?thesis
    using b unfolding AgentSignatureProfileDigest_def ProfileDescriptorDigest_def or_panic_def sample_profile_def
    by (simp add: validateSortedStrings_def framedSHA256_def sample_hash zero_digest_def)
qed

lemma letter_bounded: "graphic c \<Longrightarrow> 1 \<le> m \<Longrightarrow> boundedIdentifier [c] m"
  by (intro bounded_graphic) simp_all

lemma sample_participants:
  "participants_loop [] [] (Participants (sample_body t)) =
   Inr [(''a'', \<lparr>ParticipantAgentID = ''a'', Roles = [''r'']\<rparr>), (''b'', \<lparr>ParticipantAgentID = ''b'', Roles = [''r'']\<rparr>)]"
  by (simp add: sample_body_def letter_bounded graphic_def validateSortedStrings_def less_eq_char_def less_char_def)

lemma sample_predicate_ok: "predicate_valid [] (sample_predicate t)" "builtin_profiles sample_agreement_lib (sample_predicate t) = Inr ()"
proof -
  have "boundedIdentifier EvidenceProfileAgentSignature 256"
    by (intro bounded_graphic; simp add: graphic_def EvidenceProfileAgentSignature_def)
  then show "predicate_valid [] (sample_predicate t)"
    by (simp add: predicate_valid_def sample_predicate_def letter_bounded graphic_def validAuthoritySubject_def sample_subject_def
        validateSortedStrings_def zero_digest_good MaxAgreementObligations_def MaxInt64_def)
  show "builtin_profiles sample_agreement_lib (sample_predicate t) = Inr ()"
    by (simp add: builtin_profiles_def builtin_profile_def sample_predicate_def sample_profile_digest sample_subject_def
        EvidenceProfileAgentSignature_def EvidenceProfileAuthoritySignature_def EvidenceProfilePaidDemandQuote_def)
qed

lemma sample_obligations:
  "obligations_loop [(''a'', \<lparr>ParticipantAgentID = ''a'', Roles = [''r'']\<rparr>), (''b'', \<lparr>ParticipantAgentID = ''b'', Roles = [''r'']\<rparr>)] []
     [sample_obligation] = Inr [(''o'', sample_obligation)]"
  by (simp add: obligation_valid_def obligation_times_def obligation_value_def sample_obligation_def letter_bounded graphic_def
      unknown_participant_def validateSortedStrings_def validateSortedDigests_def MaxAgreementTermsBytes_def MaxAgreementPredicates_def)

lemma sample_references: "references_loop [(''p'', sample_predicate t)] [(''o'', sample_obligation)] [sample_obligation] = Inr ()"
  by (simp add: sample_obligation_def sample_predicate_def containsSorted_def search_strings.simps obligor_predicate_def sample_subject_def)

lemma sample_no_cycle: "\<not> agreementHasCycle [''o''] [(''o'', sample_obligation)]"
  by (simp add: agreementHasCycle_def visit.simps visit_all.simps depends_on_def sample_obligation_def)

lemma sample_structure: "validate_structure sample_agreement_lib (sample_body []) False = Inr ()"
proof -
  have "predicates_loop sample_agreement_lib False [] [] [sample_predicate []] = Inr [(''p'', sample_predicate [])]"
    using sample_predicate_ok [of "[]"] by (simp add: target_valid_def sample_predicate_def)
  then show ?thesis
    using sample_participants [of "[]"] sample_obligations sample_references [of "[]"] sample_no_cycle
    by (simp add: validate_structure_def sample_body_def letter_bounded graphic_def MaxInt64_def MaxAgreementTermsBytes_def
        MaxAgreementParticipants_def validateSortedStrings_def validateSortedDigests_def MaxAgreementPredicates_def
        MaxAgreementObligations_def) (simp add: sample_predicate_def)
qed

lemma sample_prepared: "PrepareAgreementTargets sample_agreement_lib (sample_body []) = Inr (sample_body zero_digest)"
proof -
  obtain c p where "agreementCoreBytes sample_agreement_lib (sample_body []) = Inr c"
    "agreementPolicyBytes sample_agreement_lib (AuthorizationPredicates (sample_body [])) = Inr p"
    using sample_marshal [of "body_json [] (sample_body [])"] sample_marshal [of "JArray [predicate_json [] (sample_predicate [])]"]
    by (auto simp: sample_jsons_def agreementCoreBytes_def agreementPolicyBytes_def sample_body_def)
  then show ?thesis
    by (simp add: PrepareAgreementTargets_def sample_structure Let_def predicate_target_def sample_hash)
      (simp add: sample_body_def sample_predicate_def with_target_def zero_digest_def)
qed

lemma sample_agreement_valid: "ValidateAgreementBody sample_agreement_lib (sample_body zero_digest) = Inr ()"
  using prepared_body_is_valid [OF _ sample_prepared] sample_hash by simp

lemma sample_body_digest: "AgreementBodyDigest sample_agreement_lib (sample_body zero_digest) = Inr zero_digest"
proof -
  obtain c where "Marshal (codec_of sample_agreement_lib) (agreement_json (sample_body zero_digest)) = Inr c"
    using sample_marshal by (force simp: sample_jsons_def)
  moreover have "validateDomain ''tos.agent-agreement-body.v1''" by (simp add: validateDomain_def in_range_def)
  ultimately show ?thesis by (simp add: AgreementBodyDigest_def sample_agreement_valid Digest_def sample_hash) (simp add: zero_digest_def)
qed

lemma sample_signing: "SignAgreementAcceptance sample_agreement_lib sample_acceptance (replicate 64 0) = Inr sample_signed"
proof -
  obtain c where "Marshal (codec_of sample_agreement_lib) (acceptance_json sample_acceptance) = Inr c"
    using sample_marshal by (force simp: sample_jsons_def)
  moreover have "validAuthoritySubject sample_subject"
    by (simp add: validAuthoritySubject_def sample_subject_def letter_bounded graphic_def)
  ultimately show ?thesis
    by (simp add: SignAgreementAcceptance_def sample_signed_def)
      (simp add: sample_acceptance_def zero_digest_good validateSortedStrings_def letter_bounded graphic_def
        MaxAgreementPredicates_def sample_agreement_lib_def)
qed

lemma sample_signature_evidence:
  "\<exists>e. AgentSignatureEvidence sample_agreement_lib (sample_body zero_digest) sample_signed = Inr e"
proof -
  obtain c where "Marshal (codec_of sample_agreement_lib) (signed_acceptance_json sample_signed) = Inr c"
    using sample_marshal by (force simp: sample_jsons_def)
  then show ?thesis
    by (simp add: AgentSignatureEvidence_def sample_agreement_valid sample_body_digest Let_def)
      (simp add: sample_signed_def sample_acceptance_def sample_body_def sample_predicate_def)
qed

subsection \<open>Properties\<close>

text \<open>C12: The cycle check is exact. For every iteration order of the obligation map, the depth-first
  search returns, and reports a cycle exactly when the dependency relation has one.\<close>

theorem cycle_check_exact:
  assumes "set order = obligation_ids obs"
  shows "agreementHasCycle order obs \<longleftrightarrow> \<not> acyclic (dep_edges obs)"
  using assms by (rule has_cycle_iff)

theorem cycle_check_exact_witness:
  "agreementHasCycle [''o''] [(''o'', sample_obligation\<lparr>DependsOnObligationIDs := [''o'']\<rparr>)] \<and>
   \<not> acyclic (dep_edges [(''o'', sample_obligation\<lparr>DependsOnObligationIDs := [''o'']\<rparr>)])"
proof -
  let ?obs = "[(''o'', sample_obligation\<lparr>DependsOnObligationIDs := [''o'']\<rparr>)]"
  have "agreementHasCycle [''o''] ?obs"
    by (simp add: agreementHasCycle_def visit.simps visit_all.simps depends_on_def)
  then show ?thesis using cycle_check_exact [of "[''o'']" ?obs] by (simp add: obligation_ids_def)
qed

text \<open>C10: An accepted agreement can be discharged. The obligations of every body that validates can be
  put in an order in which each comes after all the obligations it depends on.\<close>

theorem accepted_agreement_can_be_discharged:
  assumes "ValidateAgreementBody L body = Inr ()"
  shows "\<exists>bs. mset bs = mset (Obligations body) \<and> dischargeable [] bs"
proof -
  have "validate_structure L body True = Inr ()"
    using assms by (auto simp: ValidateAgreementBody_def validateAgreementBody_def bind_simps)
  then show ?thesis by (rule structure_order)
qed

theorem accepted_agreement_can_be_discharged_witness:
  "ValidateAgreementBody sample_agreement_lib (sample_body zero_digest) = Inr () \<and>
   (\<exists>bs. mset bs = mset (Obligations (sample_body zero_digest)) \<and> dischargeable [] bs)"
  using accepted_agreement_can_be_discharged [OF sample_agreement_valid] sample_agreement_valid by blast

text \<open>C11: Preparing targets and validating a body are inverse. A prepared body validates and, with its
  targets cleared, is the body it was prepared from; and every body that validates is what preparation
  makes of it with its targets cleared.\<close>

theorem prepared_targets_round_trip:
  assumes "\<And>b. length (sha256 L b) = 32"
  shows "(PrepareAgreementTargets L body = Inr body' \<longrightarrow> ValidateAgreementBody L body' = Inr () \<and> clear_targets body' = body) \<and>
    (ValidateAgreementBody L body = Inr () \<longrightarrow> PrepareAgreementTargets L (clear_targets body) = Inr body)"
  using prepared_body_is_valid [of L body body'] valid_body_is_prepared [of L body] assms by blast

theorem prepared_targets_round_trip_witness:
  "ValidateAgreementBody sample_agreement_lib (sample_body zero_digest) = Inr () \<and> clear_targets (sample_body zero_digest) = sample_body []"
  using prepared_targets_round_trip [of sample_agreement_lib "sample_body []" "sample_body zero_digest"] sample_prepared sample_hash by simp

text \<open>C3: A complete authorization covers every predicate exactly once. When an agreement is accepted as
  authorized, each predicate of its body is covered by exactly one piece of evidence, for the same
  subject and profile and with its identifier and target at the same index; every piece of evidence
  names the digest of this body and was accepted by the verifier at this time.\<close>

theorem authorized_agreement_is_covered:
  assumes "ValidateAgreementAuthorization L ag (Some verify) now = Inr ()"
  shows "(\<forall>p\<in>set (AuthorizationPredicates (AgreementBody ag)).
            \<exists>!i. i < length (AuthorizationEvidence ag) \<and> covers (AuthorizationEvidence ag ! i) p) \<and>
         (\<forall>e\<in>set (AuthorizationEvidence ag). verify e now = Inr () \<and> AgreementBodyDigest L (AgreementBody ag) = Inr (EvidenceBodyDigest e))"
proof -
  note a = assms [unfolded ValidateAgreementAuthorization_def]
  obtain dg groups seen where "AgreementBodyDigest L (AgreementBody ag) = Inr dg"
    "evidence_loop L (AgreementBody ag) dg verify now groups [] (AuthorizationEvidence ag) = Inr seen"
    by (rule authorization_parts [OF a])
  then have "\<forall>e\<in>set (AuthorizationEvidence ag). verify e now = Inr () \<and> AgreementBodyDigest L (AgreementBody ag) = Inr (EvidenceBodyDigest e)"
    using evidence_loop_spec [of L "AgreementBody ag" dg verify now groups "[]"] by (auto simp: evidence_wellformed_def)
  with complete_evidence_covers [OF a] show ?thesis by blast
qed

definition sample_agreement :: AgentAgreement where
  "sample_agreement = \<lparr>AgreementBody = sample_body zero_digest, AuthorizationEvidence =
     [case AgentSignatureEvidence sample_agreement_lib (sample_body zero_digest) sample_signed of Inr e \<Rightarrow> e]\<rparr>"


lemma sample_laws: "ed25519_lawful sample_agreement_lib" "reads_back sample_agreement_lib sample_signed"
  by (simp_all add: ed25519_lawful_def reads_back_def sample_agreement_lib_def)

lemma sample_time: "time_unix 200 = 200 * 1000000000" "time_unix 100 = 100 * 1000000000"
  by (simp_all add: time_unix_def)


lemma sample_authorized:
  "ValidateAgreementAuthorization sample_agreement_lib sample_agreement (Some (\<lambda>_ _. Inr ())) (150 * 1000000000) = Inr ()"
proof -
  let ?L = sample_agreement_lib and ?body = "sample_body zero_digest"
  obtain c where c: "Marshal (codec_of ?L) (signed_acceptance_json sample_signed) = Inr c"
    using sample_marshal by (force simp: sample_jsons_def)
  have "c \<noteq> [] \<and> length c \<le> MaxCanonicalBytes \<and> DecodeSignedAgreementAcceptance ?L c = Inr sample_signed"
  proof -
    obtain v where v: "decodeJSONModel (tokens (signed_acceptance_json sample_signed)) = Inr v" "length c \<le> MaxCanonicalBytes"
      by (rule Marshal_ok [OF c])
    have "nesting v \<le> MaxNestedLevels"
      using order.trans [OF decoded_nesting [OF v(1)] signed_acceptance_nesting] by (simp add: MaxNestedLevels_def)
    with Marshal_decodes [OF sample_lawful c v(1)] written_acceptance_reads_back [OF sample_lawful sample_laws(2) c] v(2)
    show ?thesis by blast
  qed
  moreover have "AuthorizationEvidence sample_agreement =
      [\<lparr>EvidenceAgreementID = ''g'', EvidenceAgreementVersion = 1, EvidenceBodyDigest = zero_digest, EvidenceSubject = sample_subject,
        EvidencePredicateIDs = [''p''], EvidenceURI = EvidenceProfileAgentSignature, EvidenceVersion = 1, EvidenceDigest = zero_digest,
        EvidenceTargets = [zero_digest], EvidenceContentType = AgreementAcceptanceContentType, EvidenceBytes = c\<rparr>]"
    using c by (simp add: sample_agreement_def AgentSignatureEvidence_def sample_agreement_valid sample_body_digest Let_def)
      (simp add: sample_signed_def sample_acceptance_def sample_body_def sample_predicate_def)
  moreover have "boundedIdentifier EvidenceProfileAgentSignature 256" "boundedIdentifier AgreementAcceptanceContentType 128"
    by (intro bounded_graphic; simp add: graphic_def EvidenceProfileAgentSignature_def AgreementAcceptanceContentType_def)+
  moreover have "validAuthoritySubject sample_subject"
    by (simp add: validAuthoritySubject_def sample_subject_def letter_bounded graphic_def)
  moreover have "groups_loop (150 * 1000000000) [] (AuthorizationPredicates ?body) =
      Inr [(predicate_key (sample_predicate zero_digest), [sample_predicate zero_digest])]"
    by (simp add: sample_body_def sample_time group_of_def) (simp add: sample_predicate_def sample_time)
  moreover have "AgreementBody sample_agreement = ?body" by (simp add: sample_agreement_def)
  moreover have "ExpiresAtUnix ?body = 200" "ValidFromUnix ?body = 100" "AgreementID ?body = ''g''" "AgreementVersion ?body = 1"
    by (simp_all add: sample_body_def)
  ultimately show ?thesis
    by (simp add: ValidateAgreementAuthorization_def validateAgreementEvidenceSet_def sample_agreement_valid sample_body_digest Let_def
        sample_time zero_time_def evidence_wellformed_def letter_bounded graphic_def validateSortedStrings_def zero_digest_good
        MaxAgreementPredicates_def MaxAgreementEvidenceBytes_def MaxCanonicalBytes_def evidence_key_def predicate_key_def group_of_def
        acceptance_window_def)
      (simp add: sample_predicate_def sample_signed_def sample_acceptance_def)
qed

theorem authorized_agreement_is_covered_witness:
  "ValidateAgreementAuthorization sample_agreement_lib sample_agreement (Some (\<lambda>_ _. Inr ())) (150 * 1000000000) = Inr () \<and>
   (\<exists>!i. i < length (AuthorizationEvidence sample_agreement) \<and> covers (AuthorizationEvidence sample_agreement ! i) (sample_predicate zero_digest))"
proof -
  have "sample_predicate zero_digest \<in> set (AuthorizationPredicates (AgreementBody sample_agreement))"
    by (simp add: sample_agreement_def sample_body_def)
  with authorized_agreement_is_covered [OF sample_authorized] sample_authorized show ?thesis by blast
qed



end
