(* ===== verification/Semantic_Action.thy ===== *)
theory Semantic_Action
  imports Agreement
begin

text \<open>
  Semantic actions, \<^verbatim>\<open>pkg/agentcommerce/semantic_action.go\<close>: the registry of action kinds with their
  typed fields, the transport form of a field set and the stable action identifier, the digest of a
  length-prefixed preimage of the fields in registry order.
\<close>

subsection \<open>Fields, entries and values\<close>

definition SemanticActionRegistryVersion :: u16 where "SemanticActionRegistryVersion = 1"
definition SemanticActionEntryVersion :: u16 where "SemanticActionEntryVersion = 1"
definition MaxSemanticFieldBytes :: nat where "MaxSemanticFieldBytes = 1048576"
definition MaxActionRequestBytes :: nat where "MaxActionRequestBytes = 4194304"

definition SemanticID :: string where "SemanticID = ''id''"
definition SemanticDigest32 :: string where "SemanticDigest32 = ''digest32''"
definition SemanticU64 :: string where "SemanticU64 = ''u64''"
definition SemanticKind :: string where "SemanticKind = ''kind''"
definition SemanticState :: string where "SemanticState = ''state''"

lemmas semantic_types = SemanticID_def SemanticDigest32_def SemanticU64_def SemanticKind_def SemanticState_def

definition SuccessorNone :: string where "SuccessorNone = ''none''"
definition SuccessorTerminal :: string where "SuccessorTerminal = ''terminal_successor''"
definition SuccessorAuthorityInstance :: string where "SuccessorAuthorityInstance = ''authority_instance''"

record SemanticFieldDefinition =
  FieldName :: string
  FieldType :: string

record SemanticActionEntry =
  RegistryVersion :: u16
  EntryVersion :: u16
  ActionKind :: string
  DomainTag :: string
  Fields :: "SemanticFieldDefinition list"
  SuccessorPolicy :: string

record SemanticValue =
  typeOf :: string
  valueBytes :: bytes

record SemanticFieldValue =
  WireName :: string
  WireType :: string
  WireText :: string
  WireNumber :: "u64 option"

text \<open>A Go map of values: an association list without repeated names.\<close>

type_synonym semantic_values = "(string \<times> SemanticValue) list"

definition semanticText :: "string \<Rightarrow> string \<Rightarrow> SemanticValue" where
  "semanticText kind v = \<lparr>typeOf = kind, valueBytes = str_bytes v\<rparr>"

definition ID :: "string \<Rightarrow> SemanticValue" where "ID v = semanticText SemanticID v"
definition Kind :: "string \<Rightarrow> SemanticValue" where "Kind v = semanticText SemanticKind v"
definition State :: "string \<Rightarrow> SemanticValue" where "State v = semanticText SemanticState v"
definition Digest32 :: "string \<Rightarrow> SemanticValue" where "Digest32 v = semanticText SemanticDigest32 v"

definition PutUint64 :: "u64 \<Rightarrow> bytes" where
  "PutUint64 n = [ucast (drop_bit 56 n), ucast (drop_bit 48 n), ucast (drop_bit 40 n), ucast (drop_bit 32 n),
     ucast (drop_bit 24 n), ucast (drop_bit 16 n), ucast (drop_bit 8 n), ucast n]"

text \<open>\<^verbatim>\<open>binary.BigEndian.Uint64\<close>, called here on the eight bytes of a derived value only.\<close>

definition Uint64 :: "bytes \<Rightarrow> u64" where
  "Uint64 b = fold (\<lambda>w acc. or (push_bit 8 acc) (ucast w)) (take 8 b) 0"

definition U64 :: "u64 \<Rightarrow> SemanticValue" where
  "U64 v = \<lparr>typeOf = SemanticU64, valueBytes = PutUint64 v\<rparr>"

subsection \<open>The registry\<close>

definition fd :: "string \<Rightarrow> string \<Rightarrow> SemanticFieldDefinition" where
  "fd name kind = \<lparr>FieldName = name, FieldType = kind\<rparr>"

definition predictionFields :: "SemanticFieldDefinition list \<Rightarrow> SemanticFieldDefinition list" where
  "predictionFields specific = [fd ''owner_id'' SemanticID, fd ''agent_id'' SemanticID,
     fd ''network_domain_digest'' SemanticDigest32, fd ''market_id'' SemanticDigest32] @ specific"

definition action_entry :: "string \<Rightarrow> string \<Rightarrow> SemanticFieldDefinition list \<Rightarrow> SemanticActionEntry" where
  "action_entry kind successor fs = \<lparr>RegistryVersion = SemanticActionRegistryVersion,
     EntryVersion = SemanticActionEntryVersion, ActionKind = kind,
     DomainTag = ''tos.semantic-action.'' @ kind @ ''.v1'', Fields = fs, SuccessorPolicy = successor\<rparr>"

definition entries :: "SemanticActionEntry list" where
  "entries = [
     action_entry ''operation.journal.append'' SuccessorNone [fd ''owner_id'' SemanticID, fd ''agent_id''
       SemanticID, fd ''ordering_domain'' SemanticDigest32, fd ''epoch'' SemanticU64, fd ''sequence''
       SemanticU64, fd ''event_content_id'' SemanticDigest32],
     action_entry ''operation.publish'' SuccessorNone [fd ''owner_id'' SemanticID, fd ''agent_id'' SemanticID,
       fd ''carrier_id'' SemanticID, fd ''operation_id'' SemanticDigest32, fd ''operation_envelope_digest''
       SemanticDigest32, fd ''audience_policy_digest'' SemanticDigest32, fd ''carrier_profile_digest''
       SemanticDigest32],
     action_entry ''operation.private-send'' SuccessorNone [fd ''owner_id'' SemanticID, fd ''agent_id''
       SemanticID, fd ''recipient_set_digest'' SemanticDigest32, fd ''membership_epoch'' SemanticU64, fd
       ''audience_policy_digest'' SemanticDigest32, fd ''operation_id'' SemanticDigest32, fd
       ''operation_envelope_digest'' SemanticDigest32, fd ''conversation_scope_digest'' SemanticDigest32, fd
       ''transport_profile_digest'' SemanticDigest32],
     action_entry ''publication.publish'' SuccessorNone [fd ''owner_id'' SemanticID, fd ''agent_id'' SemanticID,
       fd ''carrier_id'' SemanticID, fd ''intent_object_id'' SemanticID, fd ''revision'' SemanticU64, fd
       ''operation_digest'' SemanticDigest32],
     action_entry ''authority.instance'' SuccessorNone [fd ''owner_id'' SemanticID, fd ''agent_id'' SemanticID,
       fd ''purpose_kind'' SemanticKind, fd ''mandate_digest'' SemanticDigest32, fd
       ''allocation_request_digest'' SemanticDigest32, fd ''authority_allocation_sequence'' SemanticU64],
     action_entry ''publication.reply'' SuccessorAuthorityInstance [fd ''owner_id'' SemanticID, fd ''agent_id''
       SemanticID, fd ''carrier_id'' SemanticID, fd ''parent_operation_digest'' SemanticDigest32, fd
       ''authority_instance_id'' SemanticDigest32],
     action_entry ''publication.withdraw'' SuccessorNone [fd ''owner_id'' SemanticID, fd ''agent_id''
       SemanticID, fd ''carrier_id'' SemanticID, fd ''intent_object_id'' SemanticID, fd ''withdrawn_revision''
       SemanticU64, fd ''withdrawal_operation_digest'' SemanticDigest32],
     action_entry ''messenger.contact'' SuccessorAuthorityInstance [fd ''owner_id'' SemanticID, fd ''agent_id''
       SemanticID, fd ''recipient_agent_id'' SemanticID, fd ''intent_reference_digest'' SemanticDigest32, fd
       ''authority_instance_id'' SemanticDigest32],
     action_entry ''messenger.send'' SuccessorAuthorityInstance [fd ''owner_id'' SemanticID, fd ''agent_id''
       SemanticID, fd ''recipient_set_digest'' SemanticDigest32, fd ''conversation_scope_digest''
       SemanticDigest32, fd ''authority_instance_id'' SemanticDigest32],
     action_entry ''agreement.propose'' SuccessorNone [fd ''owner_id'' SemanticID, fd ''agent_id'' SemanticID,
       fd ''agreement_body_digest'' SemanticDigest32, fd ''recipient_set_digest'' SemanticDigest32],
     action_entry ''agreement.authorize'' SuccessorNone [fd ''owner_id'' SemanticID, fd ''agent_id'' SemanticID,
       fd ''agreement_body_digest'' SemanticDigest32, fd ''authority_subject_digest'' SemanticDigest32, fd
       ''predicate_set_digest'' SemanticDigest32, fd ''evidence_profile_digest'' SemanticDigest32],
     action_entry ''agreement.withdraw'' SuccessorNone [fd ''owner_id'' SemanticID, fd ''agent_id'' SemanticID,
       fd ''agreement_body_digest'' SemanticDigest32, fd ''proposal_action_id'' SemanticDigest32],
     action_entry ''provider.offer'' SuccessorNone [fd ''owner_id'' SemanticID, fd ''agent_id'' SemanticID, fd
       ''agreement_body_digest'' SemanticDigest32, fd ''demand_mutation_digest'' SemanticDigest32, fd
       ''buyer_agent_id'' SemanticID, fd ''provider_offer_id'' SemanticID, fd ''binding_digest''
       SemanticDigest32],
     action_entry ''portfolio.reserve'' SuccessorTerminal [fd ''owner_id'' SemanticID, fd ''agent_id''
       SemanticID, fd ''agreement_body_digest'' SemanticDigest32, fd ''reservation_scope_digest''
       SemanticDigest32, fd ''target_revision'' SemanticU64],
     action_entry ''portfolio.release'' SuccessorTerminal [fd ''owner_id'' SemanticID, fd ''agent_id''
       SemanticID, fd ''reservation_id'' SemanticDigest32, fd ''target_revision'' SemanticU64, fd
       ''terminal_evidence_set_digest'' SemanticDigest32],
     action_entry ''schedule.entry.transition'' SuccessorTerminal [fd ''owner_id'' SemanticID, fd ''agent_id''
       SemanticID, fd ''schedule_entry_id'' SemanticID, fd ''agreement_body_digest'' SemanticDigest32, fd
       ''execution_id'' SemanticDigest32, fd ''expected_state_revision'' SemanticU64, fd ''target_state''
       SemanticState, fd ''target_dispatch_generation'' SemanticU64],
     action_entry ''schedule.dependency.transition'' SuccessorTerminal [fd ''owner_id'' SemanticID, fd
       ''agent_id'' SemanticID, fd ''upstream_agreement_digest'' SemanticDigest32, fd ''upstream_obligation_id''
       SemanticID, fd ''downstream_agreement_digest'' SemanticDigest32, fd ''downstream_obligation_id''
       SemanticID, fd ''dependency_type'' SemanticKind, fd ''dependency_class'' SemanticKind, fd
       ''transition_kind'' SemanticKind, fd ''graph_base_revision'' SemanticU64],
     action_entry ''execution.slot'' SuccessorTerminal [fd ''owner_id'' SemanticID, fd ''agent_id'' SemanticID,
       fd ''agreement_body_digest'' SemanticDigest32, fd ''execution_obligation_id'' SemanticID, fd
       ''canonical_plan_digest'' SemanticDigest32, fd ''accepted_input_manifest_digest'' SemanticDigest32, fd
       ''attempt_index'' SemanticU64, fd ''predecessor_terminal_resolution_digest'' SemanticDigest32],
     action_entry ''execution.prepare'' SuccessorNone [fd ''owner_id'' SemanticID, fd ''agent_id'' SemanticID,
       fd ''execution_id'' SemanticDigest32],
     action_entry ''execution.start'' SuccessorNone [fd ''owner_id'' SemanticID, fd ''agent_id'' SemanticID, fd
       ''execution_id'' SemanticDigest32],
     action_entry ''executor.effect'' SuccessorNone [fd ''owner_id'' SemanticID, fd ''agent_id'' SemanticID, fd
       ''agreement_body_digest'' SemanticDigest32, fd ''obligation_id'' SemanticID, fd ''execution_id''
       SemanticDigest32, fd ''plan_effect_id'' SemanticID, fd ''effect_profile_digest'' SemanticDigest32, fd
       ''target_digest'' SemanticDigest32, fd ''operation_kind'' SemanticKind, fd ''effect_semantic_key_digest''
       SemanticDigest32],
     action_entry ''credential.issue'' SuccessorNone [fd ''owner_id'' SemanticID, fd ''agent_id'' SemanticID, fd
       ''agreement_body_digest'' SemanticDigest32, fd ''obligation_id'' SemanticID, fd ''execution_id''
       SemanticDigest32, fd ''recipient_id'' SemanticID, fd ''capability_descriptor_digest'' SemanticDigest32],
     action_entry ''disclosure.release'' SuccessorNone [fd ''owner_id'' SemanticID, fd ''agent_id'' SemanticID,
       fd ''agreement_body_digest'' SemanticDigest32, fd ''obligation_id'' SemanticID, fd ''recipient_id''
       SemanticID, fd ''content_digest'' SemanticDigest32, fd ''purpose_digest'' SemanticDigest32],
     action_entry ''content.upload'' SuccessorNone [fd ''owner_id'' SemanticID, fd ''agent_id'' SemanticID, fd
       ''agreement_body_digest'' SemanticDigest32, fd ''obligation_id'' SemanticID, fd ''handoff_id''
       SemanticID, fd ''sender_id'' SemanticID, fd ''receiver_id'' SemanticID, fd ''content_manifest_digest''
       SemanticDigest32],
     action_entry ''content.delete'' SuccessorNone [fd ''owner_id'' SemanticID, fd ''agent_id'' SemanticID, fd
       ''agreement_body_digest'' SemanticDigest32, fd ''obligation_id'' SemanticID, fd ''handoff_id''
       SemanticID, fd ''content_manifest_digest'' SemanticDigest32, fd ''retention_policy_digest''
       SemanticDigest32],
     action_entry ''delivery.release'' SuccessorNone [fd ''owner_id'' SemanticID, fd ''agent_id'' SemanticID, fd
       ''agreement_body_digest'' SemanticDigest32, fd ''obligation_id'' SemanticID, fd ''recipient_id''
       SemanticID, fd ''deliverable_manifest_digest'' SemanticDigest32],
     action_entry ''gift.send'' SuccessorAuthorityInstance [fd ''owner_id'' SemanticID, fd ''agent_id''
       SemanticID, fd ''authority_instance_id'' SemanticDigest32, fd ''recipient_id'' SemanticID, fd
       ''network_id'' SemanticID, fd ''asset_digest'' SemanticDigest32, fd ''amount_atomic'' SemanticID, fd
       ''destination_digest'' SemanticDigest32],
     action_entry ''payment.direct'' SuccessorNone [fd ''owner_id'' SemanticID, fd ''agent_id'' SemanticID, fd
       ''agreement_body_digest'' SemanticDigest32, fd ''obligation_instance_id'' SemanticDigest32, fd
       ''payer_id'' SemanticID, fd ''payee_id'' SemanticID, fd ''network_id'' SemanticID, fd ''asset_digest''
       SemanticDigest32, fd ''amount_atomic'' SemanticID, fd ''destination_digest'' SemanticDigest32],
     action_entry ''payment.domain-bound'' SuccessorNone [fd ''owner_id'' SemanticID, fd ''agent_id''
       SemanticID, fd ''agreement_body_digest'' SemanticDigest32, fd ''obligation_instance_id''
       SemanticDigest32, fd ''payer_id'' SemanticID, fd ''payee_id'' SemanticID, fd ''network_domain_digest''
       SemanticDigest32, fd ''asset_digest'' SemanticDigest32, fd ''amount_atomic'' SemanticID, fd
       ''destination_digest'' SemanticDigest32],
     action_entry ''settlement.external'' SuccessorNone [fd ''owner_id'' SemanticID, fd ''agent_id'' SemanticID,
       fd ''agreement_body_digest'' SemanticDigest32, fd ''obligation_instance_id'' SemanticDigest32, fd
       ''adapter_profile_digest'' SemanticDigest32, fd ''payer_id'' SemanticID, fd ''payee_id'' SemanticID, fd
       ''system_id'' SemanticID, fd ''asset_digest'' SemanticDigest32, fd ''amount_digest'' SemanticDigest32, fd
       ''destination_digest'' SemanticDigest32],
     action_entry ''escrow.transition'' SuccessorTerminal [fd ''owner_id'' SemanticID, fd ''agent_id''
       SemanticID, fd ''quote_commitment'' SemanticDigest32, fd ''escrow_account_id'' SemanticID, fd
       ''transition_kind'' SemanticKind, fd ''expected_state_digest'' SemanticDigest32],
     action_entry ''billing.materialize'' SuccessorNone [fd ''owner_id'' SemanticID, fd ''agent_id'' SemanticID,
       fd ''agreement_body_digest'' SemanticDigest32, fd ''agreement_obligation_id'' SemanticID, fd ''sequence''
       SemanticU64],
     action_entry ''billing.resolve'' SuccessorTerminal [fd ''owner_id'' SemanticID, fd ''agent_id'' SemanticID,
       fd ''obligation_instance_id'' SemanticDigest32, fd ''target_state'' SemanticState, fd
       ''evidence_set_digest'' SemanticDigest32],
     action_entry ''accounting.record'' SuccessorNone [fd ''owner_id'' SemanticID, fd ''agent_id'' SemanticID,
       fd ''entry_id'' SemanticDigest32, fd ''classification'' SemanticKind, fd ''evidence_set_digest''
       SemanticDigest32],
     action_entry ''reconcile.apply'' SuccessorTerminal [fd ''owner_id'' SemanticID, fd ''agent_id'' SemanticID,
       fd ''scope_digest'' SemanticDigest32, fd ''base_revision'' SemanticU64, fd ''evidence_cut_digest''
       SemanticDigest32],
     action_entry ''commercial.quote.issue'' SuccessorNone [fd ''owner_id'' SemanticID, fd ''agent_id''
       SemanticID, fd ''agreement_body_digest'' SemanticDigest32, fd ''quote_request_digest'' SemanticDigest32,
       fd ''recipient_set_digest'' SemanticDigest32, fd ''authority_instance_id'' SemanticDigest32, fd
       ''offer_terms_digest'' SemanticDigest32],
     action_entry ''commercial.quote.close'' SuccessorNone [fd ''owner_id'' SemanticID, fd ''agent_id''
       SemanticID, fd ''agreement_body_digest'' SemanticDigest32, fd ''authority_instance_id'' SemanticDigest32,
       fd ''reservation_id'' SemanticDigest32, fd ''expected_offer_state_revision'' SemanticU64, fd
       ''target_state'' SemanticState],
     action_entry ''conditional.claim.ingress'' SuccessorNone [fd ''owner_id'' SemanticID, fd ''agent_id''
       SemanticID, fd ''agreement_body_digest'' SemanticDigest32, fd ''obligation_id'' SemanticID, fd
       ''claim_id'' SemanticID, fd ''claim_revision'' SemanticU64],
     action_entry ''conditional.claim.submit'' SuccessorAuthorityInstance [fd ''owner_id'' SemanticID, fd
       ''agent_id'' SemanticID, fd ''agreement_body_digest'' SemanticDigest32, fd ''obligation_id'' SemanticID,
       fd ''authority_instance_id'' SemanticDigest32, fd ''claim_body_digest'' SemanticDigest32],
     action_entry ''conditional.claim-filing.close'' SuccessorTerminal [fd ''owner_id'' SemanticID, fd
       ''agent_id'' SemanticID, fd ''agreement_body_digest'' SemanticDigest32, fd ''obligation_id'' SemanticID,
       fd ''claim_admission_log_id'' SemanticID, fd ''expected_coverage_revision'' SemanticU64, fd
       ''expected_claim_filing_state_revision'' SemanticU64, fd ''filing_cutoff_unix'' SemanticU64, fd
       ''target_state'' SemanticState],
     action_entry ''conditional.claim-decision.admit'' SuccessorNone [fd ''owner_id'' SemanticID, fd
       ''agent_id'' SemanticID, fd ''agreement_body_digest'' SemanticDigest32, fd ''obligation_id'' SemanticID,
       fd ''claim_id'' SemanticID, fd ''admission_mode'' SemanticKind, fd ''source_claim_revision'' SemanticU64,
       fd ''source_claim_state_revision'' SemanticU64, fd ''source_head_digest'' SemanticDigest32, fd
       ''decision_sequence'' SemanticU64, fd ''mode_specific_identity_digest'' SemanticDigest32],
     action_entry ''conditional.claim.decide'' SuccessorTerminal [fd ''owner_id'' SemanticID, fd ''agent_id''
       SemanticID, fd ''agreement_body_digest'' SemanticDigest32, fd ''obligation_id'' SemanticID, fd
       ''authorized_claim_envelope_digest'' SemanticDigest32, fd ''decision_application_token_id''
       SemanticDigest32, fd ''expected_coverage_revision'' SemanticU64, fd ''expected_claim_revision''
       SemanticU64, fd ''expected_claim_state_revision'' SemanticU64, fd ''decision_sequence'' SemanticU64, fd
       ''decision_revision'' SemanticU64, fd ''target_state'' SemanticState],
     action_entry ''conditional.claim.transition'' SuccessorTerminal [fd ''owner_id'' SemanticID, fd
       ''agent_id'' SemanticID, fd ''agreement_body_digest'' SemanticDigest32, fd ''obligation_id'' SemanticID,
       fd ''claim_id'' SemanticID, fd ''expected_claim_state_revision'' SemanticU64, fd ''transition_kind''
       SemanticKind, fd ''target_state'' SemanticState, fd ''evidence_set_digest'' SemanticDigest32],
     action_entry ''conditional.obligation.transition'' SuccessorTerminal [fd ''owner_id'' SemanticID, fd
       ''agent_id'' SemanticID, fd ''agreement_body_digest'' SemanticDigest32, fd ''obligation_id'' SemanticID,
       fd ''expected_state_revision'' SemanticU64, fd ''target_state'' SemanticState, fd ''evidence_set_digest''
       SemanticDigest32],
     action_entry ''collateral.transition'' SuccessorTerminal [fd ''owner_id'' SemanticID, fd ''agent_id''
       SemanticID, fd ''agreement_body_digest'' SemanticDigest32, fd ''obligation_id'' SemanticID, fd
       ''collateral_position_id'' SemanticID, fd ''transition_binding_digest'' SemanticDigest32, fd
       ''expected_state_revision'' SemanticU64, fd ''transition_kind'' SemanticKind],
     action_entry ''capability.install'' SuccessorNone [fd ''owner_id'' SemanticID, fd ''agent_id'' SemanticID,
       fd ''artifact_version_digest'' SemanticDigest32, fd ''installation_id'' SemanticID, fd
       ''target_store_digest'' SemanticDigest32, fd ''expected_inventory_revision'' SemanticU64],
     action_entry ''capability.update'' SuccessorNone [fd ''owner_id'' SemanticID, fd ''agent_id'' SemanticID,
       fd ''predecessor_artifact_digest'' SemanticDigest32, fd ''artifact_version_digest'' SemanticDigest32, fd
       ''installation_id'' SemanticID, fd ''expected_inventory_revision'' SemanticU64],
     action_entry ''capability.rollback'' SuccessorTerminal [fd ''owner_id'' SemanticID, fd ''agent_id''
       SemanticID, fd ''current_artifact_digest'' SemanticDigest32, fd ''rollback_artifact_digest''
       SemanticDigest32, fd ''installation_id'' SemanticID, fd ''expected_inventory_revision'' SemanticU64],
     action_entry ''capability.remove'' SuccessorTerminal [fd ''owner_id'' SemanticID, fd ''agent_id''
       SemanticID, fd ''artifact_version_digest'' SemanticDigest32, fd ''installation_id'' SemanticID, fd
       ''expected_inventory_revision'' SemanticU64, fd ''deletion_generation'' SemanticU64],
     action_entry ''capability.gc'' SuccessorTerminal [fd ''owner_id'' SemanticID, fd ''agent_id'' SemanticID,
       fd ''artifact_version_digest'' SemanticDigest32, fd ''tombstone_digest'' SemanticDigest32, fd
       ''reference_scan_root'' SemanticDigest32, fd ''deletion_generation'' SemanticU64],
     action_entry ''capability.admit'' SuccessorNone [fd ''owner_id'' SemanticID, fd ''agent_id'' SemanticID, fd
       ''admission_id'' SemanticID, fd ''artifact_version_digest'' SemanticDigest32, fd
       ''admission_body_digest'' SemanticDigest32],
     action_entry ''capability.suspend'' SuccessorTerminal [fd ''owner_id'' SemanticID, fd ''agent_id''
       SemanticID, fd ''admission_id'' SemanticID, fd ''expected_admission_revision'' SemanticU64, fd
       ''revocation_generation'' SemanticU64],
     action_entry ''capability.resume'' SuccessorTerminal [fd ''owner_id'' SemanticID, fd ''agent_id''
       SemanticID, fd ''admission_id'' SemanticID, fd ''expected_admission_revision'' SemanticU64, fd
       ''revocation_generation'' SemanticU64],
     action_entry ''capability.revoke'' SuccessorTerminal [fd ''owner_id'' SemanticID, fd ''agent_id''
       SemanticID, fd ''admission_id'' SemanticID, fd ''expected_admission_revision'' SemanticU64, fd
       ''revocation_generation'' SemanticU64],
     action_entry ''capability.promotion.activate'' SuccessorNone [fd ''owner_id'' SemanticID, fd ''agent_id''
       SemanticID, fd ''promotion_id'' SemanticID, fd ''artifact_version_digest'' SemanticDigest32, fd
       ''promotion_body_digest'' SemanticDigest32],
     action_entry ''capability.promotion.revoke'' SuccessorTerminal [fd ''owner_id'' SemanticID, fd ''agent_id''
       SemanticID, fd ''promotion_id'' SemanticID, fd ''expected_promotion_revision'' SemanticU64, fd
       ''revocation_generation'' SemanticU64],
     action_entry ''capability.source-search.record'' SuccessorNone [fd ''owner_id'' SemanticID, fd ''agent_id''
       SemanticID, fd ''requirement_digest'' SemanticDigest32, fd ''source_policy_digest'' SemanticDigest32, fd
       ''source_attempt_set_digest'' SemanticDigest32],
     action_entry ''capability.local-draft.create'' SuccessorNone [fd ''owner_id'' SemanticID, fd ''agent_id''
       SemanticID, fd ''requirement_digest'' SemanticDigest32, fd ''sourcing_decision_digest'' SemanticDigest32,
       fd ''draft_artifact_digest'' SemanticDigest32],
     action_entry ''owner.command.submit'' SuccessorNone [fd ''owner_id'' SemanticID, fd ''agent_id''
       SemanticID, fd ''resolution_namespace'' SemanticDigest32, fd ''command_kind'' SemanticKind, fd
       ''target_object_kind'' SemanticKind, fd ''target_object_id'' SemanticID, fd ''exact_parameter_digest''
       SemanticDigest32, fd ''governing_policy_digest'' SemanticDigest32, fd ''expected_target_revision''
       SemanticU64, fd ''command_instance_id'' SemanticID],
     action_entry ''owner.command.resolve'' SuccessorTerminal [fd ''owner_id'' SemanticID, fd ''agent_id''
       SemanticID, fd ''resolution_namespace'' SemanticDigest32, fd ''command_effect_digest'' SemanticDigest32,
       fd ''target_resolution_state'' SemanticState],
     action_entry ''report.generate'' SuccessorNone [fd ''owner_id'' SemanticID, fd ''agent_id'' SemanticID, fd
       ''report_series_id'' SemanticDigest32, fd ''source_snapshot_digest'' SemanticDigest32, fd
       ''correction_revision'' SemanticU64],
     action_entry ''report.correct'' SuccessorTerminal [fd ''owner_id'' SemanticID, fd ''agent_id'' SemanticID,
       fd ''report_series_id'' SemanticDigest32, fd ''prior_report_digest'' SemanticDigest32, fd
       ''correction_revision'' SemanticU64, fd ''correction_delta_digest'' SemanticDigest32],
     action_entry ''owner.projection.checkpoint'' SuccessorNone [fd ''owner_id'' SemanticID, fd ''agent_id''
       SemanticID, fd ''projection_source_set_digest'' SemanticDigest32, fd ''event_set_root'' SemanticDigest32,
       fd ''snapshot_revision'' SemanticU64],
     action_entry ''owner.device-session.revoke'' SuccessorTerminal [fd ''owner_id'' SemanticID, fd ''agent_id''
       SemanticID, fd ''session_id'' SemanticID, fd ''session_generation'' SemanticU64, fd
       ''session_revocation_generation'' SemanticU64],
     action_entry ''prediction.market.deploy'' SuccessorNone (predictionFields [fd ''market_config_hash''
       SemanticDigest32, fd ''deployment_salt'' SemanticDigest32, fd ''contract_code_hash'' SemanticDigest32]),
     action_entry ''prediction.collateral.deposit'' SuccessorAuthorityInstance (predictionFields [fd
       ''account_binding_digest'' SemanticDigest32, fd ''amount_atomic'' SemanticID, fd
       ''authority_instance_id'' SemanticDigest32]),
     action_entry ''prediction.reserve.top-up'' SuccessorAuthorityInstance (predictionFields [fd
       ''amount_atomic'' SemanticID, fd ''authority_instance_id'' SemanticDigest32]),
     action_entry ''prediction.trading-key.rotate'' SuccessorNone (predictionFields [fd
       ''account_binding_digest'' SemanticDigest32, fd ''expected_key_epoch'' SemanticU64, fd
       ''trading_public_key_digest'' SemanticDigest32]),
     action_entry ''prediction.order.authorize'' SuccessorNone (predictionFields [fd ''order_digest''
       SemanticDigest32, fd ''valid_until'' SemanticU64, fd ''worst_case_risk_digest'' SemanticDigest32]),
     action_entry ''prediction.order.publish'' SuccessorNone (predictionFields [fd ''order_digest''
       SemanticDigest32, fd ''signed_order_cell_hash'' SemanticDigest32, fd ''carrier_id'' SemanticID]),
     action_entry ''prediction.order.cancel-exact'' SuccessorNone (predictionFields [fd ''order_digest''
       SemanticDigest32, fd ''order_cell_hash'' SemanticDigest32]),
     action_entry ''prediction.order.nonce-floor.raise'' SuccessorNone (predictionFields [fd
       ''account_binding_digest'' SemanticDigest32, fd ''expected_key_epoch'' SemanticU64, fd
       ''new_nonce_floor'' SemanticU64]),
     action_entry ''prediction.match.submit'' SuccessorAuthorityInstance (predictionFields [fd
       ''maker_order_digest'' SemanticDigest32, fd ''taker_order_digest'' SemanticDigest32, fd ''quantity_lots''
       SemanticU64, fd ''authority_instance_id'' SemanticDigest32]),
     action_entry ''prediction.position.split'' SuccessorAuthorityInstance (predictionFields [fd
       ''account_binding_digest'' SemanticDigest32, fd ''quantity_lots'' SemanticU64, fd
       ''authority_instance_id'' SemanticDigest32]),
     action_entry ''prediction.position.merge'' SuccessorAuthorityInstance (predictionFields [fd
       ''account_binding_digest'' SemanticDigest32, fd ''quantity_lots'' SemanticU64, fd
       ''authority_instance_id'' SemanticDigest32]),
     action_entry ''prediction.position.claim'' SuccessorNone (predictionFields [fd
       ''beneficiary_account_digest'' SemanticDigest32, fd ''final_outcome'' SemanticKind]),
     action_entry ''prediction.collateral.withdraw'' SuccessorAuthorityInstance (predictionFields [fd
       ''account_binding_digest'' SemanticDigest32, fd ''amount_atomic'' SemanticID, fd
       ''authority_instance_id'' SemanticDigest32]),
     action_entry ''prediction.resolution.report'' SuccessorNone (predictionFields [fd
       ''reporter_account_digest'' SemanticDigest32, fd ''round'' SemanticKind, fd ''round_context_hash''
       SemanticDigest32, fd ''vote_statement_hash'' SemanticDigest32]),
     action_entry ''prediction.resolution.challenge'' SuccessorNone (predictionFields [fd
       ''challenger_account_digest'' SemanticDigest32, fd ''proposed_statement_hash'' SemanticDigest32, fd
       ''counter_outcome'' SemanticKind, fd ''counter_evidence_root'' SemanticDigest32]),
     action_entry ''prediction.resolution.finalize'' SuccessorNone (predictionFields [fd ''finalization_kind''
       SemanticKind, fd ''expected_context_hash'' SemanticDigest32, fd ''expected_statement_hash_or_zero''
       SemanticDigest32]),
     action_entry ''prediction.challenge-bond.withdraw'' SuccessorNone (predictionFields [fd
       ''challenger_account_digest'' SemanticDigest32, fd ''challenge_record_digest'' SemanticDigest32]),
     action_entry ''prediction.market.advance-phase'' SuccessorAuthorityInstance (predictionFields [fd
       ''expected_phase_state_digest'' SemanticDigest32, fd ''authority_instance_id'' SemanticDigest32]),
     action_entry ''prediction.market.compact'' SuccessorTerminal (predictionFields [fd
       ''expected_terminal_state_digest'' SemanticDigest32]),
     action_entry ''prediction.terminal-surplus.withdraw'' SuccessorAuthorityInstance (predictionFields [fd
       ''amount_atomic'' SemanticID, fd ''reserve_recipient_digest'' SemanticDigest32, fd
       ''authority_instance_id'' SemanticDigest32])]"

fun registry_loop ::
  "SemanticActionEntry list \<Rightarrow> (string \<times> SemanticActionEntry) list \<Rightarrow> agreement_error + (string \<times> SemanticActionEntry) list" where
  "registry_loop [] registry = Inr registry"
| "registry_loop (candidate # rest) registry =
     (if map_of registry (ActionKind candidate) \<noteq> None
      then Inl (Panicked (Err ''duplicate semantic action registry entry''))
      else registry_loop rest (AList.update (ActionKind candidate) candidate registry))"

definition buildSemanticActionRegistry :: "agreement_error + (string \<times> SemanticActionEntry) list" where
  "buildSemanticActionRegistry = registry_loop entries []"

text \<open>The package variable; \<open>registry_builds\<close> shows that its initialisation does not panic.\<close>

definition semanticActionRegistry :: "(string \<times> SemanticActionEntry) list" where
  "semanticActionRegistry = (case buildSemanticActionRegistry of Inr r \<Rightarrow> r | Inl _ \<Rightarrow> [])"

definition SemanticActionRegistry :: "(string \<times> SemanticActionEntry) list" where
  "SemanticActionRegistry = semanticActionRegistry"

subsection \<open>Canonical values and the stable action identifier\<close>

definition token_char :: "bool \<Rightarrow> char \<Rightarrow> bool" where
  "token_char first c = (in_range 97 122 c \<or> \<not> first \<and> in_range 48 57 c \<or> \<not> first \<and> c \<in> set ''._-'')"

definition canonicalLowerToken :: "string \<Rightarrow> bool" where
  "canonicalLowerToken v =
     (if length v = 0 \<or> length v > 128 then False
      else token_char True (hd v) \<and> list_all (token_char False) (tl v))"

definition canonicalSemanticValue :: "SemanticFieldDefinition \<Rightarrow> SemanticValue \<Rightarrow> agreement_error + bytes" where
  "canonicalSemanticValue d v =
     (let raw = valueBytes v; text = bytes_str raw in
      if length raw = 0 \<or> length raw > MaxSemanticFieldBytes then Inl (Err ''value length is invalid'')
      else if FieldType d = SemanticID then
        (if length raw > 4096 \<or> \<not> ValidString text \<or> 0 \<in> set raw then Inl (Err ''identifier is not canonical UTF-8'')
         else if FieldName d = ''amount_atomic'' \<and> \<not> canonicalUnsignedDecimal text
         then Inl (Err ''atomic amount is not a canonical unsigned integer'')
         else Inr raw)
      else if FieldType d = SemanticDigest32 then
        (if \<not> canonicalDigestPattern text then Inl (Err ''digest is not canonical sha256 text'')
         else case hex_decode (trim_prefix text ''sha256:'') of
           None \<Rightarrow> Inl (Err ''digest is invalid'')
         | Some decoded \<Rightarrow> if length decoded \<noteq> 32 then Inl (Err ''digest is invalid'') else Inr decoded)
      else if FieldType d = SemanticU64 then
        (if length raw \<noteq> 8 then Inl (Err ''u64 is not eight bytes'') else Inr raw)
      else if FieldType d = SemanticKind \<or> FieldType d = SemanticState then
        (if \<not> canonicalLowerToken text then Inl (Err ''token is not canonical lower-case ASCII'') else Inr raw)
      else Inl (Err ''unknown semantic field type''))"

definition writeU16 :: "bytes \<Rightarrow> u16 \<Rightarrow> bytes" where
  "writeU16 output v = output @ PutUint16 v"

definition writeLP16 :: "bytes \<Rightarrow> bytes \<Rightarrow> agreement_error + bytes" where
  "writeLP16 output v =
     (if length v > 65535 then Inl (Err ''lp16 value is too large'')
      else Inr (writeU16 output (of_nat (length v)) @ v))"

definition writeLP32 :: "bytes \<Rightarrow> bytes \<Rightarrow> agreement_error + bytes" where
  "writeLP32 output v =
     (if length v > 4294967295 then Inl (Err ''lp32 value is too large'')
      else Inr (output @ PutUint32 (of_nat (length v)) @ v))"

fun fields_loop :: "SemanticFieldDefinition list \<Rightarrow> semantic_values \<Rightarrow> bytes \<Rightarrow> agreement_error + bytes" where
  "fields_loop [] vs preimage = Inr preimage"
| "fields_loop (d # ds) vs preimage =
     (case map_of vs (FieldName d) of
        None \<Rightarrow> Inl (Err ''semantic action field is missing or has the wrong type'')
      | Some v \<Rightarrow>
          if typeOf v \<noteq> FieldType d then Inl (Err ''semantic action field is missing or has the wrong type'')
          else ebind (canonicalSemanticValue d v) (\<lambda>canonical.
            ebind (writeLP16 preimage (str_bytes (FieldName d))) (\<lambda>p1.
            ebind (writeLP32 p1 canonical) (\<lambda>p2. fields_loop ds vs p2))))"

definition DeriveStableActionID :: "agreement_lib \<Rightarrow> string \<Rightarrow> semantic_values \<Rightarrow> agreement_error + string \<times> bytes" where
  "DeriveStableActionID L actionKind vs =
     (case map_of semanticActionRegistry actionKind of
        None \<Rightarrow> Inl (Err ''unknown semantic action kind'')
      | Some candidate \<Rightarrow>
          if length vs \<noteq> length (Fields candidate)
          then Inl (Err ''semantic action field set is incomplete or contains extras'')
          else ebind (writeLP16 (writeU16 (writeU16 (str_bytes ''TOS-SAI'' @ [0]) (RegistryVersion candidate))
                  (EntryVersion candidate)) (str_bytes (DomainTag candidate))) (\<lambda>p1.
            ebind (writeLP16 p1 (str_bytes (ActionKind candidate))) (\<lambda>p2.
            ebind (fields_loop (Fields candidate) vs (writeU16 p2 (of_nat (length (Fields candidate))))) (\<lambda>encoded.
              Inr (''sha256:'' @ hex_encode (sha256 L encoded), encoded)))))"

subsection \<open>The transport form\<close>

definition export_field :: "semantic_values \<Rightarrow> SemanticFieldDefinition \<Rightarrow> SemanticFieldValue" where
  "export_field vs d =
     (let b = (case map_of vs (FieldName d) of Some v \<Rightarrow> valueBytes v | None \<Rightarrow> []) in
      \<lparr>WireName = FieldName d, WireType = FieldType d,
       WireText = (if FieldType d = SemanticU64 then [] else bytes_str b),
       WireNumber = (if FieldType d = SemanticU64 then Some (Uint64 b) else None)\<rparr>)"

definition ExportSemanticFields :: "agreement_lib \<Rightarrow> string \<Rightarrow> semantic_values \<Rightarrow> agreement_error + SemanticFieldValue list" where
  "ExportSemanticFields L actionKind vs =
     (case map_of semanticActionRegistry actionKind of
        None \<Rightarrow> Inl (Err ''semantic action field set is invalid'')
      | Some e \<Rightarrow>
          if length vs \<noteq> length (Fields e) then Inl (Err ''semantic action field set is invalid'')
          else ebind (DeriveStableActionID L actionKind vs) (\<lambda>_. Inr (map (export_field vs) (Fields e))))"

fun import_loop :: "SemanticFieldDefinition list \<Rightarrow> SemanticFieldValue list \<Rightarrow> semantic_values \<Rightarrow> agreement_error + semantic_values" where
  "import_loop (d # ds) (w # ws) vs =
     (if WireName w \<noteq> FieldName d \<or> WireType w \<noteq> FieldType d
      then Inl (Err ''semantic action fields are not in canonical registry order'')
      else if FieldType d = SemanticU64 then
        (case WireNumber w of
           None \<Rightarrow> Inl (Err ''u64 semantic field has an ambiguous encoding'')
         | Some n \<Rightarrow>
             if WireText w \<noteq> [] then Inl (Err ''u64 semantic field has an ambiguous encoding'')
             else import_loop ds ws (AList.update (WireName w) (U64 n) vs))
      else if WireNumber w \<noteq> None \<or> WireText w = []
      then Inl (Err ''text semantic field has an ambiguous encoding'')
      else import_loop ds ws (AList.update (WireName w) (semanticText (WireType w) (WireText w)) vs))"
| "import_loop ds ws vs = Inr vs"

definition ImportSemanticFields :: "agreement_lib \<Rightarrow> string \<Rightarrow> SemanticFieldValue list \<Rightarrow> agreement_error + semantic_values" where
  "ImportSemanticFields L actionKind ws =
     (case map_of semanticActionRegistry actionKind of
        None \<Rightarrow> Inl (Err ''semantic action field set is invalid'')
      | Some e \<Rightarrow>
          if length ws \<noteq> length (Fields e) then Inl (Err ''semantic action field set is invalid'')
          else ebind (import_loop (Fields e) ws []) (\<lambda>vs.
            ebind (DeriveStableActionID L actionKind vs) (\<lambda>_. Inr vs)))"

text \<open>The exact request: a digest of the length-framed request body.\<close>

definition ExactRequestDigest :: "agreement_lib \<Rightarrow> bytes \<Rightarrow> agreement_error + string" where
  "ExactRequestDigest L body =
     (if length body = 0 \<or> length body > MaxActionRequestBytes
      then Inl (Err ''canonical action request body has invalid size'')
      else Inr (''sha256:'' @ hex_encode (framedSHA256 L ''tos.action-request.v1'' body)))"


subsection \<open>Big-endian integers\<close>

lemma upto_8: "n < 8 \<Longrightarrow> n \<in> {0, 1, 2, 3, 4, 5, 6, 7 :: nat}"
  by (simp; presburger)
lemma bit_PutUint64: "q < 8 \<Longrightarrow> r < 8 \<Longrightarrow> bit (PutUint64 m ! (7 - q)) r = bit m (8 * q + r)"
  by (drule upto_8 [of q]) (auto simp: PutUint64_def bit_simps)
lemma bit_PutUint32: "q < 4 \<Longrightarrow> r < 8 \<Longrightarrow> bit (PutUint32 m ! (3 - q)) r = bit m (8 * q + r)"
  using upto_8 [of q] by (auto simp: PutUint32_def bit_simps)

lemma bytes_bits:
  assumes "\<And>q r. q < k \<Longrightarrow> r < 8 \<Longrightarrow> bit m (8 * q + r) = bit n (8 * q + r)" "LENGTH('a) = 8 * k"
  shows "m = (n :: 'a::len word)"
proof (rule bit_word_eqI)
  fix i assume "i < LENGTH('a)"
  then have "i div 8 < k" "i mod 8 < 8" using assms(2) by (simp_all add: less_mult_imp_div_less mult.commute)
  from assms(1) [OF this] show "bit m i = bit n i" by simp
qed

lemma PutUint64_inj: "PutUint64 m = PutUint64 n \<Longrightarrow> m = n"
  by (rule bytes_bits [of 8]) (simp_all flip: bit_PutUint64)
lemma PutUint32_inj: "PutUint32 m = PutUint32 n \<Longrightarrow> m = n"
  by (rule bytes_bits [of 4]) (simp_all flip: bit_PutUint32)
lemma len8: "length b = 8 \<Longrightarrow> \<exists>b0 b1 b2 b3 b4 b5 b6 b7. b = [b0,b1,b2,b3,b4,b5,b6,b7]"
  by (auto simp: length_Suc_conv numeral_eq_Suc)
lemma PutUint64_Uint64: "length b = 8 \<Longrightarrow> PutUint64 (Uint64 b) = b"
  by (auto simp: Uint64_def PutUint64_def dest!: len8 intro!: bit_word_eqI) (auto simp:bit_simps dest: bit_imp_le_length)
lemma Uint64_PutUint64: "Uint64 (PutUint64 n) = n"
  by (rule PutUint64_inj, rule PutUint64_Uint64) (simp add: PutUint64_def)

subsection \<open>Length-prefixed frames\<close>

text \<open>A frame that a reader can split from what follows it; lists of such frames split in turn.\<close>

locale prefix_code =
  fixes frame :: "'a \<Rightarrow> bytes" and fits :: "'a \<Rightarrow> bool"
  assumes split: "fits a \<Longrightarrow> fits b \<Longrightarrow> frame a @ r = frame b @ s \<Longrightarrow> a = b \<and> r = s"
begin

lemma frame_inj: "fits a \<Longrightarrow> fits b \<Longrightarrow> frame a = frame b \<Longrightarrow> a = b"
  using split [of a b "[]" "[]"] by simp

lemma frames_split:
  "list_all fits as \<Longrightarrow> list_all fits bs \<Longrightarrow> length as = length bs \<Longrightarrow>
   concat (map frame as) @ r = concat (map frame bs) @ s \<Longrightarrow> as = bs \<and> r = s"
proof (induction as arbitrary: bs)
  case (Cons a as)
  then obtain b cs where bs: "bs = b # cs" by (cases bs) auto
  with Cons.prems have "a = b \<and> concat (map frame as) @ r = concat (map frame cs) @ s"
    using split [of a b "concat (map frame as) @ r" "concat (map frame cs) @ s"] by simp
  with Cons bs show ?case by simp
qed simp

end

definition frame16 :: "bytes \<Rightarrow> bytes" where
  "frame16 v = PutUint16 (of_nat (length v)) @ v"
definition frame32 :: "bytes \<Rightarrow> bytes" where
  "frame32 v = PutUint32 (of_nat (length v)) @ v"

lemma PutUint_lengths [simp]: "length (PutUint16 n) = 2" "length (PutUint32 m) = 4" "length (PutUint64 k) = 8"
  by (simp_all add: PutUint16_def PutUint32_def PutUint64_def)

interpretation lp16: prefix_code frame16 "\<lambda>v. length v \<le> 65535"
proof
  fix a b r s :: bytes
  assume fit: "length a \<le> 65535" "length b \<le> 65535" and eq: "frame16 a @ r = frame16 b @ s"
  then have "PutUint16 (of_nat (length a)) = PutUint16 (of_nat (length b))" and rest: "a @ r = b @ s"
    by (simp_all add: frame16_def)
  then have "(of_nat (length a) :: u16) = of_nat (length b)" by (blast dest: PutUint16_inj)
  then have "unat (of_nat (length a) :: u16) = unat (of_nat (length b) :: u16)" by simp
  then have "length a = length b" using fit by (simp add: unat_of_nat)
  with rest show "a = b \<and> r = s" by simp
qed

interpretation lp32: prefix_code frame32 "\<lambda>v. length v \<le> 4294967295"
proof
  fix a b r s :: bytes
  assume fit: "length a \<le> 4294967295" "length b \<le> 4294967295" and eq: "frame32 a @ r = frame32 b @ s"
  then have "PutUint32 (of_nat (length a)) = PutUint32 (of_nat (length b))" and rest: "a @ r = b @ s"
    by (simp_all add: frame32_def)
  then have "(of_nat (length a) :: u32) = of_nat (length b)" by (blast dest: PutUint32_inj)
  then have "unat (of_nat (length a) :: u32) = unat (of_nat (length b) :: u32)" by simp
  then have "length a = length b" using fit by (simp add: unat_of_nat)
  with rest show "a = b \<and> r = s" by simp
qed

subsection \<open>The registry is well formed\<close>


definition well_formed_entry :: "SemanticActionEntry \<Rightarrow> bool" where
  "well_formed_entry e \<longleftrightarrow>
     length (DomainTag e) \<le> 65535 \<and> length (ActionKind e) \<le> 65535 \<and>
     distinct (map FieldName (Fields e)) \<and> length (Fields e) \<le> 65535 \<and>
     list_all (\<lambda>d. length (FieldName d) \<le> 65535 \<and>
       FieldType d \<in> {SemanticID, SemanticDigest32, SemanticU64, SemanticKind, SemanticState}) (Fields e)"

lemma entries_distinct: "distinct (map ActionKind entries)"
  by code_simp

lemma entries_well_formed: "list_all well_formed_entry entries"
  by (simp add: entries_def well_formed_entry_def action_entry_def fd_def predictionFields_def semantic_types)

lemma update_fresh: "k \<notin> fst ` set al \<Longrightarrow> AList.update k v al = al @ [(k, v)]"
  by (induction al) auto

lemma registry_loop_appends:
  "distinct (map ActionKind cs) \<Longrightarrow> fst ` set r \<inter> ActionKind ` set cs = {} \<Longrightarrow>
   registry_loop cs r = Inr (r @ map (\<lambda>c. (ActionKind c, c)) cs)"
proof (induction cs arbitrary: r)
  case (Cons c cs)
  then have "ActionKind c \<notin> fst ` set r" by auto
  then have "map_of r (ActionKind c) = None" by (simp add: map_of_eq_None_iff)
  with Cons update_fresh [OF \<open>ActionKind c \<notin> fst ` set r\<close>] show ?case by auto
qed simp

lemma registry_builds: "buildSemanticActionRegistry = Inr (map (\<lambda>c. (ActionKind c, c)) entries)"
  using registry_loop_appends [OF entries_distinct, of "[]"] by (simp add: buildSemanticActionRegistry_def)

lemma registry_entry:
  assumes "map_of semanticActionRegistry k = Some e"
  shows "e \<in> set entries" "ActionKind e = k" "well_formed_entry e"
proof -
  have "(k, e) \<in> set (map (\<lambda>c. (ActionKind c, c)) entries)"
    using map_of_SomeD [OF assms] by (simp add: semanticActionRegistry_def registry_builds)
  then show "e \<in> set entries" "ActionKind e = k" by auto
  then show "well_formed_entry e" using entries_well_formed by (simp add: list_all_iff)
qed

lemma registered:
  assumes "e \<in> set entries" "ActionKind e = k"
  shows "map_of semanticActionRegistry k = Some e"
proof -
  have "(k, e) \<in> set (map (\<lambda>c. (ActionKind c, c)) entries)" using assms by force
  moreover have "distinct (map fst (map (\<lambda>c. (ActionKind c, c)) entries))" using entries_distinct by (simp add: comp_def)
  ultimately show ?thesis unfolding semanticActionRegistry_def registry_builds sum.case by (rule map_of_is_SomeI [rotated])
qed

lemma writeLP16_Inr: "writeLP16 p v = Inr q \<longleftrightarrow> length v \<le> 65535 \<and> q = p @ frame16 v"
  by (auto simp: writeLP16_def writeU16_def frame16_def)

lemma writeLP32_Inr: "writeLP32 p v = Inr q \<longleftrightarrow> length v \<le> 4294967295 \<and> q = p @ frame32 v"
  by (auto simp: writeLP32_def frame32_def)

text \<open>The bytes of one field, and what a successful loop over the fields has read and written.\<close>

lemma fields_loop_Cons:
  "fields_loop (d # ds) vs p = Inr q \<longleftrightarrow>
   (\<exists>v c. map_of vs (FieldName d) = Some v \<and> typeOf v = FieldType d \<and> canonicalSemanticValue d v = Inr c \<and>
      length (FieldName d) \<le> 65535 \<and> length c \<le> 4294967295 \<and>
      fields_loop ds vs (p @ frame16 (str_bytes (FieldName d)) @ frame32 c) = Inr q)"
  by (auto simp: ebind_eq_Inr writeLP16_Inr writeLP32_Inr split: option.splits if_splits)

declare fields_loop.simps(2) [simp del]

lemma fields_loop_shift: "fields_loop ds vs (p @ x) = ebind (fields_loop ds vs x) (\<lambda>r. Inr (p @ r))"
proof (induction ds arbitrary: x)
  case (Cons d ds)
  show ?case
    by (auto simp: fields_loop.simps writeLP16_def writeLP32_def writeU16_def Cons.IH ebind_def split: option.split sum.split)
qed simp

lemma fields_loop_frames:
  "fields_loop ds vs (frame16 a @ frame32 b) = ebind (fields_loop ds vs []) (\<lambda>r. Inr (frame16 a @ frame32 b @ r))"
  using fields_loop_shift [of ds vs "frame16 a @ frame32 b" "[]"] by simp

lemma fields_loop_step:
  "fields_loop (d # ds) vs [] = Inr q \<longleftrightarrow>
   (\<exists>v c r. map_of vs (FieldName d) = Some v \<and> typeOf v = FieldType d \<and> canonicalSemanticValue d v = Inr c \<and>
      length (FieldName d) \<le> 65535 \<and> length c \<le> 4294967295 \<and> fields_loop ds vs [] = Inr r \<and>
      q = frame16 (str_bytes (FieldName d)) @ frame32 c @ r)"
  by (auto simp: fields_loop_Cons ebind_eq_Inr fields_loop_frames)

lemma fields_loop_present:
  "fields_loop ds vs p = Inr q \<Longrightarrow> d \<in> set ds \<Longrightarrow>
   \<exists>v c. map_of vs (FieldName d) = Some v \<and> typeOf v = FieldType d \<and> canonicalSemanticValue d v = Inr c"
  by (induction ds arbitrary: p) (auto simp: fields_loop_Cons)

lemma fields_loop_cong:
  "(\<And>d. d \<in> set ds \<Longrightarrow> map_of vs (FieldName d) = map_of vs' (FieldName d)) \<Longrightarrow> fields_loop ds vs p = fields_loop ds vs' p"
  by (induction ds arbitrary: p) (auto simp: fields_loop.simps split: option.splits intro!: arg_cong2 [where f = ebind])

subsection \<open>Canonical values determine the value\<close>

lemma unhex_lower: "is_lower_hex c \<Longrightarrow> \<exists>n < 16. unhex c = Some n \<and> hex_digit n = c"
proof -
  assume c: "is_lower_hex c"
  define n where "n = (if (of_char c :: nat) \<le> 57 then of_char c - 48 else of_char c - 87 :: nat)"
  have n: "n < 16" "unhex c = Some n" "(of_char c :: nat) = (if n < 10 then n + 48 else n + 87)"
    using c by (auto simp: n_def is_lower_hex_def unhex_def Let_def)
  then have "(of_char (hex_digit n) :: nat) = of_char c" by (simp add: of_char_hex_digit)
  then have "hex_digit n = c" by (metis char_of_char)
  with n show ?thesis by blast
qed

lemma lower_hex_decodes: "list_all is_lower_hex s \<Longrightarrow> hex_decode s = Some b \<Longrightarrow> hex_encode b = s"
proof (induction s arbitrary: b rule: hex_decode.induct)
  case (3 c d s)
  from 3 obtain m n where mn: "m < 16" "unhex c = Some m" "hex_digit m = c" "n < 16" "unhex d = Some n" "hex_digit n = d"
    using unhex_lower [of c] unhex_lower [of d] by auto
  with 3 obtain r where "hex_decode s = Some r" "b = of_nat (16 * m + n) # r" by (auto simp: bind_simps)
  moreover have "unat (of_nat (16 * m + n) :: u8) = 16 * m + n" using mn by (simp only: unat_of_nat) simp
  ultimately show ?case using 3 mn by simp
qed auto

lemma canonical_value_inj:
  assumes "canonicalSemanticValue d v = Inr c" "canonicalSemanticValue d v' = Inr c"
    and "typeOf v = FieldType d" "typeOf v' = FieldType d"
  shows "v = v'"
proof -
  have "valueBytes v = valueBytes v'"
  proof (cases "FieldType d = SemanticDigest32")
    case True
    have dig: "bytes_str (valueBytes w) = ''sha256:'' @ hex_encode c" if "canonicalSemanticValue d w = Inr c" for w
    proof -
      have "canonicalDigestPattern (bytes_str (valueBytes w))"
          "hex_decode (trim_prefix (bytes_str (valueBytes w)) ''sha256:'') = Some c"
        using that True by (auto simp: canonicalSemanticValue_def semantic_types Let_def split: if_splits option.splits)
      moreover from this(1) obtain t where "bytes_str (valueBytes w) = ''sha256:'' @ t" "list_all is_lower_hex t"
        by (auto simp: canonicalDigestPattern_def prefixed_hex64_def lower_hex_def has_prefix_iff)
      ultimately have "bytes_str (valueBytes w) = ''sha256:'' @ t" "list_all is_lower_hex t" "hex_decode t = Some c"
        by (simp_all add: trim_prefix_def)
      with lower_hex_decodes show ?thesis by metis
    qed
    from dig [OF assms(1)] dig [OF assms(2)] show ?thesis by (metis str_bytes_bytes_str)
  next
    case False
    then show ?thesis using assms(1,2) by (auto simp: canonicalSemanticValue_def Let_def split: if_splits)
  qed
  then show ?thesis using assms(3,4) by simp
qed

lemma fields_loop_inj:
  assumes "fields_loop ds vs [] = Inr q" "fields_loop ds vs' [] = Inr q" "d \<in> set ds"
  shows "map_of vs (FieldName d) = map_of vs' (FieldName d)"
  using assms
proof (induction ds arbitrary: q)
  case (Cons e ds)
  from Cons.prems(1) obtain v c r where v: "map_of vs (FieldName e) = Some v" "typeOf v = FieldType e"
      "canonicalSemanticValue e v = Inr c" "length c \<le> 4294967295" "fields_loop ds vs [] = Inr r"
      "q = frame16 (str_bytes (FieldName e)) @ frame32 c @ r"
    unfolding fields_loop_step by blast
  from Cons.prems(2) obtain v' c' r' where v': "map_of vs' (FieldName e) = Some v'" "typeOf v' = FieldType e"
      "canonicalSemanticValue e v' = Inr c'" "length c' \<le> 4294967295" "fields_loop ds vs' [] = Inr r'"
      "q = frame16 (str_bytes (FieldName e)) @ frame32 c' @ r'"
    unfolding fields_loop_step by blast
  have "frame32 c @ r = frame32 c' @ r'" using v(6) v'(6) by simp
  then have "c = c'" "r = r'" using v(4) v'(4) lp32.split by blast+
  with v v' canonical_value_inj Cons show ?case by (metis set_ConsD)
qed simp

lemma derive_parts:
  "DeriveStableActionID L k vs = Inr (i, p) \<longleftrightarrow>
   (\<exists>e r. map_of semanticActionRegistry k = Some e \<and> length vs = length (Fields e) \<and>
      length (DomainTag e) \<le> 65535 \<and> length (ActionKind e) \<le> 65535 \<and> fields_loop (Fields e) vs [] = Inr r \<and>
      p = str_bytes ''TOS-SAI'' @ [0] @ PutUint16 (RegistryVersion e) @ PutUint16 (EntryVersion e) @
        frame16 (str_bytes (DomainTag e)) @ frame16 (str_bytes (ActionKind e)) @ PutUint16 (of_nat (length (Fields e))) @ r \<and>
      i = ''sha256:'' @ hex_encode (sha256 L p))"
proof -
  have shift: "fields_loop ds vs (q @ x) = Inr y \<longleftrightarrow> (\<exists>r. fields_loop ds vs x = Inr r \<and> y = q @ r)" for ds q x y
    by (auto simp: fields_loop_shift ebind_eq_Inr)
  have tail: "fields_loop ds vs (writeU16 q n) = Inr y \<longleftrightarrow> (\<exists>r. fields_loop ds vs [] = Inr r \<and> y = q @ PutUint16 n @ r)" for ds q n y
    using shift [of ds "q @ PutUint16 n" "[]" y] by (simp add: writeU16_def)
  show ?thesis
  proof (cases "map_of semanticActionRegistry k")
    case (Some e)
    then show ?thesis
      by (simp add: DeriveStableActionID_def ebind_eq_Inr writeLP16_Inr tail) (auto simp: writeU16_def)
  qed (simp add: DeriveStableActionID_def)
qed

lemma derive_id: "DeriveStableActionID L k vs = Inr (i, p) \<Longrightarrow> i = ''sha256:'' @ hex_encode (sha256 L p)"
  unfolding derive_parts by blast

text \<open>The identifier of one action depends on the values only through the lookup of the fields.\<close>

lemma derive_cong:
  assumes "map_of vs = map_of vs'" "length vs = length vs'"
  shows "DeriveStableActionID L k vs = DeriveStableActionID L k vs'"
proof -
  have eq: "fields_loop ds vs = fields_loop ds vs'" for ds using assms(1) by (intro ext fields_loop_cong) simp
  show ?thesis unfolding DeriveStableActionID_def assms(2) eq ..
qed

lemma complete_values:
  assumes "distinct (map fst vs)" "distinct (map FieldName ds)" "length vs = length ds"
    and "\<And>d. d \<in> set ds \<Longrightarrow> map_of vs (FieldName d) \<noteq> None"
  shows "fst ` set vs = FieldName ` set ds"
proof -
  have "FieldName ` set ds \<subseteq> fst ` set vs" using assms(4) by (auto simp: map_of_eq_None_iff)
  moreover have "card (fst ` set vs) = card (FieldName ` set ds)"
    using assms(1-3) by (metis distinct_card length_map list.set_map)
  ultimately show ?thesis by (metis card_subset_eq finite_imageI finite_set)
qed

lemma derived_domain:
  assumes "DeriveStableActionID L k vs = Inr (i, p)" "map_of semanticActionRegistry k = Some e" "distinct (map fst vs)"
  shows "fst ` set vs = FieldName ` set (Fields e)"
proof (rule complete_values [OF assms(3)])
  show "distinct (map FieldName (Fields e))" using registry_entry(3) [OF assms(2)] by (simp add: well_formed_entry_def)
  show "length vs = length (Fields e)" using assms(1,2) by (simp add: derive_parts)
  show "map_of vs (FieldName d) \<noteq> None" if "d \<in> set (Fields e)" for d
  proof -
    obtain r where "fields_loop (Fields e) vs [] = Inr r" using assms(1,2) by (auto simp: derive_parts)
    from fields_loop_present [OF this that] show ?thesis by auto
  qed
qed

lemma bound_values:
  assumes "DeriveStableActionID L k vs = Inr (i, p)" "DeriveStableActionID L k' vs' = Inr (i, p')"
    and "distinct (map fst vs)" "distinct (map fst vs')"
    and "sha256 L p = sha256 L p' \<longrightarrow> p = p'"
  shows "k = k' \<and> map_of vs = map_of vs'"
proof -
  obtain e r where e: "map_of semanticActionRegistry k = Some e" "length (DomainTag e) \<le> 65535" "length (ActionKind e) \<le> 65535"
      "fields_loop (Fields e) vs [] = Inr r"
      "p = str_bytes ''TOS-SAI'' @ [0] @ PutUint16 (RegistryVersion e) @ PutUint16 (EntryVersion e) @
        frame16 (str_bytes (DomainTag e)) @ frame16 (str_bytes (ActionKind e)) @ PutUint16 (of_nat (length (Fields e))) @ r"
    using assms(1) unfolding derive_parts by blast
  obtain e' r' where e': "map_of semanticActionRegistry k' = Some e'" "length (DomainTag e') \<le> 65535" "length (ActionKind e') \<le> 65535"
      "fields_loop (Fields e') vs' [] = Inr r'"
      "p' = str_bytes ''TOS-SAI'' @ [0] @ PutUint16 (RegistryVersion e') @ PutUint16 (EntryVersion e') @
        frame16 (str_bytes (DomainTag e')) @ frame16 (str_bytes (ActionKind e')) @ PutUint16 (of_nat (length (Fields e'))) @ r'"
    using assms(2) unfolding derive_parts by blast
  have "p = p'" using derive_id [OF assms(1)] derive_id [OF assms(2)] assms(5) by (simp add: hex_encode_inj)
  then have tag: "frame16 (str_bytes (DomainTag e)) @ frame16 (str_bytes (ActionKind e)) @ PutUint16 (of_nat (length (Fields e))) @ r =
      frame16 (str_bytes (DomainTag e')) @ frame16 (str_bytes (ActionKind e')) @ PutUint16 (of_nat (length (Fields e'))) @ r'"
    using e(5) e'(5) by simp
  have kind: "frame16 (str_bytes (ActionKind e)) @ PutUint16 (of_nat (length (Fields e))) @ r =
      frame16 (str_bytes (ActionKind e')) @ PutUint16 (of_nat (length (Fields e'))) @ r'"
    by (rule conjunct2 [OF lp16.split [OF _ _ tag]]) (use e(2) e'(2) in simp_all)
  have "str_bytes (ActionKind e) = str_bytes (ActionKind e') \<and>
      PutUint16 (of_nat (length (Fields e))) @ r = PutUint16 (of_nat (length (Fields e'))) @ r'"
    by (rule lp16.split [OF _ _ kind]) (use e(3) e'(3) in simp_all)
  then have k: "k = k'" and r: "r = r'"
    using registry_entry(2) [OF e(1)] registry_entry(2) [OF e'(1)] by (auto simp: str_bytes_inj)
  then have ee: "e = e'" using e(1) e'(1) by simp
  have "map_of vs n = map_of vs' n" for n
  proof (cases "n \<in> FieldName ` set (Fields e)")
    case True
    then obtain d where "d \<in> set (Fields e)" "n = FieldName d" by blast
    moreover have "fields_loop (Fields e) vs' [] = Inr r" using e'(4) r ee by simp
    ultimately show ?thesis using fields_loop_inj [OF e(4)] by blast
  next
    case False
    then show ?thesis using derived_domain [OF assms(1) e(1) assms(3)] derived_domain [OF assms(2) e'(1) assms(4)] ee
      by (metis map_of_eq_None_iff)
  qed
  with k show ?thesis by blast
qed

text \<open>C6: A stable action identifier names one action: two field sets with the same identifier have the same
  kind and the same typed value of every field, as long as SHA-256 does not collide on their preimages.\<close>

theorem stable_action_id_binds:
  assumes "DeriveStableActionID L k vs = Inr (i, p)" "DeriveStableActionID L k' vs' = Inr (i, p')"
    and "distinct (map fst vs)" "distinct (map fst vs')"
    and "sha256 L p = sha256 L p' \<longrightarrow> p = p'"
  shows "k = k' \<and> map_of vs = map_of vs'"
  using assms by (rule bound_values)

definition plain_hash_lib :: agreement_lib where
  "plain_hash_lib = \<lparr>cborEncode = (\<lambda>_. None), cborDecode = (\<lambda>_. None), jsonLen = (\<lambda>_. 0), sha256 = (\<lambda>b. b),
     decodeAcceptance = (\<lambda>_. None), publicKeyOf = (\<lambda>_. []), edSign = (\<lambda>_ _. []), edVerify = (\<lambda>_ _ _. False)\<rparr>"

definition digest_of :: "char \<Rightarrow> string" where
  "digest_of c = ''sha256:'' @ replicate 64 c"

definition sample_action :: semantic_values where
  "sample_action = [(''owner_id'', ID ''o''), (''agent_id'', ID ''a''), (''network_domain_digest'', Digest32 (digest_of CHR ''0'')),
     (''market_id'', Digest32 (digest_of CHR ''1'')), (''account_binding_digest'', Digest32 (digest_of CHR ''2'')),
     (''expected_key_epoch'', U64 7), (''new_nonce_floor'', U64 258)]"

abbreviation raise_floor :: string where "raise_floor \<equiv> ''prediction.order.nonce-floor.raise''"

subsection \<open>Values that are accepted\<close>

lemma str_bytes_Nil_iff [simp]: "str_bytes v = [] \<longleftrightarrow> v = []"
  by (simp add: str_bytes_def)

lemma PutUint64_nonempty [simp]: "PutUint64 w \<noteq> []"
  by (simp add: PutUint64_def)

lemma canonical_ID:
  "length v \<le> 4096 \<Longrightarrow> v \<noteq> [] \<Longrightarrow> ValidString v \<Longrightarrow> 0 \<notin> set (str_bytes v) \<Longrightarrow>
   n \<noteq> ''amount_atomic'' \<or> canonicalUnsignedDecimal v \<Longrightarrow>
   canonicalSemanticValue (fd n SemanticID) (ID v) = Inr (str_bytes v)"
  by (auto simp: canonicalSemanticValue_def Let_def ID_def semanticText_def fd_def MaxSemanticFieldBytes_def)

lemma lower_hex_is_decoded: "list_all is_lower_hex s \<Longrightarrow> even (length s) \<Longrightarrow> \<exists>b. hex_decode s = Some b \<and> 2 * length b = length s"
proof (induction s rule: hex_decode.induct)
  case (3 c d s)
  then obtain m n where mn: "unhex c = Some m" "unhex d = Some n" using unhex_lower [of c] unhex_lower [of d] by auto
  moreover obtain b where "hex_decode s = Some b" "2 * length b = length s" using 3 mn by auto
  ultimately show ?case by simp
qed auto

lemma canonical_Digest32:
  assumes "canonicalDigestPattern v"
  shows "\<exists>b. length b = 32 \<and> canonicalSemanticValue (fd n SemanticDigest32) (Digest32 v) = Inr b"
proof -
  from assms obtain t where t: "v = ''sha256:'' @ t" "list_all is_lower_hex t" "length t = 64"
    by (auto simp: canonicalDigestPattern_def prefixed_hex64_def lower_hex_def has_prefix_iff)
  then obtain b where "hex_decode t = Some b" "length b = 32" using lower_hex_is_decoded [of t] by auto
  with assms t show ?thesis
    by (auto simp: canonicalSemanticValue_def Let_def Digest32_def semanticText_def fd_def MaxSemanticFieldBytes_def
      semantic_types trim_prefix_def)
qed

lemma canonical_U64: "canonicalSemanticValue (fd n SemanticU64) (U64 w) = Inr (PutUint64 w)"
  by (auto simp: canonicalSemanticValue_def Let_def U64_def fd_def MaxSemanticFieldBytes_def semantic_types)

lemma canonical_Kind:
  "canonicalLowerToken v \<Longrightarrow> canonicalSemanticValue (fd n SemanticKind) (Kind v) = Inr (str_bytes v)"
  by (auto simp: canonicalSemanticValue_def Let_def Kind_def semanticText_def fd_def MaxSemanticFieldBytes_def
    semantic_types canonicalLowerToken_def split: if_splits)

lemma canonical_State:
  "canonicalLowerToken v \<Longrightarrow> canonicalSemanticValue (fd n SemanticState) (State v) = Inr (str_bytes v)"
  by (auto simp: canonicalSemanticValue_def Let_def State_def semanticText_def fd_def MaxSemanticFieldBytes_def
    semantic_types canonicalLowerToken_def split: if_splits)

text \<open>A field set is derived when every field has a value of its type with a canonical form.\<close>

definition field_ok :: "semantic_values \<Rightarrow> SemanticFieldDefinition \<Rightarrow> bool" where
  "field_ok vs d = (case map_of vs (FieldName d) of
     None \<Rightarrow> False | Some v \<Rightarrow> typeOf v = FieldType d \<and> is_ok (canonicalSemanticValue d v))"

lemma canonical_value_length:
  "canonicalSemanticValue d v = Inr c \<Longrightarrow> length c \<le> 4294967295"
  by (auto simp: canonicalSemanticValue_def Let_def MaxSemanticFieldBytes_def split: if_splits option.splits)

lemma fields_loop_ok:
  "list_all (field_ok vs) ds \<Longrightarrow> list_all (\<lambda>d. length (FieldName d) \<le> 65535) ds \<Longrightarrow> \<exists>r. fields_loop ds vs [] = Inr r"
proof (induction ds)
  case (Cons d ds)
  then obtain r where "fields_loop ds vs [] = Inr r" by auto
  moreover from Cons.prems obtain v c where "map_of vs (FieldName d) = Some v" "typeOf v = FieldType d" "canonicalSemanticValue d v = Inr c"
    by (auto simp: field_ok_def is_ok_iff split: option.splits)
  ultimately show ?case using Cons.prems(2) canonical_value_length by (auto simp: fields_loop_step)
qed simp

lemma derive_ok:
  assumes "map_of semanticActionRegistry k = Some e" "length vs = length (Fields e)" "list_all (field_ok vs) (Fields e)"
  shows "\<exists>i p. DeriveStableActionID L k vs = Inr (i, p)"
proof -
  have "well_formed_entry e" using registry_entry(3) [OF assms(1)] .
  then obtain r where "fields_loop (Fields e) vs [] = Inr r" "length (DomainTag e) \<le> 65535" "length (ActionKind e) \<le> 65535"
    using fields_loop_ok [OF assms(3)] by (auto simp: well_formed_entry_def list_all_iff)
  with assms(1,2) show ?thesis unfolding derive_parts by blast
qed

lemma derived_iff_typed:
  "is_ok (DeriveStableActionID L k vs) \<longleftrightarrow>
   (case map_of semanticActionRegistry k of
      None \<Rightarrow> False | Some e \<Rightarrow> length vs = length (Fields e) \<and> list_all (field_ok vs) (Fields e))"
    (is "?l \<longleftrightarrow> ?r")
proof
  assume ?l
  then obtain i p where "DeriveStableActionID L k vs = Inr (i, p)" by (auto simp: is_ok_iff)
  then obtain e r where e: "map_of semanticActionRegistry k = Some e" "length vs = length (Fields e)"
      "fields_loop (Fields e) vs [] = Inr r" unfolding derive_parts by blast
  then have "field_ok vs d" if "d \<in> set (Fields e)" for d
    using fields_loop_present [OF e(3) that] by (auto simp: field_ok_def)
  with e show ?r by (simp add: list_all_iff)
next
  assume ?r
  then obtain e where e: "map_of semanticActionRegistry k = Some e" "length vs = length (Fields e)" "list_all (field_ok vs) (Fields e)"
    by (auto split: option.splits)
  show ?l using derive_ok [OF e] by (auto simp: is_ok_iff)
qed


subsection \<open>The transport round trip\<close>

definition wire_value :: "SemanticFieldValue \<Rightarrow> SemanticValue" where
  "wire_value w = (case WireNumber w of Some n \<Rightarrow> U64 n | None \<Rightarrow> semanticText (WireType w) (WireText w))"

definition wire_ok :: "SemanticFieldDefinition \<Rightarrow> SemanticFieldValue \<Rightarrow> bool" where
  "wire_ok d w \<longleftrightarrow> WireName w = FieldName d \<and> WireType w = FieldType d \<and>
     (if FieldType d = SemanticU64 then WireNumber w \<noteq> None \<and> WireText w = [] else WireNumber w = None \<and> WireText w \<noteq> [])"

lemma import_loop_Cons:
  "import_loop (d # ds) (w # ws) vs = Inr r \<longleftrightarrow>
   wire_ok d w \<and> import_loop ds ws (AList.update (FieldName d) (wire_value w) vs) = Inr r"
  by (auto simp: wire_ok_def wire_value_def split: option.splits)

declare import_loop.simps(1) [simp del]

lemma import_loop_iff:
  "length ws = length ds \<Longrightarrow> distinct (map FieldName ds) \<Longrightarrow> fst ` set acc \<inter> FieldName ` set ds = {} \<Longrightarrow>
   import_loop ds ws acc = Inr r \<longleftrightarrow>
     list_all2 wire_ok ds ws \<and> r = acc @ map2 (\<lambda>d w. (FieldName d, wire_value w)) ds ws"
proof (induction ds arbitrary: ws acc)
  case (Cons d ds)
  then obtain w us where ws: "ws = w # us" by (cases ws) auto
  have "AList.update (FieldName d) (wire_value w) acc = acc @ [(FieldName d, wire_value w)]"
    using Cons.prems(3) by (intro update_fresh) auto
  moreover have "fst ` set (acc @ [(FieldName d, wire_value w)]) \<inter> FieldName ` set ds = {}" using Cons.prems by auto
  ultimately show ?case using Cons.prems ws Cons.IH [of us "acc @ [(FieldName d, wire_value w)]"]
    by (auto simp: import_loop_Cons)
qed auto

lemma imported_values:
  assumes "length ws = length ds" "distinct (map FieldName ds)"
  defines "vs \<equiv> map2 (\<lambda>d w. (FieldName d, wire_value w)) ds ws"
  shows "map fst vs = map FieldName ds" "length vs = length ds" "j < length ds \<Longrightarrow> map_of vs (FieldName (ds ! j)) = Some (wire_value (ws ! j))"
proof -
  show fst: "map fst vs = map FieldName ds" using assms(1) unfolding vs_def by (induction ds ws rule: list_induct2') simp_all
  then have d: "distinct (map fst vs)" using assms(2) by simp
  show "length vs = length ds" using assms(1) by (simp add: vs_def)
  show "map_of vs (FieldName (ds ! j)) = Some (wire_value (ws ! j))" if "j < length ds"
    using d that assms(1) by (intro map_of_is_SomeI) (auto simp: vs_def set_zip intro!: image_eqI [of _ _ "(ds ! j, ws ! j)"])
qed

lemma export_wire:
  assumes "field_ok vs d" "map_of vs (FieldName d) = Some v"
  shows "wire_ok d (export_field vs d)" "wire_value (export_field vs d) = v"
proof -
  obtain c where c: "typeOf v = FieldType d" "canonicalSemanticValue d v = Inr c"
    using assms by (auto simp: field_ok_def is_ok_iff)
  then have ne: "valueBytes v \<noteq> []" by (auto simp: canonicalSemanticValue_def)
  have u: "length (valueBytes v) = 8" if "FieldType d = SemanticU64"
    using c that by (auto simp: canonicalSemanticValue_def semantic_types Let_def split: if_splits)
  show "wire_ok d (export_field vs d)" using assms(2) ne by (auto simp: wire_ok_def export_field_def Let_def bytes_str_def)
  show "wire_value (export_field vs d) = v" using assms(2) c(1) u
    by (auto simp: wire_value_def export_field_def Let_def U64_def semanticText_def PutUint64_Uint64)
qed

lemma wire_export:
  assumes "wire_ok d w" "map_of vs (FieldName d) = Some (wire_value w)"
  shows "export_field vs d = w"
  using assms by (cases w) (auto simp: wire_ok_def export_field_def wire_value_def U64_def semanticText_def Uint64_PutUint64 split: if_splits)

lemma export_parts:
  "ExportSemanticFields L k vs = Inr ws \<longleftrightarrow>
   (\<exists>e. map_of semanticActionRegistry k = Some e \<and> is_ok (DeriveStableActionID L k vs) \<and> ws = map (export_field vs) (Fields e))"
  by (auto simp: ExportSemanticFields_def ebind_eq_Inr is_ok_iff derive_parts split: option.splits if_splits)

lemma exported_fields_import:
  assumes vs: "distinct (map fst vs)" "ExportSemanticFields L k vs = Inr ws"
  shows "\<exists>vs'. ImportSemanticFields L k ws = Inr vs' \<and> map_of vs' = map_of vs"
proof -
  from vs(2) obtain e where e: "map_of semanticActionRegistry k = Some e" "is_ok (DeriveStableActionID L k vs)"
    "ws = map (export_field vs) (Fields e)" by (auto simp: export_parts)
  then obtain i p where ip: "DeriveStableActionID L k vs = Inr (i, p)" by (auto simp: is_ok_iff)
  have wf: "distinct (map FieldName (Fields e))" using registry_entry(3) [OF e(1)] by (simp add: well_formed_entry_def)
  have len: "length vs = length (Fields e)" "length ws = length (Fields e)" and ok: "list_all (field_ok vs) (Fields e)"
    using e by (auto simp: derived_iff_typed)
  define vs' where "vs' = map2 (\<lambda>d w. (FieldName d, wire_value w)) (Fields e) ws"
  note vals = imported_values [OF len(2) wf, folded vs'_def]
  have all: "wire_ok d (export_field vs d)" "map_of vs (FieldName d) = Some (wire_value (export_field vs d))"
    if "d \<in> set (Fields e)" for d
  proof -
    from ok that have "field_ok vs d" by (simp add: list_all_iff)
    moreover then obtain v where "map_of vs (FieldName d) = Some v" by (auto simp: field_ok_def split: option.splits)
    ultimately show "wire_ok d (export_field vs d)" "map_of vs (FieldName d) = Some (wire_value (export_field vs d))"
      using export_wire by auto
  qed
  have eq: "map_of vs' n = map_of vs n" for n
  proof (cases "n \<in> FieldName ` set (Fields e)")
    case True
    then obtain j where j: "j < length (Fields e)" "n = FieldName (Fields e ! j)" by (auto simp: in_set_conv_nth)
    then show ?thesis using vals(3) [OF j(1)] all(2) [of "Fields e ! j"] by (simp add: e(3))
  next
    case False
    then show ?thesis using derived_domain [OF ip e(1) vs(1)] arg_cong [OF vals(1), of set]
      by (metis image_set map_of_eq_None_iff)
  qed
  have "list_all2 wire_ok (Fields e) ws" using all(1) by (simp add: e(3) list_all2_conv_all_nth)
  then have "import_loop (Fields e) ws [] = Inr vs'" using import_loop_iff [OF len(2) wf, of "[]"] by (simp add: vs'_def)
  moreover have "DeriveStableActionID L k vs' = Inr (i, p)"
    using derive_cong [of vs' vs] eq len(1) vals(2) ip by (metis ext)
  ultimately have "ImportSemanticFields L k ws = Inr vs'" using e(1) len(2) by (simp add: ImportSemanticFields_def)
  with eq show ?thesis by blast
qed

text \<open>C8: The transport form loses nothing and has one spelling: what was exported is imported as the same
  values, and what is imported is exported as exactly the fields that came in.\<close>

theorem semantic_fields_round_trip:
  "(distinct (map fst vs) \<and> ExportSemanticFields L k vs = Inr ws \<longrightarrow>
      (\<exists>vs'. ImportSemanticFields L k ws = Inr vs' \<and> map_of vs' = map_of vs)) \<and>
   (ImportSemanticFields L k ws = Inr vs \<longrightarrow> ExportSemanticFields L k vs = Inr ws)"
proof (intro conjI impI)
  assume "distinct (map fst vs) \<and> ExportSemanticFields L k vs = Inr ws"
  then show "\<exists>vs'. ImportSemanticFields L k ws = Inr vs' \<and> map_of vs' = map_of vs"
    using exported_fields_import by blast
next
  assume "ImportSemanticFields L k ws = Inr vs"
  then obtain e where e: "map_of semanticActionRegistry k = Some e" "length ws = length (Fields e)"
      "import_loop (Fields e) ws [] = Inr vs" "is_ok (DeriveStableActionID L k vs)"
    by (auto simp: ImportSemanticFields_def ebind_eq_Inr is_ok_iff split: option.splits if_splits)
  have wf: "distinct (map FieldName (Fields e))" using registry_entry(3) [OF e(1)] by (simp add: well_formed_entry_def)
  have vs: "list_all2 wire_ok (Fields e) ws" "vs = map2 (\<lambda>d w. (FieldName d, wire_value w)) (Fields e) ws"
    using e(3) import_loop_iff [OF e(2) wf, of "[]"] by auto
  have "map (export_field vs) (Fields e) = ws"
  proof (rule nth_equalityI)
    show "map (export_field vs) (Fields e) ! j = ws ! j" if "j < length (map (export_field vs) (Fields e))" for j
      using that vs imported_values(3) [OF e(2) wf, of j] wire_export [of "Fields e ! j" "ws ! j" vs]
      by (simp add: list_all2_conv_all_nth)
  qed (use e(2) in simp)
  with e(1,4) show "ExportSemanticFields L k vs = Inr ws" by (simp add: export_parts)
qed

subsection \<open>A concrete action\<close>

lemma raise_floor_entry:
  "map_of semanticActionRegistry raise_floor = Some (action_entry raise_floor SuccessorNone
     (predictionFields [fd ''account_binding_digest'' SemanticDigest32, fd ''expected_key_epoch'' SemanticU64,
       fd ''new_nonce_floor'' SemanticU64]))"
  by (rule registered) (simp_all only: entries_def list.set insert_iff simp_thms action_entry_def SemanticActionEntry.simps)

lemma digest_of_canonical: "is_lower_hex c \<Longrightarrow> canonicalDigestPattern (digest_of c)"
  by (simp add: digest_of_def canonicalDigestPattern_def prefixed_hex64_def)

lemma field_ok_Digest32:
  "map_of vs n = Some (Digest32 v) \<Longrightarrow> canonicalDigestPattern v \<Longrightarrow> field_ok vs (fd n SemanticDigest32)"
  using canonical_Digest32 [of v n] by (auto simp: field_ok_def fd_def Digest32_def semanticText_def)

lemma field_ok_U64: "map_of vs n = Some (U64 w) \<Longrightarrow> field_ok vs (fd n SemanticU64)"
  using canonical_U64 [of n w] by (simp add: field_ok_def) (simp add: fd_def U64_def)

lemma field_ok_ID:
  "map_of vs n = Some (ID v) \<Longrightarrow> length v \<le> 4096 \<Longrightarrow> v \<noteq> [] \<Longrightarrow> ValidString v \<Longrightarrow> 0 \<notin> set (str_bytes v) \<Longrightarrow>
   n \<noteq> ''amount_atomic'' \<or> canonicalUnsignedDecimal v \<Longrightarrow> field_ok vs (fd n SemanticID)"
  using canonical_ID [of v n] by (simp add: field_ok_def) (simp add: fd_def ID_def semanticText_def)

lemma raise_floor_derives:
  assumes "map_of vs = map_of sample_action" "length vs = 7"
  shows "\<exists>i p. DeriveStableActionID L raise_floor vs = Inr (i, p)"
proof (rule derive_ok [OF raise_floor_entry])
  have vs: "map_of vs ''owner_id'' = Some (ID ''o'')" "map_of vs ''agent_id'' = Some (ID ''a'')"
    "map_of vs ''network_domain_digest'' = Some (Digest32 (digest_of CHR ''0''))" "map_of vs ''market_id'' = Some (Digest32 (digest_of CHR ''1''))"
    "map_of vs ''account_binding_digest'' = Some (Digest32 (digest_of CHR ''2''))"
    "map_of vs ''expected_key_epoch'' = Some (U64 7)" "map_of vs ''new_nonce_floor'' = Some (U64 258)"
    by (simp_all add: assms(1) sample_action_def)
  note oks = field_ok_ID [OF vs(1)] field_ok_ID [OF vs(2)] field_ok_Digest32 [OF vs(3)] field_ok_Digest32 [OF vs(4)]
    field_ok_Digest32 [OF vs(5)] field_ok_U64 [OF vs(6)] field_ok_U64 [OF vs(7)]
  show "list_all (field_ok vs) (Fields (action_entry raise_floor SuccessorNone
     (predictionFields [fd ''account_binding_digest'' SemanticDigest32, fd ''expected_key_epoch'' SemanticU64,
       fd ''new_nonce_floor'' SemanticU64])))"
    by (simp add: action_entry_def predictionFields_def oks digest_of_canonical is_lower_hex_def ValidString_ascii ascii_def str_bytes_def)
  show "length vs = length (Fields (action_entry raise_floor SuccessorNone
     (predictionFields [fd ''account_binding_digest'' SemanticDigest32, fd ''expected_key_epoch'' SemanticU64,
       fd ''new_nonce_floor'' SemanticU64])))"
    using assms(2) by (simp add: action_entry_def predictionFields_def)
qed

lemma rev_sample: "distinct (map fst sample_action)" "map_of (rev sample_action) = map_of sample_action" "length sample_action = 7"
proof -
  show d: "distinct (map fst sample_action)" "length sample_action = 7" by (simp_all add: sample_action_def)
  show "map_of (rev sample_action) = map_of sample_action" by (rule map_of_eqI) (auto simp: d(1) rev_map [symmetric])
qed

theorem stable_action_id_binds_witness:
  "\<exists>i p. DeriveStableActionID plain_hash_lib raise_floor sample_action = Inr (i, p) \<and>
     DeriveStableActionID plain_hash_lib raise_floor (rev sample_action) = Inr (i, p) \<and>
     map_of sample_action = map_of (rev sample_action)"
proof -
  obtain i p where ip: "DeriveStableActionID plain_hash_lib raise_floor sample_action = Inr (i, p)"
    using raise_floor_derives rev_sample by blast
  moreover have "DeriveStableActionID plain_hash_lib raise_floor (rev sample_action) = Inr (i, p)"
    using derive_cong [of "rev sample_action" sample_action] ip rev_sample by simp
  ultimately show ?thesis using stable_action_id_binds [OF ip, of raise_floor "rev sample_action" p] rev_sample
    by (simp add: rev_map [symmetric])
qed

theorem semantic_fields_round_trip_witness:
  "\<exists>ws vs. ExportSemanticFields plain_hash_lib raise_floor sample_action = Inr ws \<and>
     ImportSemanticFields plain_hash_lib raise_floor ws = Inr vs \<and> map_of vs = map_of sample_action \<and>
     ExportSemanticFields plain_hash_lib raise_floor vs = Inr ws"
proof -
  obtain i p where ip: "DeriveStableActionID plain_hash_lib raise_floor sample_action = Inr (i, p)"
    using raise_floor_derives rev_sample by blast
  then obtain ws where ws: "ExportSemanticFields plain_hash_lib raise_floor sample_action = Inr ws"
    unfolding export_parts using raise_floor_entry by auto
  then obtain vs where "ImportSemanticFields plain_hash_lib raise_floor ws = Inr vs" "map_of vs = map_of sample_action"
    using conjunct1 [OF semantic_fields_round_trip] rev_sample(1) by blast
  with ws conjunct2 [OF semantic_fields_round_trip] show ?thesis by blast
qed

end
