(* ===== verification/Authority.thy ===== *)
theory Authority
  imports Semantic_Action Agreement_Props
begin

text \<open>
  Writer fences and authorized actions, \<^verbatim>\<open>pkg/agentcommerce/authority.go\<close>: the signed lease of a writer, the
  signed authorization of one semantic action with one exact request, their verification at a validity
  and an authority time, action resolutions and authority instances. The resolvers of keys and of the
  current lease are arguments, \<open>None\<close> the nil interface.
\<close>

subsection \<open>Fences and actions\<close>

definition MaxIntentClockSkew :: int where "MaxIntentClockSkew = 5 * Minute"

record WriterFenceBody =
  fb_SchemaVersion :: u16
  fb_OwnerID :: string
  fb_AgentID :: string
  fb_InstanceID :: string
  fb_LeaseID :: string
  fb_WriterGeneration :: u64
  fb_IssuedAtUnix :: u64
  fb_ExpiresAtUnix :: u64
  fb_AuthorityID :: string
  fb_Scope :: "string list"

record WriterFence =
  FenceBody :: WriterFenceBody
  FencePublicKey :: string
  FenceProof :: string

record AuthorizedAction =
  aa_SchemaVersion :: u16
  aa_OwnerID :: string
  aa_AgentID :: string
  aa_ActionKind :: string
  aa_StableActionID :: string
  aa_ExactRequestDigest :: string
  aa_WriterGeneration :: u64
  aa_WriterFenceDigest :: string
  aa_PolicyRevision :: u64
  aa_MandateDigest :: string
  aa_ApprovalDigest :: string
  aa_ExpectedPriorState :: string
  aa_ExpiresAtUnix :: u64
  aa_AuthorityID :: string
  aa_AuthorityPublicKey :: string
  aa_AuthorizationProof :: string

definition ActionUnknown :: string where "ActionUnknown = ''unknown''"
definition ActionPrepared :: string where "ActionPrepared = ''prepared''"
definition ActionSubmitted :: string where "ActionSubmitted = ''submitted''"
definition ActionAccepted :: string where "ActionAccepted = ''accepted''"
definition ActionRejected :: string where "ActionRejected = ''rejected''"
definition ActionConflict :: string where "ActionConflict = ''conflict''"
definition ActionTerminal :: string where "ActionTerminal = ''terminal''"

lemmas action_states = ActionUnknown_def ActionPrepared_def ActionSubmitted_def ActionAccepted_def ActionRejected_def
  ActionConflict_def ActionTerminal_def

record ActionResolution =
  ar_StableActionID :: string
  ar_ExactRequestDigest :: string
  ar_State :: string
  ar_SinkReference :: string
  ar_EvidenceRefs :: "string list"
  ar_StateRevision :: u64

record AuthorityInstanceAllocationRequest =
  al_OwnerID :: string
  al_AgentID :: string
  al_PurposeKind :: string
  al_MandateDigest :: string
  al_ApprovalDigestOrZero :: string
  al_DownstreamEffectDescriptorDigest :: string
  al_PredecessorAuthorityInstanceID :: string

definition fence_body_json :: "WriterFenceBody \<Rightarrow> json" where
  "fence_body_json b = JObject
     (plain ''schema_version'' (juint (fb_SchemaVersion b)) @ plain ''owner_id'' (JString (fb_OwnerID b)) @
      plain ''agent_id'' (JString (fb_AgentID b)) @ plain ''instance_id'' (JString (fb_InstanceID b)) @
      plain ''lease_id'' (JString (fb_LeaseID b)) @ plain ''writer_generation'' (juint (fb_WriterGeneration b)) @
      plain ''issued_at_unix'' (juint (fb_IssuedAtUnix b)) @ plain ''expires_at_unix'' (juint (fb_ExpiresAtUnix b)) @
      plain ''authority_id'' (JString (fb_AuthorityID b)) @ plain ''scope'' (jstrs (fb_Scope b)))"

definition fence_json :: "WriterFence \<Rightarrow> json" where
  "fence_json w = JObject (plain ''body'' (fence_body_json (FenceBody w)) @
     plain ''public_key'' (JString (FencePublicKey w)) @ plain ''fence_proof'' (JString (FenceProof w)))"

definition action_json :: "AuthorizedAction \<Rightarrow> json" where
  "action_json a = JObject
     (plain ''schema_version'' (juint (aa_SchemaVersion a)) @ plain ''owner_id'' (JString (aa_OwnerID a)) @
      plain ''agent_id'' (JString (aa_AgentID a)) @ plain ''action_kind'' (JString (aa_ActionKind a)) @
      plain ''stable_action_id'' (JString (aa_StableActionID a)) @
      plain ''exact_request_digest'' (JString (aa_ExactRequestDigest a)) @
      plain ''writer_generation'' (juint (aa_WriterGeneration a)) @
      plain ''writer_fence_digest'' (JString (aa_WriterFenceDigest a)) @
      plain ''policy_revision'' (juint (aa_PolicyRevision a)) @ plain ''mandate_digest'' (JString (aa_MandateDigest a)) @
      opt_str ''approval_digest'' (aa_ApprovalDigest a) @
      plain ''expected_prior_state'' (JString (aa_ExpectedPriorState a)) @
      plain ''expires_at_unix'' (juint (aa_ExpiresAtUnix a)) @ plain ''authority_id'' (JString (aa_AuthorityID a)) @
      plain ''authority_public_key'' (JString (aa_AuthorityPublicKey a)) @
      plain ''authorization_proof'' (JString (aa_AuthorizationProof a)))"

definition allocation_json :: "AuthorityInstanceAllocationRequest \<Rightarrow> json" where
  "allocation_json r = JObject
     (plain ''owner_id'' (JString (al_OwnerID r)) @ plain ''agent_id'' (JString (al_AgentID r)) @
      plain ''purpose_kind'' (JString (al_PurposeKind r)) @ plain ''mandate_digest'' (JString (al_MandateDigest r)) @
      plain ''approval_digest_or_zero'' (JString (al_ApprovalDigestOrZero r)) @
      plain ''downstream_effect_descriptor_digest'' (JString (al_DownstreamEffectDescriptorDigest r)) @
      plain ''predecessor_authority_instance_id'' (JString (al_PredecessorAuthorityInstanceID r)))"

subsection \<open>Writer fences\<close>

definition validateWriterFenceBody :: "WriterFenceBody \<Rightarrow> agreement_error + unit" where
  "validateWriterFenceBody b =
     (if fb_SchemaVersion b \<noteq> 1 \<or> \<not> boundedIdentifier (fb_OwnerID b) 256 \<or> \<not> boundedIdentifier (fb_AgentID b) 256 \<or>
         \<not> boundedIdentifier (fb_InstanceID b) 256 \<or> \<not> boundedIdentifier (fb_LeaseID b) 256 \<or> fb_WriterGeneration b = 0 \<or>
         fb_IssuedAtUnix b = 0 \<or> fb_ExpiresAtUnix b \<le> fb_IssuedAtUnix b \<or>
         fb_ExpiresAtUnix b - fb_IssuedAtUnix b > 24 * 60 * 60 \<or> \<not> boundedIdentifier (fb_AuthorityID b) 256 \<or>
         fb_Scope b = [] \<or> \<not> validateSortedStrings (fb_Scope b) 64 128
      then Inl (Err ''writer fence body is invalid'')
      else if list_ex (\<lambda>kind. map_of semanticActionRegistry kind = None) (fb_Scope b)
      then Inl (Err ''writer fence contains unknown action scope'')
      else Inr ())"

definition fence_message :: "agreement_lib \<Rightarrow> bytes \<Rightarrow> bytes" where
  "fence_message L canonical = framedSHA256 L ''tos.writer-fence.v1'' canonical"

definition SignWriterFence :: "agreement_lib \<Rightarrow> WriterFenceBody \<Rightarrow> bytes \<Rightarrow> agreement_error + WriterFence" where
  "SignWriterFence L body privateKey =
     (if length privateKey \<noteq> 64 then Inl (Err ''writer fence signing key is invalid'')
      else ebind (validateWriterFenceBody body) (\<lambda>_.
        ebind (codec (Marshal (codec_of L) (fence_body_json body))) (\<lambda>canonical.
          Inr \<lparr>FenceBody = body, FencePublicKey = ''ed25519:'' @ hex_encode (publicKeyOf L privateKey),
               FenceProof = ''ed25519:'' @ rawurl_encode (edSign L privateKey (fence_message L canonical))\<rparr>)))"

definition verifyWriterFenceAtAuthorityTime ::
  "agreement_lib \<Rightarrow> WriterFence \<Rightarrow> key_resolver option \<Rightarrow> int \<Rightarrow> int \<Rightarrow> string \<Rightarrow> agreement_error + unit" where
  "verifyWriterFenceAtAuthorityTime L fence resolver validityAt authorityAt actionKind =
     (let b = FenceBody fence in
      ebind (validateWriterFenceBody b) (\<lambda>_.
        let issuedAt = time_unix (fb_IssuedAtUnix b); expiresAt = time_unix (fb_ExpiresAtUnix b) in
        case resolver of
          None \<Rightarrow> Inl (Err ''writer fence is expired, premature, or out of scope'')
        | Some authorizeFenceKey \<Rightarrow>
            if \<not> validityAt < expiresAt \<or> validityAt < issuedAt - MaxIntentClockSkew \<or>
               authorityAt < issuedAt - MaxIntentClockSkew \<or> \<not> authorityAt < expiresAt \<or>
               \<not> containsSorted (fb_Scope b) actionKind
            then Inl (Err ''writer fence is expired, premature, or out of scope'')
            else case parseEd25519PublicKey (FencePublicKey fence) of
              None \<Rightarrow> Inl (Err ''public key is invalid'')
            | Some publicKey \<Rightarrow>
                ebind (authorizeFenceKey (fb_AuthorityID b) publicKey authorityAt) (\<lambda>_.
                  case parseEd25519Signature (FenceProof fence) of
                    None \<Rightarrow> Inl (Err ''signature is invalid'')
                  | Some proof \<Rightarrow>
                      ebind (codec (Marshal (codec_of L) (fence_body_json b))) (\<lambda>canonical.
                        if \<not> edVerify L publicKey (fence_message L canonical) proof
                        then Inl (Err ''writer fence proof is invalid'') else Inr ()))))"

definition VerifyWriterFence ::
  "agreement_lib \<Rightarrow> WriterFence \<Rightarrow> key_resolver option \<Rightarrow> int \<Rightarrow> string \<Rightarrow> agreement_error + unit" where
  "VerifyWriterFence L fence resolver now actionKind = verifyWriterFenceAtAuthorityTime L fence resolver now now actionKind"

definition ConfirmCurrentWriterFence ::
  "WriterFence \<Rightarrow> (WriterFence \<Rightarrow> int \<Rightarrow> agreement_error + unit) option \<Rightarrow> int \<Rightarrow> agreement_error + unit" where
  "ConfirmCurrentWriterFence fence resolver at =
     (case resolver of
        None \<Rightarrow> Inl (Err ''current writer fence resolver is unavailable'')
      | Some confirm \<Rightarrow>
          if \<not> at < time_unix (fb_ExpiresAtUnix (FenceBody fence)) then Inl (Err ''current writer fence is expired'')
          else ebind (confirm fence at) (\<lambda>_. Inr ()))"

definition WriterFenceDigest :: "agreement_lib \<Rightarrow> WriterFence \<Rightarrow> agreement_error + string" where
  "WriterFenceDigest L fence =
     ebind (validateWriterFenceBody (FenceBody fence)) (\<lambda>_.
       if parseEd25519PublicKey (FencePublicKey fence) = None then Inl (Err ''writer fence public key encoding is invalid'')
       else if parseEd25519Signature (FenceProof fence) = None then Inl (Err ''writer fence proof encoding is invalid'')
       else codec (Digest (codec_of L) ''tos.writer-fence-envelope.v1'' (fence_json fence)))"

subsection \<open>Authorized actions\<close>

definition known_kind :: "string \<Rightarrow> bool" where
  "known_kind kind = (case map_of semanticActionRegistry kind of None \<Rightarrow> False | Some e \<Rightarrow> ActionKind e \<noteq> [])"

definition validateAuthorizedActionShape :: "AuthorizedAction \<Rightarrow> agreement_error + unit" where
  "validateAuthorizedActionShape a =
     (if aa_SchemaVersion a \<noteq> 1 \<or> \<not> boundedIdentifier (aa_OwnerID a) 256 \<or> \<not> boundedIdentifier (aa_AgentID a) 256 \<or>
         \<not> known_kind (aa_ActionKind a) \<or> \<not> canonicalDigestPattern (aa_StableActionID a) \<or>
         \<not> canonicalDigestPattern (aa_ExactRequestDigest a) \<or> aa_WriterGeneration a = 0 \<or>
         \<not> canonicalDigestPattern (aa_WriterFenceDigest a) \<or> aa_PolicyRevision a = 0 \<or>
         \<not> canonicalDigestPattern (aa_MandateDigest a) \<or>
         aa_ApprovalDigest a \<noteq> [] \<and> \<not> canonicalDigestPattern (aa_ApprovalDigest a) \<or>
         \<not> boundedIdentifier (aa_ExpectedPriorState a) 128 \<or> aa_ExpiresAtUnix a = 0 \<or>
         \<not> boundedIdentifier (aa_AuthorityID a) 256 \<or>
         (aa_AuthorityPublicKey a = []) \<noteq> (aa_AuthorizationProof a = [])
      then Inl (Err ''authorized action is invalid'')
      else if aa_AuthorityPublicKey a \<noteq> [] then
        (if parseEd25519PublicKey (aa_AuthorityPublicKey a) = None then Inl (Err ''authorized action authority key is invalid'')
         else if parseEd25519Signature (aa_AuthorizationProof a) = None
         then Inl (Err ''authorized action proof encoding is invalid'')
         else Inr ())
      else Inr ())"

definition AuthorizedActionDigest :: "agreement_lib \<Rightarrow> AuthorizedAction \<Rightarrow> agreement_error + string" where
  "AuthorizedActionDigest L a =
     (if \<not> is_ok (validateAuthorizedActionShape a) \<or> aa_AuthorityPublicKey a = []
      then Inl (Err ''authorized action envelope is invalid'')
      else codec (Digest (codec_of L) ''tos.authorized-action-envelope.v1'' (action_json a)))"

definition principal_is :: "semantic_values \<Rightarrow> string \<Rightarrow> string \<Rightarrow> bool" where
  "principal_is vs name who = (case map_of vs name of
     None \<Rightarrow> False | Some v \<Rightarrow> typeOf v = SemanticID \<and> bytes_str (valueBytes v) = who)"

definition validateSemanticActionPrincipals :: "string \<Rightarrow> string \<Rightarrow> semantic_values \<Rightarrow> agreement_error + unit" where
  "validateSemanticActionPrincipals ownerID agentID values =
     (if principal_is values ''owner_id'' ownerID \<and> principal_is values ''agent_id'' agentID then Inr ()
      else Inl (Err ''semantic action principals differ from the authorized action''))"

definition BuildAuthorizedAction ::
  "agreement_lib \<Rightarrow> string \<Rightarrow> string \<Rightarrow> string \<Rightarrow> semantic_values \<Rightarrow> bytes \<Rightarrow> WriterFence \<Rightarrow> u64 \<Rightarrow> string \<Rightarrow> string
   \<Rightarrow> string \<Rightarrow> u64 \<Rightarrow> agreement_error + AuthorizedAction" where
  "BuildAuthorizedAction L ownerID agentID actionKind semanticFields canonicalRequest fence policyRevision mandateDigest
     approvalDigest expectedPriorState expiresAt =
     ebind (validateSemanticActionPrincipals ownerID agentID semanticFields) (\<lambda>_.
     ebind (DeriveStableActionID L actionKind semanticFields) (\<lambda>(stableID, _).
     ebind (ExactRequestDigest L canonicalRequest) (\<lambda>requestDigest.
     ebind (WriterFenceDigest L fence) (\<lambda>fenceDigest.
       let action = \<lparr>aa_SchemaVersion = 1, aa_OwnerID = ownerID, aa_AgentID = agentID, aa_ActionKind = actionKind,
             aa_StableActionID = stableID, aa_ExactRequestDigest = requestDigest,
             aa_WriterGeneration = fb_WriterGeneration (FenceBody fence), aa_WriterFenceDigest = fenceDigest,
             aa_PolicyRevision = policyRevision, aa_MandateDigest = mandateDigest, aa_ApprovalDigest = approvalDigest,
             aa_ExpectedPriorState = expectedPriorState, aa_ExpiresAtUnix = expiresAt,
             aa_AuthorityID = fb_AuthorityID (FenceBody fence), aa_AuthorityPublicKey = [], aa_AuthorizationProof = []\<rparr> in
       ebind (validateAuthorizedActionShape action) (\<lambda>_. Inr action)))))"

definition authorizedActionSignatureMessage :: "agreement_lib \<Rightarrow> AuthorizedAction \<Rightarrow> agreement_error + bytes" where
  "authorizedActionSignatureMessage L a =
     ebind (codec (Marshal (codec_of L) (action_json (a\<lparr>aa_AuthorizationProof := []\<rparr>)))) (\<lambda>canonical.
       Inr (framedSHA256 L ''tos.authorized-action-proof.v1'' canonical))"

definition SignAuthorizedAction :: "agreement_lib \<Rightarrow> AuthorizedAction \<Rightarrow> bytes \<Rightarrow> agreement_error + AuthorizedAction" where
  "SignAuthorizedAction L a privateKey =
     (if length privateKey \<noteq> 64 \<or> aa_AuthorityPublicKey a \<noteq> [] \<or> aa_AuthorizationProof a \<noteq> []
      then Inl (Err ''authorized action signing request is invalid'')
      else ebind (validateAuthorizedActionShape a) (\<lambda>_.
        let keyed = a\<lparr>aa_AuthorityPublicKey := ''ed25519:'' @ hex_encode (publicKeyOf L privateKey)\<rparr> in
        ebind (authorizedActionSignatureMessage L keyed) (\<lambda>message.
          Inr (keyed\<lparr>aa_AuthorizationProof := ''ed25519:'' @ rawurl_encode (edSign L privateKey message)\<rparr>))))"

text \<open>The checks of an action against its fence; those of its proof; those of what it authorizes.\<close>

definition matches_fence :: "AuthorizedAction \<Rightarrow> WriterFenceBody \<Rightarrow> int \<Rightarrow> bool" where
  "matches_fence a b validityAt =
     (\<not> (aa_OwnerID a \<noteq> fb_OwnerID b \<or> aa_AgentID a \<noteq> fb_AgentID b \<or> aa_WriterGeneration a \<noteq> fb_WriterGeneration b \<or>
         aa_ExpiresAtUnix a > fb_ExpiresAtUnix b \<or> \<not> validityAt < time_unix (aa_ExpiresAtUnix a)))"

definition verify_proof :: "agreement_lib \<Rightarrow> AuthorizedAction \<Rightarrow> key_resolver \<Rightarrow> int \<Rightarrow> agreement_error + unit" where
  "verify_proof L a authorizeFenceKey authorityAt =
     (case parseEd25519PublicKey (aa_AuthorityPublicKey a) of
        None \<Rightarrow> Inl (Err ''authorized action authority key is not authorized'')
      | Some authorityKey \<Rightarrow>
          if \<not> is_ok (authorizeFenceKey (aa_AuthorityID a) authorityKey authorityAt)
          then Inl (Err ''authorized action authority key is not authorized'')
          else case (parseEd25519Signature (aa_AuthorizationProof a), authorizedActionSignatureMessage L a) of
            (Some proof, Inr message) \<Rightarrow>
              if \<not> edVerify L authorityKey message proof then Inl (Err ''authorized action proof is invalid'') else Inr ()
          | _ \<Rightarrow> Inl (Err ''authorized action proof is invalid''))"

definition VerifyAuthorizedActionAtAuthorityTime ::
  "agreement_lib \<Rightarrow> AuthorizedAction \<Rightarrow> semantic_values \<Rightarrow> bytes \<Rightarrow> WriterFence \<Rightarrow> key_resolver option \<Rightarrow> int \<Rightarrow> int
   \<Rightarrow> agreement_error + unit" where
  "VerifyAuthorizedActionAtAuthorityTime L a semanticFields canonicalRequest fence resolver validityAt authorityAt =
     ebind (validateAuthorizedActionShape a) (\<lambda>_.
     ebind (validateSemanticActionPrincipals (aa_OwnerID a) (aa_AgentID a) semanticFields) (\<lambda>_.
       if \<not> matches_fence a (FenceBody fence) validityAt
       then Inl (Err ''authorized action does not match the current writer fence'')
       else ebind (verifyWriterFenceAtAuthorityTime L fence resolver validityAt authorityAt (aa_ActionKind a)) (\<lambda>_.
         if aa_AuthorityID a \<noteq> fb_AuthorityID (FenceBody fence) \<or> aa_AuthorityPublicKey a \<noteq> FencePublicKey fence
         then Inl (Err ''authorized action authority differs from the writer fence'')
         else case resolver of
           None \<Rightarrow> Inl (Panicked (Err ''nil resolver''))
         | Some authorizeFenceKey \<Rightarrow>
             ebind (verify_proof L a authorizeFenceKey authorityAt) (\<lambda>_.
               if WriterFenceDigest L fence \<noteq> Inr (aa_WriterFenceDigest a)
               then Inl (Err ''authorized action fence digest mismatch'')
               else case DeriveStableActionID L (aa_ActionKind a) semanticFields of
                 Inl _ \<Rightarrow> Inl (Err ''authorized action semantic identity mismatch'')
               | Inr (stableID, _) \<Rightarrow>
                   if stableID \<noteq> aa_StableActionID a then Inl (Err ''authorized action semantic identity mismatch'')
                   else if ExactRequestDigest L canonicalRequest \<noteq> Inr (aa_ExactRequestDigest a)
                   then Inl (Err ''authorized action request digest mismatch'')
                   else Inr ()))))"

definition VerifyAuthorizedAction ::
  "agreement_lib \<Rightarrow> AuthorizedAction \<Rightarrow> semantic_values \<Rightarrow> bytes \<Rightarrow> WriterFence \<Rightarrow> key_resolver option \<Rightarrow> int
   \<Rightarrow> agreement_error + unit" where
  "VerifyAuthorizedAction L a semanticFields canonicalRequest fence resolver now =
     VerifyAuthorizedActionAtAuthorityTime L a semanticFields canonicalRequest fence resolver now now"

subsection \<open>Resolutions and authority instances\<close>

definition ValidateActionResolution :: "ActionResolution \<Rightarrow> agreement_error + unit" where
  "ValidateActionResolution r =
     (if \<not> canonicalDigestPattern (ar_StableActionID r) \<or> \<not> canonicalDigestPattern (ar_ExactRequestDigest r) \<or>
         ar_StateRevision r = 0 \<or> \<not> validateSortedDigests (ar_EvidenceRefs r) 256 \<or> length (ar_SinkReference r) > 1024
      then Inl (Err ''action resolution is invalid'')
      else if ar_State r = ActionUnknown then
        (if ar_StateRevision r \<noteq> 1 \<or> ar_SinkReference r \<noteq> [] \<or> ar_EvidenceRefs r \<noteq> []
         then Inl (Err ''unknown action carries sink state'') else Inr ())
      else if ar_State r \<in> {ActionPrepared, ActionSubmitted, ActionAccepted, ActionRejected, ActionConflict, ActionTerminal}
      then Inr ()
      else Inl (Err ''action resolution state is unknown''))"

definition DownstreamEffectDescriptorDigest :: "agreement_lib \<Rightarrow> bytes \<Rightarrow> agreement_error + string" where
  "DownstreamEffectDescriptorDigest L body =
     (if length body = 0 \<or> length body > MaxActionRequestBytes then Inl (Err ''canonical effect body has invalid size'')
      else Inr (''sha256:'' @ hex_encode (framedSHA256 L ''tos.authority-instance-effect.v1'' body)))"

definition stringsOfZero :: "nat \<Rightarrow> string" where
  "stringsOfZero n = replicate n CHR ''0''"

definition canonicalDigestOrZero :: "string \<Rightarrow> bool" where
  "canonicalDigestOrZero v = (v = ''sha256:'' @ stringsOfZero 64 \<or> canonicalDigestPattern v)"

definition AuthorityInstanceAllocationRequestDigest ::
  "agreement_lib \<Rightarrow> AuthorityInstanceAllocationRequest \<Rightarrow> agreement_error + string" where
  "AuthorityInstanceAllocationRequestDigest L r =
     (if \<not> boundedIdentifier (al_OwnerID r) 256 \<or> \<not> boundedIdentifier (al_AgentID r) 256 \<or>
         \<not> canonicalLowerToken (al_PurposeKind r) \<or> \<not> canonicalDigestPattern (al_MandateDigest r) \<or>
         \<not> canonicalDigestOrZero (al_ApprovalDigestOrZero r) \<or>
         \<not> canonicalDigestPattern (al_DownstreamEffectDescriptorDigest r) \<or>
         \<not> canonicalDigestOrZero (al_PredecessorAuthorityInstanceID r)
      then Inl (Err ''authority instance allocation request is invalid'')
      else ebind (codec (Marshal (codec_of L) (allocation_json r))) (\<lambda>canonical.
        Inr (''sha256:'' @ hex_encode (framedSHA256 L ''tos.authority-instance-allocation.v1'' canonical))))"

definition instance_fields :: "AuthorityInstanceAllocationRequest \<Rightarrow> string \<Rightarrow> u64 \<Rightarrow> semantic_values" where
  "instance_fields r requestDigest sequence =
     [(''owner_id'', ID (al_OwnerID r)), (''agent_id'', ID (al_AgentID r)), (''purpose_kind'', Kind (al_PurposeKind r)),
      (''mandate_digest'', Digest32 (al_MandateDigest r)), (''allocation_request_digest'', Digest32 requestDigest),
      (''authority_allocation_sequence'', U64 sequence)]"

definition DeriveAuthorityInstanceID ::
  "agreement_lib \<Rightarrow> AuthorityInstanceAllocationRequest \<Rightarrow> u64 \<Rightarrow> agreement_error + string" where
  "DeriveAuthorityInstanceID L r sequence =
     (case AuthorityInstanceAllocationRequestDigest L r of
        Inl _ \<Rightarrow> Inl (Err ''authority instance allocation sequence is invalid'')
      | Inr requestDigest \<Rightarrow>
          if sequence = 0 then Inl (Err ''authority instance allocation sequence is invalid'')
          else ebind (DeriveStableActionID L ''authority.instance'' (instance_fields r requestDigest sequence)) (\<lambda>(i, _). Inr i))"

subsection \<open>What a verification has checked\<close>

lemma fence_verified:
  "verifyWriterFenceAtAuthorityTime L fence resolver v t kind = Inr () \<longleftrightarrow>
   (\<exists>auth key proof c. resolver = Some auth \<and> validateWriterFenceBody (FenceBody fence) = Inr () \<and>
      v < time_unix (fb_ExpiresAtUnix (FenceBody fence)) \<and> \<not> v < time_unix (fb_IssuedAtUnix (FenceBody fence)) - MaxIntentClockSkew \<and>
      \<not> t < time_unix (fb_IssuedAtUnix (FenceBody fence)) - MaxIntentClockSkew \<and> t < time_unix (fb_ExpiresAtUnix (FenceBody fence)) \<and>
      containsSorted (fb_Scope (FenceBody fence)) kind \<and> parseEd25519PublicKey (FencePublicKey fence) = Some key \<and>
      auth (fb_AuthorityID (FenceBody fence)) key t = Inr () \<and> parseEd25519Signature (FenceProof fence) = Some proof \<and>
      Marshal (codec_of L) (fence_body_json (FenceBody fence)) = Inr c \<and> edVerify L key (fence_message L c) proof)"
  by (auto simp: verifyWriterFenceAtAuthorityTime_def Let_def bind_simps split: option.splits if_splits)

lemma proof_verified:
  "verify_proof L a auth t = Inr () \<longleftrightarrow>
   (\<exists>key proof m. parseEd25519PublicKey (aa_AuthorityPublicKey a) = Some key \<and> is_ok (auth (aa_AuthorityID a) key t) \<and>
      parseEd25519Signature (aa_AuthorizationProof a) = Some proof \<and> authorizedActionSignatureMessage L a = Inr m \<and> edVerify L key m proof)"
  by (auto simp: verify_proof_def split: option.splits sum.splits if_splits)

lemma action_verified:
  "VerifyAuthorizedActionAtAuthorityTime L a vs request fence resolver v t = Inr () \<longleftrightarrow>
   (\<exists>auth p. resolver = Some auth \<and> validateAuthorizedActionShape a = Inr () \<and>
      validateSemanticActionPrincipals (aa_OwnerID a) (aa_AgentID a) vs = Inr () \<and> matches_fence a (FenceBody fence) v \<and>
      verifyWriterFenceAtAuthorityTime L fence (Some auth) v t (aa_ActionKind a) = Inr () \<and>
      aa_AuthorityID a = fb_AuthorityID (FenceBody fence) \<and> aa_AuthorityPublicKey a = FencePublicKey fence \<and>
      verify_proof L a auth t = Inr () \<and> WriterFenceDigest L fence = Inr (aa_WriterFenceDigest a) \<and>
      DeriveStableActionID L (aa_ActionKind a) vs = Inr (aa_StableActionID a, p) \<and>
      ExactRequestDigest L request = Inr (aa_ExactRequestDigest a))"
  by (auto simp: VerifyAuthorizedActionAtAuthorityTime_def bind_simps split: option.splits if_splits sum.splits)

subsection \<open>From building to verification\<close>

lemma ed_laws:
  "ed25519_lawful L \<Longrightarrow> length key = 64 \<Longrightarrow>
   length (publicKeyOf L key) = 32 \<and> length (edSign L key m) = 64 \<and> edVerify L (publicKeyOf L key) m (edSign L key m)"
  unfolding ed25519_lawful_def by blast

lemma fence_signed:
  assumes "ed25519_lawful L" "SignWriterFence L body key = Inr fence"
  shows "FenceBody fence = body" "FencePublicKey fence = ''ed25519:'' @ hex_encode (publicKeyOf L key)" "length key = 64"
    "\<exists>s c. validateWriterFenceBody body = Inr () \<and> parseEd25519PublicKey (FencePublicKey fence) = Some (publicKeyOf L key) \<and>
      parseEd25519Signature (FenceProof fence) = Some s \<and> Marshal (codec_of L) (fence_body_json body) = Inr c \<and>
      edVerify L (publicKeyOf L key) (fence_message L c) s"
proof -
  from assms(2) obtain c where c: "length key = 64" "validateWriterFenceBody body = Inr ()" "Marshal (codec_of L) (fence_body_json body) = Inr c"
    "fence = \<lparr>FenceBody = body, FencePublicKey = ''ed25519:'' @ hex_encode (publicKeyOf L key),
       FenceProof = ''ed25519:'' @ rawurl_encode (edSign L key (fence_message L c))\<rparr>"
    by (auto simp: SignWriterFence_def bind_simps split: if_splits)
  then show "FenceBody fence = body" "FencePublicKey fence = ''ed25519:'' @ hex_encode (publicKeyOf L key)" "length key = 64" by simp_all
  have "parseEd25519PublicKey (FencePublicKey fence) = Some (publicKeyOf L key)"
    "parseEd25519Signature (FenceProof fence) = Some (edSign L key (fence_message L c))"
    "edVerify L (publicKeyOf L key) (fence_message L c) (edSign L key (fence_message L c))"
    using parse_key_text parse_signature_text ed_laws [OF assms(1) c(1)] unfolding c(4) WriterFence.simps by simp_all
  with c(2,3) show "\<exists>s c. validateWriterFenceBody body = Inr () \<and> parseEd25519PublicKey (FencePublicKey fence) = Some (publicKeyOf L key) \<and>
      parseEd25519Signature (FenceProof fence) = Some s \<and> Marshal (codec_of L) (fence_body_json body) = Inr c \<and>
      edVerify L (publicKeyOf L key) (fence_message L c) s" by blast
qed

lemma action_signed:
  assumes "ed25519_lawful L" "SignAuthorizedAction L a key = Inr s"
  shows "s = a\<lparr>aa_AuthorityPublicKey := ''ed25519:'' @ hex_encode (publicKeyOf L key), aa_AuthorizationProof := aa_AuthorizationProof s\<rparr>"
    "validateAuthorizedActionShape s = Inr ()"
    "auth (aa_AuthorityID a) (publicKeyOf L key) t = Inr () \<Longrightarrow> verify_proof L s auth t = Inr ()"
proof -
  let ?k = "a\<lparr>aa_AuthorityPublicKey := ''ed25519:'' @ hex_encode (publicKeyOf L key)\<rparr>"
  from assms(2) obtain m where m: "length key = 64" "validateAuthorizedActionShape a = Inr ()" "aa_AuthorityPublicKey a = []"
    "aa_AuthorizationProof a = []" "authorizedActionSignatureMessage L ?k = Inr m"
    "s = ?k\<lparr>aa_AuthorizationProof := ''ed25519:'' @ rawurl_encode (edSign L key m)\<rparr>"
    by (auto simp: SignAuthorizedAction_def Let_def bind_simps split: if_splits)
  then show "s = a\<lparr>aa_AuthorityPublicKey := ''ed25519:'' @ hex_encode (publicKeyOf L key), aa_AuthorizationProof := aa_AuthorizationProof s\<rparr>"
    by simp
  have keys: "parseEd25519PublicKey (aa_AuthorityPublicKey s) = Some (publicKeyOf L key)"
    "parseEd25519Signature (aa_AuthorizationProof s) = Some (edSign L key m)" "edVerify L (publicKeyOf L key) m (edSign L key m)"
    using parse_key_text parse_signature_text ed_laws [OF assms(1) m(1)] unfolding m(6) AuthorizedAction.simps by simp_all
  show "validateAuthorizedActionShape s = Inr ()"
    using m(2,3,4) keys(1,2) unfolding m(6) by (auto simp: validateAuthorizedActionShape_def split: if_splits)
  have "authorizedActionSignatureMessage L s = Inr m" using m(4,5) unfolding m(6) by (simp add: authorizedActionSignatureMessage_def)
  then show "verify_proof L s auth t = Inr ()" if "auth (aa_AuthorityID a) (publicKeyOf L key) t = Inr ()"
    using keys that m(6) by (simp add: proof_verified)
qed

lemma action_built:
  assumes "BuildAuthorizedAction L owner agent kind vs request fence policy mandate approval prior expires = Inr a"
  obtains i p d q where "validateSemanticActionPrincipals owner agent vs = Inr ()" "DeriveStableActionID L kind vs = Inr (i, p)"
    "ExactRequestDigest L request = Inr d" "WriterFenceDigest L fence = Inr q"
    "a = \<lparr>aa_SchemaVersion = 1, aa_OwnerID = owner, aa_AgentID = agent, aa_ActionKind = kind, aa_StableActionID = i,
       aa_ExactRequestDigest = d, aa_WriterGeneration = fb_WriterGeneration (FenceBody fence), aa_WriterFenceDigest = q,
       aa_PolicyRevision = policy, aa_MandateDigest = mandate, aa_ApprovalDigest = approval, aa_ExpectedPriorState = prior,
       aa_ExpiresAtUnix = expires, aa_AuthorityID = fb_AuthorityID (FenceBody fence), aa_AuthorityPublicKey = [],
       aa_AuthorizationProof = []\<rparr>"
  using assms by (auto simp: BuildAuthorizedAction_def Let_def bind_simps)

lemma built_action_verifies:
  assumes "ed25519_lawful L"
    and "SignWriterFence L body key = Inr fence"
    and "BuildAuthorizedAction L (fb_OwnerID body) (fb_AgentID body) kind vs request fence policy mandate approval prior expires = Inr a"
    and "SignAuthorizedAction L a key = Inr s"
    and "authorize (fb_AuthorityID body) (publicKeyOf L key) t = Inr ()"
    and "containsSorted (fb_Scope body) kind" "expires \<le> fb_ExpiresAtUnix body" "v < time_unix expires"
    and "v < time_unix (fb_ExpiresAtUnix body)" "time_unix (fb_IssuedAtUnix body) - MaxIntentClockSkew \<le> v"
    and "t < time_unix (fb_ExpiresAtUnix body)" "time_unix (fb_IssuedAtUnix body) - MaxIntentClockSkew \<le> t"
  shows "VerifyAuthorizedActionAtAuthorityTime L s vs request fence (Some authorize) v t = Inr ()"
proof -
  note f = fence_signed [OF assms(1,2)] and s = action_signed [OF assms(1,4)]
  from assms(3) show ?thesis
  proof (rule action_built, goal_cases)
    case (1 i p d q)
    have "aa_AuthorityID a = fb_AuthorityID body" using 1(5) f(1) by simp
    with s(3) [of authorize t] assms(5) have pv: "verify_proof L s authorize t = Inr ()" by simp
    have "verifyWriterFenceAtAuthorityTime L fence (Some authorize) v t kind = Inr ()"
      using f(1,4) assms(5-12) by (auto simp: fence_verified not_less)
    moreover have sel: "aa_OwnerID s = fb_OwnerID body" "aa_AgentID s = fb_AgentID body" "aa_ActionKind s = kind" "aa_StableActionID s = i"
      "aa_ExactRequestDigest s = d" "aa_WriterGeneration s = fb_WriterGeneration body" "aa_WriterFenceDigest s = q"
      "aa_ExpiresAtUnix s = expires" "aa_AuthorityID s = fb_AuthorityID body" "aa_AuthorityPublicKey s = FencePublicKey fence"
      by (subst s(1), simp add: 1(5) f(1,2))+
    moreover have "matches_fence s (FenceBody fence) v" using assms(7,8) f(1) sel by (simp add: matches_fence_def)
    ultimately show ?case unfolding action_verified using pv 1(1-4) s(2) f(1) by simp
  qed
qed


subsection \<open>What a verified action binds\<close>

definition request_preimage :: "bytes \<Rightarrow> bytes" where
  "request_preimage body = str_bytes (''tos.action-request.v1'' @ NUL) @ PutUint32 (of_nat (length body)) @ body"

definition hashed :: "agreement_lib \<Rightarrow> AuthorizedAction \<Rightarrow> semantic_values \<Rightarrow> bytes \<Rightarrow> bytes set" where
  "hashed L a vs request = {request_preimage request} \<union> {p. \<exists>i. DeriveStableActionID L (aa_ActionKind a) vs = Inr (i, p)}"

lemma request_preimage_inj: "request_preimage b = request_preimage b' \<Longrightarrow> b = b'"
  by (simp add: request_preimage_def)

lemma ExactRequestDigest_Inr:
  "ExactRequestDigest L body = Inr d \<longleftrightarrow>
   0 < length body \<and> length body \<le> MaxActionRequestBytes \<and> d = ''sha256:'' @ hex_encode (sha256 L (request_preimage body))"
  by (auto simp: ExactRequestDigest_def framedSHA256_def request_preimage_def)

text \<open>C4: An authorized action authorizes one thing. Whatever fields, requests, fences and times it is verified
  with, the fields are the same values and the request is the same bytes, as long as SHA-256 does not
  collide on what was hashed; and the fence is one of the action's principals and generation, grants the
  kind, is signed by the key of the action and has not expired.\<close>

theorem authorized_action_is_exact:
  assumes "VerifyAuthorizedActionAtAuthorityTime L a vs request fence resolver v t = Inr ()"
    and "VerifyAuthorizedActionAtAuthorityTime L a vs' request' fence' resolver' v' t' = Inr ()"
    and "distinct (map fst vs)" "distinct (map fst vs')"
    and "inj_on (sha256 L) (hashed L a vs request \<union> hashed L a vs' request')"
  shows "map_of vs = map_of vs' \<and> request = request' \<and>
    fb_OwnerID (FenceBody fence) = aa_OwnerID a \<and> fb_AgentID (FenceBody fence) = aa_AgentID a \<and>
    fb_WriterGeneration (FenceBody fence) = aa_WriterGeneration a \<and> containsSorted (fb_Scope (FenceBody fence)) (aa_ActionKind a) \<and>
    FencePublicKey fence = aa_AuthorityPublicKey a \<and>
    v < time_unix (aa_ExpiresAtUnix a) \<and> v < time_unix (fb_ExpiresAtUnix (FenceBody fence))"
proof -
  obtain p where p: "DeriveStableActionID L (aa_ActionKind a) vs = Inr (aa_StableActionID a, p)"
    and d: "ExactRequestDigest L request = Inr (aa_ExactRequestDigest a)"
    and m: "matches_fence a (FenceBody fence) v" "aa_AuthorityPublicKey a = FencePublicKey fence"
    and f: "\<exists>auth. verifyWriterFenceAtAuthorityTime L fence (Some auth) v t (aa_ActionKind a) = Inr ()"
    using assms(1) unfolding action_verified by blast
  obtain p' where p': "DeriveStableActionID L (aa_ActionKind a) vs' = Inr (aa_StableActionID a, p')"
    and d': "ExactRequestDigest L request' = Inr (aa_ExactRequestDigest a)"
    using assms(2) unfolding action_verified by blast
  have "request_preimage request = request_preimage request'"
  proof (rule inj_onD [OF assms(5)])
    show "sha256 L (request_preimage request) = sha256 L (request_preimage request')"
      using d d' by (simp add: ExactRequestDigest_Inr hex_encode_inj)
  qed (simp_all add: hashed_def)
  then have req: "request = request'" by (rule request_preimage_inj)
  have "sha256 L p = sha256 L p' \<longrightarrow> p = p'" using assms(5) p p' unfolding inj_on_def hashed_def by blast
  from bound_values [OF p p' assms(3,4) this] have "map_of vs = map_of vs'" ..
  with req m f show ?thesis unfolding fence_verified matches_fence_def by auto
qed

definition instance_preimages :: "agreement_lib \<Rightarrow> AuthorityInstanceAllocationRequest \<Rightarrow> u64 \<Rightarrow> bytes set" where
  "instance_preimages L r n = {p. \<exists>d j. AuthorityInstanceAllocationRequestDigest L r = Inr d \<and>
     DeriveStableActionID L ''authority.instance'' (instance_fields r d n) = Inr (j, p)}"

text \<open>C39: Authority instances are distinct: an instance identifier determines the principals, the purpose, the
  mandate, the digest of the allocation request and the allocation sequence, unless SHA-256 collides.\<close>

theorem authority_instance_ids_distinct:
  assumes "DeriveAuthorityInstanceID L r n = Inr i" "DeriveAuthorityInstanceID L r' n' = Inr i"
    and "inj_on (sha256 L) (instance_preimages L r n \<union> instance_preimages L r' n')"
  shows "n = n' \<and> al_OwnerID r = al_OwnerID r' \<and> al_AgentID r = al_AgentID r' \<and> al_PurposeKind r = al_PurposeKind r' \<and>
    al_MandateDigest r = al_MandateDigest r' \<and>
    AuthorityInstanceAllocationRequestDigest L r = AuthorityInstanceAllocationRequestDigest L r'"
proof -
  have unpack: "\<exists>d p. AuthorityInstanceAllocationRequestDigest L r = Inr d \<and>
      DeriveStableActionID L ''authority.instance'' (instance_fields r d n) = Inr (i, p)" if "DeriveAuthorityInstanceID L r n = Inr i" for r n
    using that by (auto simp: DeriveAuthorityInstanceID_def bind_simps split: sum.splits if_splits)
  obtain d p where d: "AuthorityInstanceAllocationRequestDigest L r = Inr d"
    "DeriveStableActionID L ''authority.instance'' (instance_fields r d n) = Inr (i, p)" using unpack [OF assms(1)] by blast
  obtain d' p' where d': "AuthorityInstanceAllocationRequestDigest L r' = Inr d'"
    "DeriveStableActionID L ''authority.instance'' (instance_fields r' d' n') = Inr (i, p')" using unpack [OF assms(2)] by blast
  have "sha256 L p = sha256 L p' \<longrightarrow> p = p'" using assms(3) d d' unfolding inj_on_def instance_preimages_def by blast
  moreover have "distinct (map fst (instance_fields r d n))" for r d n by (simp add: instance_fields_def)
  ultimately have eq: "map_of (instance_fields r d n) = map_of (instance_fields r' d' n')"
    using bound_values [OF d(2) d'(2)] by blast
  have "map_of (instance_fields r d n) k = map_of (instance_fields r' d' n') k" for k using eq by simp
  from this [of "''owner_id''"] this [of "''agent_id''"] this [of "''purpose_kind''"] this [of "''mandate_digest''"]
    this [of "''allocation_request_digest''"] this [of "''authority_allocation_sequence''"]
  show ?thesis using d(1) d'(1)
    by (auto simp: instance_fields_def ID_def Kind_def Digest32_def U64_def semanticText_def str_bytes_inj dest: PutUint64_inj)
qed

subsection \<open>A concrete fence and action\<close>

text \<open>A library that encodes every value as no bytes, hashes to copies of the first byte and accepts its own
  signatures.\<close>

definition first_byte_hash :: "bytes \<Rightarrow> bytes" where
  "first_byte_hash b = replicate 32 (case b of [] \<Rightarrow> 0 | w # _ \<Rightarrow> w)"

definition accepting_lib :: agreement_lib where
  "accepting_lib = \<lparr>cborEncode = (\<lambda>_. Some []), cborDecode = (\<lambda>_. None), jsonLen = (\<lambda>_. 0), sha256 = first_byte_hash,
     decodeAcceptance = (\<lambda>_. None), publicKeyOf = (\<lambda>_. replicate 32 0), edSign = (\<lambda>_ _. replicate 64 0), edVerify = (\<lambda>_ _ _. True)\<rparr>"

lemma accepting_laws: "ed25519_lawful accepting_lib" "length (sha256 accepting_lib b) = 32" "length (sha256 (codec_of accepting_lib) b) = 32"
  by (simp_all add: ed25519_lawful_def accepting_lib_def first_byte_hash_def codec_lib.defs)

lemma accepting_marshal:
  assumes "json_fits 0 j" "json_count j \<le> MaxTotalItems"
  shows "Marshal (codec_of accepting_lib) j = Inr []"
proof -
  obtain v where "decodeJSONModel (tokens j) = Inr v" using fits_decodes [OF assms] by (auto simp: is_ok_iff)
  then show ?thesis by (simp add: Marshal_def accepting_lib_def codec_lib.defs MaxCanonicalBytes_def)
qed

lemma accepting_digest:
  assumes "json_fits 0 j" "json_count j \<le> MaxTotalItems" "validateDomain d"
  shows "\<exists>x. Digest (codec_of accepting_lib) d j = Inr x \<and> canonicalDigestPattern x"
  using accepting_marshal [OF assms(1,2)] assms(3) canonical_digest accepting_laws(3) by (simp add: Digest_def)

definition sample_fence_body :: WriterFenceBody where
  "sample_fence_body = \<lparr>fb_SchemaVersion = 1, fb_OwnerID = ''o'', fb_AgentID = ''a'', fb_InstanceID = ''i'', fb_LeaseID = ''l'',
     fb_WriterGeneration = 1, fb_IssuedAtUnix = 100, fb_ExpiresAtUnix = 200, fb_AuthorityID = ''u'', fb_Scope = [raise_floor]\<rparr>"

definition sample_fence :: WriterFence where
  "sample_fence = \<lparr>FenceBody = sample_fence_body, FencePublicKey = ''ed25519:'' @ hex_encode (replicate 32 0),
     FenceProof = ''ed25519:'' @ rawurl_encode (replicate 64 0)\<rparr>"

lemmas bounded_literal = bounded_graphic [unfolded graphic_def]

lemma fence_fits: "json_fits 0 (fence_body_json sample_fence_body) \<and> json_count (fence_body_json sample_fence_body) \<le> 20"
  "json_fits 0 (fence_json sample_fence) \<and> json_count (fence_json sample_fence) \<le> 30"
  by (auto simp: fence_json_def sample_fence_def fence_body_json_def sample_fence_body_def tag_simps good_literal graphic_def MaxCollectionItems_def
     MaxNestedLevels_def sample_texts_good simp del: append_Cons)

lemma fence_body_ok: "validateWriterFenceBody sample_fence_body = Inr ()"
  using raise_floor_entry by (simp add: validateWriterFenceBody_def sample_fence_body_def validateSortedStrings_def bounded_graphic graphic_def)

lemma sample_fence_signed: "SignWriterFence accepting_lib sample_fence_body (replicate 64 0) = Inr sample_fence"
  using accepting_marshal [of "fence_body_json sample_fence_body"] fence_fits(1)
  by (simp add: SignWriterFence_def fence_body_ok MaxTotalItems_def) (simp add: sample_fence_def accepting_lib_def)

definition unsigned_action :: AuthorizedAction where
  "unsigned_action = \<lparr>aa_SchemaVersion = 1, aa_OwnerID = ''o'', aa_AgentID = ''a'', aa_ActionKind = raise_floor,
     aa_StableActionID = ''sha256:'' @ hex_encode (replicate 32 84), aa_ExactRequestDigest = ''sha256:'' @ hex_encode (replicate 32 116),
     aa_WriterGeneration = 1, aa_WriterFenceDigest = ''sha256:'' @ hex_encode (replicate 32 84), aa_PolicyRevision = 1,
     aa_MandateDigest = zero_digest, aa_ApprovalDigest = [], aa_ExpectedPriorState = ''prior'', aa_ExpiresAtUnix = 150,
     aa_AuthorityID = ''u'', aa_AuthorityPublicKey = [], aa_AuthorizationProof = []\<rparr>"

lemma known_raise_floor: "known_kind raise_floor"
  by (simp add: known_kind_def raise_floor_entry) (simp add: action_entry_def)

lemma sample_shape: "validateAuthorizedActionShape unsigned_action = Inr ()"
  using zero_digest_good(2) canonical_digest [of "replicate 32 84"] canonical_digest [of "replicate 32 116"] known_raise_floor
  by (simp add: validateAuthorizedActionShape_def unsigned_action_def bounded_graphic graphic_def del: hex_encode.simps)

lemma sample_stable_id: "\<exists>p. DeriveStableActionID accepting_lib raise_floor sample_action = Inr (aa_StableActionID unsigned_action, 84 # p)"
proof -
  obtain i p where ip: "DeriveStableActionID accepting_lib raise_floor sample_action = Inr (i, p)"
    using raise_floor_derives rev_sample(3) by blast
  then obtain q where p: "p = 84 # q" by (auto simp: derive_parts str_bytes_def)
  have "i = ''sha256:'' @ hex_encode (sha256 accepting_lib p)" by (rule derive_id [OF ip])
  then have "i = aa_StableActionID unsigned_action"
    by (simp add: p accepting_lib_def first_byte_hash_def unsigned_action_def del: hex_encode.simps)
  with ip p show ?thesis by blast
qed

lemma sample_fence_digest: "WriterFenceDigest accepting_lib sample_fence = Inr (aa_WriterFenceDigest unsigned_action)"
proof -
  have "Marshal (codec_of accepting_lib) (fence_json sample_fence) = Inr []"
    using fence_fits(2) by (intro accepting_marshal) (simp_all add: MaxTotalItems_def)
  moreover have "validateDomain ''tos.writer-fence-envelope.v1''" by (simp add: validateDomain_def in_range_def)
  moreover have "sha256 (codec_of accepting_lib) (digest_preimage d e) = replicate 32 84" for d e
    by (simp add: accepting_lib_def codec_lib.defs first_byte_hash_def digest_preimage_def str_bytes_def)
  ultimately have "Digest (codec_of accepting_lib) ''tos.writer-fence-envelope.v1'' (fence_json sample_fence) = Inr (aa_WriterFenceDigest unsigned_action)"
    by (simp add: Digest_def unsigned_action_def del: hex_encode.simps)
  moreover have "parseEd25519PublicKey (FencePublicKey sample_fence) \<noteq> None" "parseEd25519Signature (FenceProof sample_fence) \<noteq> None"
    using parse_key_text [of "replicate 32 0"] parse_signature_text [of "replicate 64 0"] by (simp_all only: sample_fence_def WriterFence.simps length_replicate) simp_all
  moreover have "FenceBody sample_fence = sample_fence_body" by (simp add: sample_fence_def)
  ultimately show ?thesis by (simp add: WriterFenceDigest_def fence_body_ok)
qed

lemma unsigned_request: "ExactRequestDigest accepting_lib [1] = Inr (aa_ExactRequestDigest unsigned_action)"
proof -
  have "sha256 accepting_lib (request_preimage [1]) = replicate 32 116"
    by (simp add: request_preimage_def accepting_lib_def first_byte_hash_def str_bytes_def)
  then show ?thesis by (simp add: ExactRequestDigest_Inr MaxActionRequestBytes_def unsigned_action_def del: hex_encode.simps)
qed

lemma sample_built:
  "BuildAuthorizedAction accepting_lib ''o'' ''a'' raise_floor sample_action [1] sample_fence 1 zero_digest [] ''prior'' 150 = Inr unsigned_action"
proof -
  obtain p where p: "DeriveStableActionID accepting_lib raise_floor sample_action = Inr (aa_StableActionID unsigned_action, p)"
    using sample_stable_id by blast
  have pr: "validateSemanticActionPrincipals ''o'' ''a'' sample_action = Inr ()"
    by (simp add: validateSemanticActionPrincipals_def principal_is_def sample_action_def ID_def semanticText_def)
  have "\<lparr>aa_SchemaVersion = 1, aa_OwnerID = ''o'', aa_AgentID = ''a'', aa_ActionKind = raise_floor,
      aa_StableActionID = aa_StableActionID unsigned_action, aa_ExactRequestDigest = aa_ExactRequestDigest unsigned_action,
      aa_WriterGeneration = fb_WriterGeneration (FenceBody sample_fence), aa_WriterFenceDigest = aa_WriterFenceDigest unsigned_action,
      aa_PolicyRevision = 1, aa_MandateDigest = zero_digest, aa_ApprovalDigest = [], aa_ExpectedPriorState = ''prior'',
      aa_ExpiresAtUnix = 150, aa_AuthorityID = fb_AuthorityID (FenceBody sample_fence), aa_AuthorityPublicKey = [],
      aa_AuthorizationProof = []\<rparr> = unsigned_action"
    by (simp add: unsigned_action_def sample_fence_def sample_fence_body_def)
  then show ?thesis
    unfolding BuildAuthorizedAction_def p pr unsigned_request sample_fence_digest ebind_simps prod.case Let_def by (simp add: sample_shape)
qed

lemma good_digest: "length b = 32 \<Longrightarrow> good_string (''sha256:'' @ hex_encode b)"
proof (rule good_literal)
  have "is_lower_hex c \<Longrightarrow> graphic c" for c by (auto simp: is_lower_hex_def graphic_def Let_def)
  then have "list_all graphic (hex_encode b)" using lower_hex_encode [of b] by (auto simp: lower_hex_def list_all_iff)
  then show "length (''sha256:'' @ hex_encode b) \<le> 1048576 \<and> list_all graphic (''sha256:'' @ hex_encode b)" if "length b = 32"
    using that by (simp add: graphic_def)
qed

lemma sample_sign: "\<exists>s. SignAuthorizedAction accepting_lib unsigned_action (replicate 64 0) = Inr s"
proof -
  let ?k = "unsigned_action\<lparr>aa_AuthorityPublicKey := ''ed25519:'' @ hex_encode (replicate 32 0)\<rparr>"
  have good: "good_string (aa_StableActionID unsigned_action)" "good_string (aa_ExactRequestDigest unsigned_action)"
    "good_string (aa_WriterFenceDigest unsigned_action)"
    using good_digest [of "replicate 32 84"] good_digest [of "replicate 32 116"] by (simp_all add: unsigned_action_def del: hex_encode.simps)
  have rest: "aa_SchemaVersion unsigned_action = 1" "aa_OwnerID unsigned_action = ''o''" "aa_AgentID unsigned_action = ''a''"
    "aa_ActionKind unsigned_action = raise_floor" "aa_MandateDigest unsigned_action = zero_digest" "aa_ApprovalDigest unsigned_action = []"
    "aa_ExpectedPriorState unsigned_action = ''prior''" "aa_AuthorityID unsigned_action = ''u''" "aa_AuthorizationProof unsigned_action = []"
    by (simp_all add: unsigned_action_def)
  have "json_fits 0 (action_json ?k) \<and> json_count (action_json ?k) \<le> 30"
    unfolding action_json_def using good sample_texts_good(1) zero_digest_good(1)
    by (simp add: rest tag_simps good_literal graphic_def MaxCollectionItems_def MaxNestedLevels_def del: append_Cons hex_encode.simps)
  then have "Marshal (codec_of accepting_lib) (action_json ?k) = Inr []" by (intro accepting_marshal) (simp_all add: MaxTotalItems_def)
  moreover have "?k\<lparr>aa_AuthorizationProof := []\<rparr> = ?k" by (simp add: unsigned_action_def)
  ultimately have "\<exists>m. authorizedActionSignatureMessage accepting_lib ?k = Inr m" by (simp add: authorizedActionSignatureMessage_def)
  moreover have "publicKeyOf accepting_lib k = replicate 32 0" for k by (simp add: accepting_lib_def)
  moreover have "aa_AuthorityPublicKey unsigned_action = []" "aa_AuthorizationProof unsigned_action = []" by (simp_all add: unsigned_action_def)
  ultimately show ?thesis by (auto simp: SignAuthorizedAction_def sample_shape Let_def)
qed

lemma scope_granted: "containsSorted (fb_Scope sample_fence_body) raise_floor"
  by (simp add: containsSorted_def sample_fence_body_def search_strings.simps)

lemma sample_times:
  "v \<in> {100..140} \<Longrightarrow> v * 1000000000 < time_unix 150 \<and> v * 1000000000 < time_unix (fb_ExpiresAtUnix sample_fence_body) \<and>
   time_unix (fb_IssuedAtUnix sample_fence_body) - MaxIntentClockSkew \<le> v * 1000000000 \<and> (150 :: u64) \<le> fb_ExpiresAtUnix sample_fence_body"
  by (simp add: sample_fence_body_def time_unix_def MaxIntentClockSkew_def Minute_def)


lemma sample_verified:
  assumes "SignAuthorizedAction accepting_lib unsigned_action (replicate 64 0) = Inr s" "v \<in> {100..140}" "t \<in> {100..140}"
  shows "VerifyAuthorizedActionAtAuthorityTime accepting_lib s sample_action [1] sample_fence (Some (\<lambda>_ _ _. Inr ())) (v * 1000000000) (t * 1000000000) = Inr ()"
  using built_action_verifies [OF accepting_laws(1) sample_fence_signed, of raise_floor sample_action "[1]" 1 zero_digest "[]" "''prior''" 150
      unsigned_action s "\<lambda>_ _ _. Inr ()" "t * 1000000000" "v * 1000000000"] assms sample_built scope_granted sample_times [of v] sample_times [of t]
  by (simp add: sample_fence_body_def)

theorem authorized_action_is_exact_witness:
  "\<exists>s. VerifyAuthorizedActionAtAuthorityTime accepting_lib s sample_action [1] sample_fence (Some (\<lambda>_ _ _. Inr ())) (120 * 1000000000) (110 * 1000000000) = Inr () \<and>
     fb_WriterGeneration (FenceBody sample_fence) = aa_WriterGeneration s"
proof -
  obtain s where s: "SignAuthorizedAction accepting_lib unsigned_action (replicate 64 0) = Inr s" using sample_sign by blast
  have v: "VerifyAuthorizedActionAtAuthorityTime accepting_lib s sample_action [1] sample_fence (Some (\<lambda>_ _ _. Inr ())) (120 * 1000000000) (110 * 1000000000) = Inr ()"
    and w: "VerifyAuthorizedActionAtAuthorityTime accepting_lib s sample_action [1] sample_fence (Some (\<lambda>_ _ _. Inr ())) (130 * 1000000000) (130 * 1000000000) = Inr ()"
    using sample_verified [OF s, of 120 110] sample_verified [OF s, of 130 130] by simp_all
  have "aa_ActionKind s = raise_floor" by (subst action_signed(1) [OF accepting_laws(1) s]) (simp add: unsigned_action_def)
  then obtain p where h: "hashed accepting_lib s sample_action [1] = {request_preimage [1], 84 # p}"
    using sample_stable_id unfolding hashed_def by fastforce
  have ne: "replicate 32 (84 :: u8) \<noteq> replicate 32 116" by (simp add: replicate_eq_replicate)
  have "sha256 accepting_lib (request_preimage [1]) = replicate 32 116" "sha256 accepting_lib (84 # p) = replicate 32 84"
    by (simp_all add: request_preimage_def accepting_lib_def first_byte_hash_def str_bytes_def)
  then have "inj_on (sha256 accepting_lib) (hashed accepting_lib s sample_action [1] \<union> hashed accepting_lib s sample_action [1])"
    unfolding h using ne by (auto simp: inj_on_def)
  from authorized_action_is_exact [OF v w rev_sample(1,1) this] v show ?thesis by blast
qed

definition sample_allocation :: AuthorityInstanceAllocationRequest where
  "sample_allocation = \<lparr>al_OwnerID = ''o'', al_AgentID = ''a'', al_PurposeKind = ''p'', al_MandateDigest = zero_digest,
     al_ApprovalDigestOrZero = zero_digest, al_DownstreamEffectDescriptorDigest = zero_digest,
     al_PredecessorAuthorityInstanceID = zero_digest\<rparr>"

lemma sample_allocation_digest: "\<exists>d. AuthorityInstanceAllocationRequestDigest accepting_lib sample_allocation = Inr d \<and> canonicalDigestPattern d"
proof -
  have "json_fits 0 (allocation_json sample_allocation) \<and> json_count (allocation_json sample_allocation) \<le> 20"
    by (simp add: allocation_json_def sample_allocation_def tag_simps good_literal graphic_def MaxCollectionItems_def MaxNestedLevels_def zero_digest_good)
  then have "Marshal (codec_of accepting_lib) (allocation_json sample_allocation) = Inr []" by (intro accepting_marshal) (simp_all add: MaxTotalItems_def)
  moreover have "canonicalDigestPattern (''sha256:'' @ hex_encode (framedSHA256 accepting_lib d b))" for d b
    by (rule canonical_digest) (simp add: framedSHA256_def accepting_laws)
  ultimately show ?thesis
    using zero_digest_good(2)
    by (simp add: AuthorityInstanceAllocationRequestDigest_def sample_allocation_def bounded_graphic graphic_def canonicalLowerToken_def
      token_char_def in_range_def canonicalDigestOrZero_def)
qed

lemma authority_instance_entry:
  "map_of semanticActionRegistry ''authority.instance'' = Some (action_entry ''authority.instance'' SuccessorNone
     [fd ''owner_id'' SemanticID, fd ''agent_id'' SemanticID, fd ''purpose_kind'' SemanticKind, fd ''mandate_digest'' SemanticDigest32,
      fd ''allocation_request_digest'' SemanticDigest32, fd ''authority_allocation_sequence'' SemanticU64])"
  by (rule registered) (simp_all only: entries_def list.set insert_iff simp_thms action_entry_def SemanticActionEntry.simps)

lemma field_ok_Kind: "map_of vs n = Some (Kind v) \<Longrightarrow> canonicalLowerToken v \<Longrightarrow> field_ok vs (fd n SemanticKind)"
  using canonical_Kind [of v n] by (simp add: field_ok_def) (simp add: fd_def Kind_def semanticText_def)

theorem authority_instance_ids_distinct_witness:
  "\<exists>i. DeriveAuthorityInstanceID accepting_lib sample_allocation 7 = Inr i \<and> (7 :: u64) = 7 \<and>
     al_OwnerID sample_allocation = al_OwnerID sample_allocation"
proof -
  obtain d where d: "AuthorityInstanceAllocationRequestDigest accepting_lib sample_allocation = Inr d" "canonicalDigestPattern d"
    using sample_allocation_digest by blast
  let ?vs = "instance_fields sample_allocation d 7"
  have vs: "map_of ?vs ''owner_id'' = Some (ID ''o'')" "map_of ?vs ''agent_id'' = Some (ID ''a'')" "map_of ?vs ''purpose_kind'' = Some (Kind ''p'')"
    "map_of ?vs ''mandate_digest'' = Some (Digest32 zero_digest)" "map_of ?vs ''allocation_request_digest'' = Some (Digest32 d)"
    "map_of ?vs ''authority_allocation_sequence'' = Some (U64 7)"
    by (simp_all add: instance_fields_def sample_allocation_def)
  note oks = field_ok_ID [OF vs(1)] field_ok_ID [OF vs(2)] field_ok_Kind [OF vs(3)] field_ok_Digest32 [OF vs(4)] field_ok_Digest32 [OF vs(5)] field_ok_U64 [OF vs(6)]
  have "length ?vs = 6" by (simp add: instance_fields_def)
  then obtain i p where ip: "DeriveStableActionID accepting_lib ''authority.instance'' ?vs = Inr (i, p)"
    using derive_ok [OF authority_instance_entry, of ?vs accepting_lib] d(2) zero_digest_good(2)
    by (auto simp: action_entry_def oks ValidString_ascii ascii_def str_bytes_def canonicalLowerToken_def token_char_def in_range_def)
  then have i: "DeriveAuthorityInstanceID accepting_lib sample_allocation 7 = Inr i" by (simp add: DeriveAuthorityInstanceID_def d(1))
  have "instance_preimages accepting_lib sample_allocation 7 = {p}" using ip d(1) by (auto simp: instance_preimages_def)
  then have "inj_on (sha256 accepting_lib) (instance_preimages accepting_lib sample_allocation 7 \<union> instance_preimages accepting_lib sample_allocation 7)" by simp
  from authority_instance_ids_distinct [OF i i this] i show ?thesis by blast
qed

end
