(* ===== verification/Settlement.thy ===== *)
theory Settlement
  imports Authority
begin

text \<open>
  Billing and settlement, \<^verbatim>\<open>pkg/agentcommerce/billing.go\<close>: the instances of a value-bearing obligation, the
  ledger of payments against one instance, and the arithmetic of atomic and decimal amounts.
\<close>

subsection \<open>Amounts\<close>

definition decimalCoefficient :: "string \<Rightarrow> (int \<times> nat) option" where
  "decimalCoefficient v =
     (if \<not> canonicalDecimal v then None
      else let parts = split_at (CHR ''.'') v;
               scale = (if length parts = 2 then length (parts ! 1) else 0);
               digits = (if length parts = 2 then parts ! 0 @ parts ! 1 else parts ! 0) in
        map_option (\<lambda>c. (c, scale)) (SetString10 digits))"

definition amountCoefficient :: "AgreementAmount \<Rightarrow> (int \<times> nat) option" where
  "amountCoefficient a =
     (if AmountAtomic a \<noteq> [] then map_option (\<lambda>v. (v, 0)) (SetString10 (AmountAtomic a))
      else decimalCoefficient (AmountDecimal a))"

definition alignDecimals :: "int \<Rightarrow> nat \<Rightarrow> int \<Rightarrow> nat \<Rightarrow> int \<times> int \<times> nat" where
  "alignDecimals a scaleA b scaleB =
     (if scaleA < scaleB then (a * 10 ^ (scaleB - scaleA), b, scaleB)
      else if scaleB < scaleA then (a, b * 10 ^ (scaleA - scaleB), scaleA)
      else (a, b, scaleA))"

text \<open>\<^verbatim>\<open>strings.TrimRight(s, "0")\<close> and \<^verbatim>\<open>strings.TrimSuffix(s, ".")\<close>.\<close>

definition trim_zeros :: "string \<Rightarrow> string" where
  "trim_zeros s = rev (dropWhile (\<lambda>c. c = CHR ''0'') (rev s))"

definition trim_suffix_dot :: "string \<Rightarrow> string" where
  "trim_suffix_dot s = (if has_suffix s ''.'' then butlast s else s)"

text \<open>The coefficient is never negative here: it is a sum of two coefficients or a difference that the
  comparison before has found not to be.\<close>

definition formatDecimal :: "int \<Rightarrow> nat \<Rightarrow> string" where
  "formatDecimal coefficient scale =
     (if coefficient = 0 then ''0''
      else let digits = format_int coefficient in
        if scale = 0 then digits
        else let padded = (if length digits \<le> scale then replicate (scale - length digits + 1) (CHR ''0'') @ digits else digits);
                 cut = length padded - scale in
          trim_suffix_dot (trim_zeros (take cut padded @ ''.'' @ drop cut padded)))"

definition same_asset :: "AgreementAmount \<Rightarrow> AgreementAmount \<Rightarrow> bool" where
  "same_asset a b = (AssetNamespace a = AssetNamespace b \<and> AssetIdentifier a = AssetIdentifier b \<and> AmountUnit a = AmountUnit b)"

definition same_profile :: "AgreementAmount \<Rightarrow> AgreementAmount \<Rightarrow> bool" where
  "same_profile a b = ((AmountAtomic a = []) = (AmountAtomic b = []))"

definition exceedsAggregate :: "AgreementAmount \<Rightarrow> u64 \<Rightarrow> AgreementAmount \<Rightarrow> bool" where
  "exceedsAggregate amount instances maximum =
     (if \<not> same_asset amount maximum \<or> \<not> same_profile amount maximum then True
      else case (amountCoefficient amount, amountCoefficient maximum) of
        (Some (per, perScale), Some (cap, capScale)) \<Rightarrow>
          (case alignDecimals per perScale cap capScale of (per, cap, _) \<Rightarrow> per * int (unat instances) > cap)
      | _ \<Rightarrow> True)"

definition cmp :: "int \<Rightarrow> int \<Rightarrow> int" where
  "cmp a b = (if a < b then - 1 else if a = b then 0 else 1)"

definition compareAmounts :: "AgreementAmount \<Rightarrow> AgreementAmount \<Rightarrow> int" where
  "compareAmounts x y =
     (if \<not> same_profile x y \<or> \<not> same_asset x y then 2
      else if AmountAtomic x \<noteq> [] then
        (case (SetString10 (AmountAtomic x), SetString10 (AmountAtomic y)) of (Some a, Some b) \<Rightarrow> cmp a b | _ \<Rightarrow> 2)
      else case (decimalCoefficient (AmountDecimal x), decimalCoefficient (AmountDecimal y)) of
        (Some (a, scaleA), Some (b, scaleB)) \<Rightarrow> (case alignDecimals a scaleA b scaleB of (a, b, _) \<Rightarrow> cmp a b)
      | _ \<Rightarrow> 2)"

text \<open>The sum or difference of two amounts of one profile, in the fields of the first. A string that is no
  integer gives a nil \<^verbatim>\<open>big.Int\<close>, on which the arithmetic panics.\<close>

definition combineAmounts :: "(int \<Rightarrow> int \<Rightarrow> int) \<Rightarrow> AgreementAmount \<Rightarrow> AgreementAmount \<Rightarrow> agreement_error + AgreementAmount" where
  "combineAmounts f x y =
     (if AmountAtomic x \<noteq> [] then
        (case (SetString10 (AmountAtomic x), SetString10 (AmountAtomic y)) of
           (Some a, Some b) \<Rightarrow> Inr (x\<lparr>AmountAtomic := format_int (f a b)\<rparr>)
         | _ \<Rightarrow> Inl (Panicked (Err ''nil integer'')))
      else case (decimalCoefficient (AmountDecimal x), decimalCoefficient (AmountDecimal y)) of
        (Some (a, scaleA), Some (b, scaleB)) \<Rightarrow>
          (case alignDecimals a scaleA b scaleB of (a, b, scale) \<Rightarrow> Inr (x\<lparr>AmountDecimal := formatDecimal (f a b) scale\<rparr>))
      | _ \<Rightarrow> Inl (Err ''decimal amount is invalid''))"

definition addAmounts :: "AgreementAmount \<Rightarrow> AgreementAmount \<Rightarrow> agreement_error + AgreementAmount" where
  "addAmounts x y =
     (if \<not> same_asset x y \<or> \<not> same_profile x y then Inl (Err ''payment arithmetic requires matching amount profiles'')
      else combineAmounts (+) x y)"

definition subtractAmounts :: "AgreementAmount \<Rightarrow> AgreementAmount \<Rightarrow> agreement_error + AgreementAmount" where
  "subtractAmounts x y =
     (if compareAmounts x y < 0 \<or> \<not> same_profile x y then Inl (Err ''invalid amount subtraction'')
      else combineAmounts (-) x y)"

definition amountIsZero :: "AgreementAmount \<Rightarrow> bool" where
  "amountIsZero a = (AmountAtomic a = ''0'' \<or> AmountDecimal a = ''0'')"

subsection \<open>Obligations and their ledger\<close>

record SettlementObligation =
  so_AgreementBodyDigest :: string
  so_AgreementObligationID :: string
  so_ObligationInstanceID :: string
  so_Sequence :: u64
  so_PredecessorInstanceID :: string
  so_PayerAgentID :: string
  so_PayeeAgentID :: string
  so_Amount :: AgreementAmount
  so_NotBeforeUnix :: u64
  so_DueAtUnix :: u64
  so_ExpiresAtUnix :: u64
  so_MaximumAggregateAmount :: AgreementAmount
  so_SettlementAdapterURI :: string
  so_SettlementParametersDigest :: string
  so_MandateDigest :: string
  so_StableActionID :: string

definition settlement_json :: "SettlementObligation \<Rightarrow> json" where
  "settlement_json b = JObject
     (plain ''agreement_body_digest'' (JString (so_AgreementBodyDigest b)) @
      plain ''agreement_obligation_id'' (JString (so_AgreementObligationID b)) @
      plain ''obligation_instance_id'' (JString (so_ObligationInstanceID b)) @ plain ''sequence'' (juint (so_Sequence b)) @
      opt_str ''predecessor_instance_id'' (so_PredecessorInstanceID b) @
      plain ''payer_agent_id'' (JString (so_PayerAgentID b)) @ plain ''payee_agent_id'' (JString (so_PayeeAgentID b)) @
      plain ''amount'' (amount_json (so_Amount b)) @ opt_uint ''not_before_unix'' (so_NotBeforeUnix b) @
      opt_uint ''due_at_unix'' (so_DueAtUnix b) @ opt_uint ''expires_at_unix'' (so_ExpiresAtUnix b) @
      plain ''maximum_aggregate_amount'' (amount_json (so_MaximumAggregateAmount b)) @
      plain ''settlement_adapter_uri'' (JString (so_SettlementAdapterURI b)) @
      plain ''settlement_parameters_digest'' (JString (so_SettlementParametersDigest b)) @
      opt_str ''mandate_digest'' (so_MandateDigest b) @ plain ''stable_action_id'' (JString (so_StableActionID b)))"

definition SettlementPending :: string where "SettlementPending = ''pending''"
definition SettlementPartiallyPaid :: string where "SettlementPartiallyPaid = ''partially_paid''"
definition SettlementPaid :: string where "SettlementPaid = ''paid''"
definition SettlementOverdue :: string where "SettlementOverdue = ''overdue''"
definition SettlementCancelled :: string where "SettlementCancelled = ''cancelled''"
definition SettlementDisputed :: string where "SettlementDisputed = ''disputed''"
definition SettlementWrittenOff :: string where "SettlementWrittenOff = ''written_off''"

lemmas settlement_states = SettlementPending_def SettlementPartiallyPaid_def SettlementPaid_def SettlementOverdue_def
  SettlementCancelled_def SettlementDisputed_def SettlementWrittenOff_def

record SettlementObligationState =
  ss_ObligationDigest :: string
  ss_State :: string
  ss_AppliedPaymentEvidence :: "string list"
  ss_PaidToDate :: AgreementAmount
  ss_OutstandingAmount :: AgreementAmount
  ss_StateRevision :: u64
  ss_EvidenceRefs :: "string list"

definition ValidateSettlementObligation :: "SettlementObligation \<Rightarrow> agreement_error + unit" where
  "ValidateSettlementObligation b =
     (if \<not> canonicalDigestPattern (so_AgreementBodyDigest b) \<or> \<not> boundedIdentifier (so_AgreementObligationID b) 128 \<or>
         \<not> canonicalDigestPattern (so_ObligationInstanceID b) \<or> so_Sequence b = 0 \<or>
         so_PredecessorInstanceID b \<noteq> [] \<and> \<not> canonicalDigestPattern (so_PredecessorInstanceID b) \<or>
         \<not> boundedIdentifier (so_PayerAgentID b) 256 \<or> \<not> boundedIdentifier (so_PayeeAgentID b) 256 \<or>
         \<not> is_ok (validateAgreementAmount (so_Amount b)) \<or> \<not> is_ok (validateAgreementAmount (so_MaximumAggregateAmount b)) \<or>
         \<not> boundedIdentifier (so_SettlementAdapterURI b) 256 \<or> \<not> canonicalDigestPattern (so_SettlementParametersDigest b) \<or>
         so_MandateDigest b \<noteq> [] \<and> \<not> canonicalDigestPattern (so_MandateDigest b) \<or>
         \<not> canonicalDigestPattern (so_StableActionID b)
      then Inl (Err ''settlement obligation is invalid'')
      else if so_NotBeforeUnix b \<noteq> 0 \<and> so_ExpiresAtUnix b \<noteq> 0 \<and> so_NotBeforeUnix b \<ge> so_ExpiresAtUnix b \<or>
              so_DueAtUnix b \<noteq> 0 \<and> so_ExpiresAtUnix b \<noteq> 0 \<and> so_DueAtUnix b > so_ExpiresAtUnix b
      then Inl (Err ''settlement obligation time bounds are invalid'')
      else Inr ())"

text \<open>The times of one instance of the obligation.\<close>

definition instance_times :: "AgreementObligation \<Rightarrow> u64 \<Rightarrow> agreement_error + u64 \<times> u64 \<times> u64" where
  "instance_times b offset =
     (let notBefore = NotBeforeUnix b; due = DueAtUnix b; expires = ObligationExpiresAtUnix b in
      case ObligationBillingTerms b of
        None \<Rightarrow> Inr (notBefore, due, expires)
      | Some t \<Rightarrow>
          if BillingKind t \<noteq> ''periodic'' then Inr (notBefore, due, expires)
          else let increment = offset * RecurrenceIntervalSecs t;
                   notBefore = RecurrenceStartUnix t + increment;
                   due = (if due = 0 \<or> due < notBefore then notBefore else due);
                   expires = (if expires = 0 \<or> expires > RecurrenceEndUnix t then RecurrenceEndUnix t else expires) in
            if notBefore \<ge> expires then Inl (Err ''periodic billing instance falls outside recurrence bounds'')
            else Inr (notBefore, due, expires))"

definition instance_identity_json :: "string \<Rightarrow> string \<Rightarrow> u64 \<Rightarrow> string \<Rightarrow> json" where
  "instance_identity_json agreementDigest obligationID sequence predecessor = JObject
     (plain ''agreement_body_digest'' (JString agreementDigest) @ plain ''agreement_obligation_id'' (JString obligationID) @
      plain ''sequence'' (juint sequence) @ opt_str ''predecessor_instance_id'' predecessor)"

definition materialize_fields :: "string \<Rightarrow> string \<Rightarrow> string \<Rightarrow> string \<Rightarrow> u64 \<Rightarrow> semantic_values" where
  "materialize_fields ownerID agentID agreementDigest obligationID sequence =
     [(''owner_id'', ID ownerID), (''agent_id'', ID agentID), (''agreement_body_digest'', Digest32 agreementDigest),
      (''agreement_obligation_id'', ID obligationID), (''sequence'', U64 sequence)]"

text \<open>The loop over the instances: \<open>n\<close> are still to be made, the next at \<open>offset\<close>.\<close>

fun materialize_loop ::
  "agreement_lib \<Rightarrow> string \<Rightarrow> string \<Rightarrow> string \<Rightarrow> string \<Rightarrow> string \<Rightarrow> AgreementObligation \<Rightarrow> AgreementAmount \<Rightarrow> AgreementAmount \<Rightarrow> string
   \<Rightarrow> u64 \<Rightarrow> nat \<Rightarrow> u64 \<Rightarrow> string \<Rightarrow> agreement_error + SettlementObligation list" where
  "materialize_loop L ownerID agentID agreementDigest obligationID mandateDigest b amount maximum parameterDigest firstSequence 0 offset predecessor = Inr []"
| "materialize_loop L ownerID agentID agreementDigest obligationID mandateDigest b amount maximum parameterDigest firstSequence (Suc n) offset predecessor =
     (let sequence = firstSequence + offset in
      ebind (instance_times b offset) (\<lambda>(notBefore, due, expires).
      ebind (codec (Digest (codec_of L) ''tos.settlement-obligation-instance.v1''
          (instance_identity_json agreementDigest obligationID sequence predecessor))) (\<lambda>instanceID.
      ebind (DeriveStableActionID L ''billing.materialize'' (materialize_fields ownerID agentID agreementDigest obligationID sequence))
        (\<lambda>(actionID, _).
      ebind (materialize_loop L ownerID agentID agreementDigest obligationID mandateDigest b amount maximum parameterDigest firstSequence n
          (offset + 1) instanceID) (\<lambda>rest.
        Inr (\<lparr>so_AgreementBodyDigest = agreementDigest, so_AgreementObligationID = obligationID,
              so_ObligationInstanceID = instanceID, so_Sequence = sequence, so_PredecessorInstanceID = predecessor,
              so_PayerAgentID = ObligorAgentID b, so_PayeeAgentID = BeneficiaryAgentID b, so_Amount = amount,
              so_NotBeforeUnix = notBefore, so_DueAtUnix = due, so_ExpiresAtUnix = expires,
              so_MaximumAggregateAmount = maximum, so_SettlementAdapterURI = SettlementAdapterURI b,
              so_SettlementParametersDigest = parameterDigest, so_MandateDigest = mandateDigest,
              so_StableActionID = actionID\<rparr> # rest))))))"

text \<open>How many instances, from which sequence number, up to which aggregate.\<close>

definition billing_plan :: "AgreementObligation \<Rightarrow> AgreementAmount \<Rightarrow> agreement_error + u64 \<times> u64 \<times> AgreementAmount" where
  "billing_plan b amount =
     (case ObligationBillingTerms b of
        None \<Rightarrow> Inr (1, 1, amount)
      | Some t \<Rightarrow> ebind (validateBillingTerms t amount) (\<lambda>_.
          Inr (if BillingKind t = ''periodic'' then RecurrenceCount t else 1, FirstSequence t, MaximumAggregateAmount t)))"

definition MaterializeSettlementObligations ::
  "agreement_lib \<Rightarrow> string \<Rightarrow> string \<Rightarrow> string \<Rightarrow> string \<Rightarrow> string \<Rightarrow> AgreementObligation \<Rightarrow> agreement_error + SettlementObligation list" where
  "MaterializeSettlementObligations L ownerID agentID agreementDigest obligationID mandateDigest b =
     (case Amount b of
        None \<Rightarrow> Inl (Err ''settlement materialization input is invalid'')
      | Some amount \<Rightarrow>
          if \<not> boundedIdentifier ownerID 256 \<or> \<not> boundedIdentifier agentID 256 \<or> \<not> canonicalDigestPattern agreementDigest \<or>
             \<not> boundedIdentifier obligationID 128 \<or> ObligationID b \<noteq> obligationID \<or> \<not> canonicalDigestPattern mandateDigest \<or>
             \<not> is_ok (validateAgreementAmount amount) \<or> \<not> boundedIdentifier (BeneficiaryAgentID b) 256 \<or>
             \<not> boundedIdentifier (SettlementAdapterURI b) 256 \<or> SettlementParameters b = []
          then Inl (Err ''settlement materialization input is invalid'')
          else ebind (billing_plan b amount) (\<lambda>(instances, firstSequence, maximum).
            if exceedsAggregate amount instances maximum
            then Inl (Err ''billing instances exceed the maximum aggregate amount'')
            else ebind (codec (Digest (codec_of L) ''tos.settlement-adapter-parameters.v1'' (jbytes (SettlementParameters b)))) (\<lambda>parameterDigest.
              materialize_loop L ownerID agentID agreementDigest obligationID mandateDigest b amount maximum parameterDigest
                firstSequence (unat instances) 0 [])))"

definition NewSettlementState :: "agreement_lib \<Rightarrow> SettlementObligation \<Rightarrow> agreement_error + SettlementObligationState" where
  "NewSettlementState L b =
     ebind (ValidateSettlementObligation b) (\<lambda>_.
     ebind (codec (Digest (codec_of L) ''tos.settlement-obligation.v1'' (settlement_json b))) (\<lambda>digest.
       Inr \<lparr>ss_ObligationDigest = digest, ss_State = SettlementPending, ss_AppliedPaymentEvidence = [],
            ss_PaidToDate = (if AmountAtomic (so_Amount b) \<noteq> [] then (so_Amount b)\<lparr>AmountAtomic := ''0'', AmountDecimal := []\<rparr>
                             else (so_Amount b)\<lparr>AmountAtomic := [], AmountDecimal := ''0''\<rparr>),
            ss_OutstandingAmount = so_Amount b, ss_StateRevision = 1, ss_EvidenceRefs = []\<rparr>))"

definition ApplyPayment ::
  "agreement_lib \<Rightarrow> SettlementObligationState \<Rightarrow> SettlementObligation \<Rightarrow> string \<Rightarrow> AgreementAmount \<Rightarrow> int
   \<Rightarrow> agreement_error + SettlementObligationState" where
  "ApplyPayment L st b evidenceDigest paid at =
     (if \<not> is_ok (ValidateSettlementObligation b) \<or> \<not> canonicalDigestPattern evidenceDigest \<or>
         \<not> is_ok (validateAgreementAmount paid) \<or> \<not> same_asset paid (so_Amount b)
      then Inl (Err ''payment evidence is invalid'')
      else if codec (Digest (codec_of L) ''tos.settlement-obligation.v1'' (settlement_json b)) \<noteq> Inr (ss_ObligationDigest st) \<or>
              ss_StateRevision st = 0
      then Inl (Err ''settlement state does not match obligation'')
      else if evidenceDigest \<in> set (ss_AppliedPaymentEvidence st) then Inr st
      else if ss_State st \<in> {SettlementPaid, SettlementCancelled, SettlementWrittenOff}
      then Inl (Err ''terminal settlement state cannot accept payment'')
      else if so_ExpiresAtUnix b \<noteq> 0 \<and> \<not> at < time_unix (so_ExpiresAtUnix b)
      then Inl (Err ''payment evidence arrived after obligation expiry'')
      else case addAmounts (ss_PaidToDate st) paid of
        Inl (Panicked e) \<Rightarrow> Inl (Panicked e)
      | Inl _ \<Rightarrow> Inl (Err ''payment exceeds obligation amount'')
      | Inr newTotal \<Rightarrow>
          if compareAmounts newTotal (so_Amount b) > 0 then Inl (Err ''payment exceeds obligation amount'')
          else ebind (subtractAmounts (so_Amount b) newTotal) (\<lambda>outstanding.
            Inr (st\<lparr>ss_AppliedPaymentEvidence := sort (ss_AppliedPaymentEvidence st @ [evidenceDigest]),
                    ss_EvidenceRefs := sort (ss_EvidenceRefs st @ [evidenceDigest]),
                    ss_PaidToDate := newTotal, ss_OutstandingAmount := outstanding, ss_StateRevision := ss_StateRevision st + 1,
                    ss_State := (if amountIsZero outstanding then SettlementPaid else SettlementPartiallyPaid)\<rparr>)))"

definition resolve_allowed :: "SettlementObligation \<Rightarrow> string \<Rightarrow> string \<Rightarrow> int \<Rightarrow> bool" where
  "resolve_allowed b state target at =
     (if target = SettlementOverdue then
        state \<in> {SettlementPending, SettlementPartiallyPaid} \<and> so_DueAtUnix b \<noteq> 0 \<and> \<not> at < time_unix (so_DueAtUnix b)
      else if target = SettlementCancelled then
        state \<in> {SettlementPending, SettlementPartiallyPaid, SettlementOverdue, SettlementDisputed}
      else if target = SettlementDisputed then state \<in> {SettlementPending, SettlementPartiallyPaid, SettlementOverdue}
      else state \<in> {SettlementOverdue, SettlementDisputed})"

fun adjacent_repeat :: "string list \<Rightarrow> bool" where
  "adjacent_repeat (a # b # s) = (a = b \<or> adjacent_repeat (b # s))"
| "adjacent_repeat s = False"

definition ResolveSettlementState ::
  "agreement_lib \<Rightarrow> SettlementObligationState \<Rightarrow> SettlementObligation \<Rightarrow> string \<Rightarrow> string \<Rightarrow> int
   \<Rightarrow> agreement_error + SettlementObligationState" where
  "ResolveSettlementState L st b target evidenceDigest at =
     (if \<not> is_ok (ValidateSettlementObligation b) \<or> \<not> canonicalDigestPattern evidenceDigest \<or> ss_StateRevision st = 0
      then Inl (Err ''settlement state transition evidence is invalid'')
      else if codec (Digest (codec_of L) ''tos.settlement-obligation.v1'' (settlement_json b)) \<noteq> Inr (ss_ObligationDigest st)
      then Inl (Err ''settlement state does not match obligation'')
      else if evidenceDigest \<in> set (ss_EvidenceRefs st) \<and> ss_State st = target then Inr st
      else if target \<notin> {SettlementOverdue, SettlementCancelled, SettlementDisputed, SettlementWrittenOff}
      then Inl (Err ''settlement target requires another evidence profile'')
      else if \<not> resolve_allowed b (ss_State st) target at then Inl (Err ''settlement state transition is not permitted'')
      else let refs = sort (ss_EvidenceRefs st @ [evidenceDigest]) in
        if adjacent_repeat refs then Inl (Err ''settlement evidence conflicts with prior transition'')
        else Inr (st\<lparr>ss_State := target, ss_StateRevision := ss_StateRevision st + 1, ss_EvidenceRefs := refs\<rparr>))"

definition ValidateSettlementState :: "SettlementObligationState \<Rightarrow> agreement_error + unit" where
  "ValidateSettlementState st =
     (if \<not> canonicalDigestPattern (ss_ObligationDigest st) \<or> ss_StateRevision st = 0 \<or>
         \<not> validateSortedDigests (ss_AppliedPaymentEvidence st) 10000 \<or> \<not> validateSortedDigests (ss_EvidenceRefs st) 10000 \<or>
         \<not> is_ok (validateAgreementAmount (ss_PaidToDate st)) \<or> \<not> is_ok (validateAgreementAmount (ss_OutstandingAmount st))
      then Inl (Err ''settlement obligation state is invalid'')
      else if ss_State st \<in> {SettlementPending, SettlementPartiallyPaid, SettlementPaid, SettlementOverdue, SettlementCancelled,
        SettlementDisputed, SettlementWrittenOff}
      then Inr ()
      else Inl (Err ''unknown settlement state''))"

subsection \<open>Atomic amounts\<close>

definition atomic :: "AgreementAmount \<Rightarrow> nat \<Rightarrow> bool" where
  "atomic a n \<longleftrightarrow> AmountAtomic a = dec_string n \<and> AmountDecimal a = []"

lemma dec_string_nonempty [simp]: "dec_string n \<noteq> []"
  using dec_string_digits by simp

lemma dec_string_zero [simp]: "dec_string n = ''0'' \<longleftrightarrow> n = 0"
proof -
  have "dec_string 0 = ''0''" by code_simp
  then show ?thesis using dec_string_inj [of n 0] by simp
qed

lemma format_int_nat [simp]: "format_int (int n) = dec_string n"
  by (simp add: format_int_def)

lemma SetString10_dec_string [simp]: "SetString10 (dec_string n) = Some (int n)"
proof -
  have d: "list_all is_dec_digit (dec_string n)" using dec_string_digits by blast
  then have "is_dec_digit (hd (dec_string n))" by (cases "dec_string n") auto
  then have "hd (dec_string n) \<noteq> CHR ''-''" "hd (dec_string n) \<noteq> CHR ''+''" by (auto simp: is_dec_digit_def)
  with d show ?thesis by (simp add: SetString10_def)
qed

lemma canonical_atomic: "canonicalUnsignedDecimal v \<Longrightarrow> v = dec_string (dec_value v)"
  by (rule dec_string_dec_value [symmetric])
    (auto simp: canonicalUnsignedDecimal_def canonical_dec_def is_dec_digit_def split: if_splits)

lemma valid_atomic:
  assumes "is_ok (validateAgreementAmount a)" "AmountAtomic a \<noteq> []"
  shows "atomic a (dec_value (AmountAtomic a))"
  using assms canonical_atomic by (auto simp: validateAgreementAmount_def atomic_def split: if_splits)

lemma atomic_nonempty: "atomic a n \<Longrightarrow> AmountAtomic a \<noteq> []"
  by (simp add: atomic_def)

lemma atomic_update [simp]: "atomic a n \<Longrightarrow> atomic (a\<lparr>AmountAtomic := dec_string m\<rparr>) k \<longleftrightarrow> m = k"
  by (simp add: atomic_def dec_string_inj)

lemma same_asset_update [simp]:
  "same_asset (a\<lparr>AmountAtomic := s\<rparr>) b = same_asset a b" "same_asset a (b\<lparr>AmountAtomic := s\<rparr>) = same_asset a b"
  by (simp_all add: same_asset_def)

lemma same_asset_equiv: "same_asset a a" "same_asset a b \<Longrightarrow> same_asset b a" "same_asset a b \<Longrightarrow> same_asset b c \<Longrightarrow> same_asset a c"
  by (simp_all add: same_asset_def)


lemma compare_atomic: "atomic x m \<Longrightarrow> atomic y n \<Longrightarrow> same_asset x y \<Longrightarrow> compareAmounts x y = cmp (int m) (int n)"
  by (simp add: compareAmounts_def same_profile_def atomic_def)

lemma add_atomic: "atomic x m \<Longrightarrow> atomic y n \<Longrightarrow> same_asset x y \<Longrightarrow> addAmounts x y = Inr (x\<lparr>AmountAtomic := dec_string (m + n)\<rparr>)"
  by (simp add: addAmounts_def combineAmounts_def same_profile_def atomic_def flip: of_nat_add)

lemma subtract_atomic: "atomic x m \<Longrightarrow> atomic y n \<Longrightarrow> same_asset x y \<Longrightarrow> n \<le> m \<Longrightarrow> subtractAmounts x y = Inr (x\<lparr>AmountAtomic := dec_string (m - n)\<rparr>)"
  using compare_atomic [of x m y n]
  by (simp add: subtractAmounts_def combineAmounts_def same_profile_def atomic_def cmp_def of_nat_diff [symmetric] del: of_nat_diff)


lemma zero_atomic: "atomic x m \<Longrightarrow> amountIsZero x \<longleftrightarrow> m = 0"
  by (simp add: amountIsZero_def atomic_def)

subsection \<open>The ledger of one obligation\<close>

text \<open>What a payment ledger promises: the evidence applied, the sum paid, and a status. A payment is applied once,
  only while the obligation is open, and never beyond the amount.\<close>

record ledger =
  led_status :: string
  led_paid :: nat
  led_applied :: "string set"
  led_refs :: "string multiset"

definition ledger_pay :: "nat \<Rightarrow> bool \<Rightarrow> string \<Rightarrow> nat \<Rightarrow> ledger \<Rightarrow> ledger option" where
  "ledger_pay owed expired evidence amount led =
     (if evidence \<in> led_applied led then Some led
      else if led_status led \<in> {SettlementPaid, SettlementCancelled, SettlementWrittenOff} \<or> expired \<or> led_paid led + amount > owed
      then None
      else Some (led\<lparr>led_status := (if led_paid led + amount = owed then SettlementPaid else SettlementPartiallyPaid),
        led_paid := led_paid led + amount, led_applied := insert evidence (led_applied led),
        led_refs := add_mset evidence (led_refs led)\<rparr>))"

definition resolvable :: "bool \<Rightarrow> string \<Rightarrow> string \<Rightarrow> bool" where
  "resolvable due target status \<longleftrightarrow> (target, status) \<in>
     {SettlementOverdue} \<times> (if due then {SettlementPending, SettlementPartiallyPaid} else {}) \<union>
     {SettlementCancelled} \<times> {SettlementPending, SettlementPartiallyPaid, SettlementOverdue, SettlementDisputed} \<union>
     {SettlementDisputed} \<times> {SettlementPending, SettlementPartiallyPaid, SettlementOverdue} \<union>
     {SettlementWrittenOff} \<times> {SettlementOverdue, SettlementDisputed}"

definition repeats :: "string multiset \<Rightarrow> bool" where
  "repeats m \<longleftrightarrow> (\<exists>e \<in># m. count m e > 1)"

definition ledger_resolve :: "bool \<Rightarrow> string \<Rightarrow> string \<Rightarrow> ledger \<Rightarrow> ledger option" where
  "ledger_resolve due target evidence led =
     (if evidence \<in># led_refs led \<and> led_status led = target then Some led
      else if \<not> resolvable due target (led_status led) \<or> repeats (add_mset evidence (led_refs led)) then None
      else Some (led\<lparr>led_status := target, led_refs := add_mset evidence (led_refs led)\<rparr>))"

definition ledger_of :: "SettlementObligationState \<Rightarrow> ledger" where
  "ledger_of st = \<lparr>led_status = ss_State st, led_paid = dec_value (AmountAtomic (ss_PaidToDate st)),
     led_applied = set (ss_AppliedPaymentEvidence st), led_refs = mset (ss_EvidenceRefs st)\<rparr>"

definition outcome :: "agreement_error + SettlementObligationState \<Rightarrow> ledger option" where
  "outcome r = (case r of Inr st \<Rightarrow> Some (ledger_of st) | Inl _ \<Rightarrow> None)"

text \<open>A state keeps the books of an obligation with an atomic amount.\<close>

definition owed :: "SettlementObligation \<Rightarrow> nat" where
  "owed b = dec_value (AmountAtomic (so_Amount b))"

definition keeps_books :: "agreement_lib \<Rightarrow> SettlementObligation \<Rightarrow> SettlementObligationState \<Rightarrow> bool" where
  "keeps_books L b st \<longleftrightarrow>
     ValidateSettlementObligation b = Inr () \<and> AmountAtomic (so_Amount b) \<noteq> [] \<and>
     codec (Digest (codec_of L) ''tos.settlement-obligation.v1'' (settlement_json b)) = Inr (ss_ObligationDigest st) \<and>
     same_asset (ss_PaidToDate st) (so_Amount b) \<and> same_asset (ss_OutstandingAmount st) (so_Amount b) \<and>
     distinct (ss_AppliedPaymentEvidence st) \<and>
     (\<exists>p q. atomic (ss_PaidToDate st) p \<and> atomic (ss_OutstandingAmount st) q \<and> p + q = owed b \<and>
        (ss_State st = SettlementPaid \<longrightarrow> q = 0) \<and> (ss_State st = SettlementPartiallyPaid \<longrightarrow> q > 0))"

lemma atomic_value [simp]: "atomic a n \<Longrightarrow> dec_value (AmountAtomic a) = n"
  by (simp add: atomic_def)

lemma valid_obligation_amount: "ValidateSettlementObligation b = Inr () \<Longrightarrow> is_ok (validateAgreementAmount (so_Amount b))"
  by (rule ccontr) (simp add: ValidateSettlementObligation_def)

lemma valid_owed:
  "ValidateSettlementObligation b = Inr () \<Longrightarrow> AmountAtomic (so_Amount b) \<noteq> [] \<Longrightarrow> atomic (so_Amount b) (owed b)"
  unfolding owed_def by (rule valid_atomic) (rule valid_obligation_amount)

lemma owed_atomic: "keeps_books L b st \<Longrightarrow> atomic (so_Amount b) (owed b)"
  using valid_owed by (simp add: keeps_books_def)

lemma new_keeps_books:
  assumes "NewSettlementState L b = Inr st" "AmountAtomic (so_Amount b) \<noteq> []"
  shows "keeps_books L b st" "ledger_of st = \<lparr>led_status = SettlementPending, led_paid = 0, led_applied = {}, led_refs = {#}\<rparr>"
    "ss_StateRevision st = 1"
proof -
  from assms obtain d where d: "ValidateSettlementObligation b = Inr ()"
    "codec (Digest (codec_of L) ''tos.settlement-obligation.v1'' (settlement_json b)) = Inr d"
    "st = \<lparr>ss_ObligationDigest = d, ss_State = SettlementPending, ss_AppliedPaymentEvidence = [],
       ss_PaidToDate = (so_Amount b)\<lparr>AmountAtomic := ''0'', AmountDecimal := []\<rparr>,
       ss_OutstandingAmount = so_Amount b, ss_StateRevision = 1, ss_EvidenceRefs = []\<rparr>"
    by (auto simp: NewSettlementState_def ebind_eq_Inr)
  have "atomic (so_Amount b) (owed b)" by (rule valid_owed [OF d(1) assms(2)])
  moreover have "atomic ((so_Amount b)\<lparr>AmountAtomic := ''0'', AmountDecimal := []\<rparr>) 0" by (simp add: atomic_def) (metis dec_string_zero)
  ultimately show "keeps_books L b st" using d assms(2) by (auto simp: keeps_books_def same_asset_def settlement_states)
  show "ledger_of st = \<lparr>led_status = SettlementPending, led_paid = 0, led_applied = {}, led_refs = {#}\<rparr>" "ss_StateRevision st = 1"
    using d(3) by (simp_all add: ledger_of_def dec_value_def)
qed

text \<open>A payment whose input is valid.\<close>

definition payment_ok :: "SettlementObligation \<Rightarrow> string \<Rightarrow> AgreementAmount \<Rightarrow> nat \<Rightarrow> bool" where
  "payment_ok b evidence paid n \<longleftrightarrow> canonicalDigestPattern evidence \<and> is_ok (validateAgreementAmount paid) \<and>
     same_asset paid (so_Amount b) \<and> atomic paid n"

definition has_expired :: "SettlementObligation \<Rightarrow> int \<Rightarrow> bool" where
  "has_expired b at \<longleftrightarrow> so_ExpiresAtUnix b \<noteq> 0 \<and> \<not> at < time_unix (so_ExpiresAtUnix b)"

lemma payment_step:
  assumes "keeps_books L b st" "payment_ok b e paid n" "ss_StateRevision st \<noteq> 0"
    "e \<notin> set (ss_AppliedPaymentEvidence st)" "ss_State st \<notin> {SettlementPaid, SettlementCancelled, SettlementWrittenOff}"
    "\<not> has_expired b at" "atomic (ss_PaidToDate st) p"
  shows "ApplyPayment L st b e paid at =
    (if p + n > owed b then Inl (Err ''payment exceeds obligation amount'')
     else Inr (st\<lparr>ss_AppliedPaymentEvidence := sort (ss_AppliedPaymentEvidence st @ [e]),
        ss_EvidenceRefs := sort (ss_EvidenceRefs st @ [e]), ss_PaidToDate := (ss_PaidToDate st)\<lparr>AmountAtomic := dec_string (p + n)\<rparr>,
        ss_OutstandingAmount := (so_Amount b)\<lparr>AmountAtomic := dec_string (owed b - (p + n))\<rparr>, ss_StateRevision := ss_StateRevision st + 1,
        ss_State := (if p + n = owed b then SettlementPaid else SettlementPartiallyPaid)\<rparr>))"
proof -
  have b: "atomic (so_Amount b) (owed b)" by (rule owed_atomic [OF assms(1)])
  have s: "same_asset (ss_PaidToDate st) paid" "same_asset (ss_PaidToDate st) (so_Amount b)"
    using assms(1,2) by (auto simp: keeps_books_def payment_ok_def same_asset_def)
  let ?t = "(ss_PaidToDate st)\<lparr>AmountAtomic := dec_string (p + n)\<rparr>"
  have t: "addAmounts (ss_PaidToDate st) paid = Inr ?t" using add_atomic [OF assms(7) _ s(1)] assms(2) by (simp add: payment_ok_def)
  have ta: "atomic ?t (p + n)" "same_asset ?t (so_Amount b)" "same_asset (so_Amount b) ?t" using assms(7) s(2) same_asset_equiv(2) by simp_all
  have c: "compareAmounts ?t (so_Amount b) > 0 \<longleftrightarrow> p + n > owed b" using compare_atomic [OF ta(1) b ta(2)] by (simp add: cmp_def)
  have d: "subtractAmounts (so_Amount b) ?t = Inr ((so_Amount b)\<lparr>AmountAtomic := dec_string (owed b - (p + n))\<rparr>)" if "\<not> p + n > owed b"
    using subtract_atomic [OF b ta(1) ta(3)] that by simp
  have z: "amountIsZero ((so_Amount b)\<lparr>AmountAtomic := dec_string (owed b - (p + n))\<rparr>) \<longleftrightarrow> p + n = owed b" if "\<not> p + n > owed b"
    using zero_atomic [of _ "owed b - (p + n)"] b that by (auto simp: atomic_update)
  show ?thesis
    using assms t c d z by (auto simp: ApplyPayment_def keeps_books_def payment_ok_def has_expired_def)
qed

lemma payment_refines:
  assumes "keeps_books L b st" "payment_ok b e paid n" "ss_StateRevision st \<noteq> 0"
  shows "outcome (ApplyPayment L st b e paid at) = ledger_pay (owed b) (has_expired b at) e n (ledger_of st)"
proof -
  obtain p where p: "atomic (ss_PaidToDate st) p" using assms(1) by (auto simp: keeps_books_def)
  have v: "dec_value (AmountAtomic (ss_PaidToDate st)) = p" using p by simp
  show ?thesis
  proof (cases "e \<in> set (ss_AppliedPaymentEvidence st) \<or>
      ss_State st \<in> {SettlementPaid, SettlementCancelled, SettlementWrittenOff} \<or> has_expired b at")
    case True
    then show ?thesis using assms
      by (auto simp: ApplyPayment_def keeps_books_def payment_ok_def has_expired_def outcome_def ledger_pay_def ledger_of_def)
  next
    case False
    then have "ApplyPayment L st b e paid at = (if p + n > owed b then Inl (Err ''payment exceeds obligation amount'')
     else Inr (st\<lparr>ss_AppliedPaymentEvidence := sort (ss_AppliedPaymentEvidence st @ [e]),
        ss_EvidenceRefs := sort (ss_EvidenceRefs st @ [e]), ss_PaidToDate := (ss_PaidToDate st)\<lparr>AmountAtomic := dec_string (p + n)\<rparr>,
        ss_OutstandingAmount := (so_Amount b)\<lparr>AmountAtomic := dec_string (owed b - (p + n))\<rparr>, ss_StateRevision := ss_StateRevision st + 1,
        ss_State := (if p + n = owed b then SettlementPaid else SettlementPartiallyPaid)\<rparr>))"
      by (intro payment_step [OF assms _ _ _ p]) auto
    with False show ?thesis by (auto simp: outcome_def ledger_pay_def ledger_of_def v)
  qed
qed

lemma adjacent_repeat_sorted: "sorted s \<Longrightarrow> adjacent_repeat s \<longleftrightarrow> \<not> distinct s"
proof (induction s rule: adjacent_repeat.induct)
  case (1 a b s)
  then show ?case by (auto simp: order.antisym)
qed auto

lemma distinct_counts: "distinct xs \<longleftrightarrow> (\<forall>x. count (mset xs) x \<le> 1)"
proof
  assume "distinct xs"
  then show "\<forall>x. count (mset xs) x \<le> 1" by (simp add: distinct_count_atmost_1)
next
  show "\<forall>x. count (mset xs) x \<le> 1 \<Longrightarrow> distinct xs"
  proof (induction xs)
    case (Cons a xs)
    from spec [OF Cons.prems, of a] have "a \<notin> set xs" by (simp add: count_eq_zero_iff)
    moreover have "\<forall>x. count (mset xs) x \<le> 1"
    proof
      fix x
      have "count (mset xs) x \<le> count (mset (a # xs)) x" by simp
      also have "\<dots> \<le> 1" using Cons.prems by blast
      finally show "count (mset xs) x \<le> 1" .
    qed
    ultimately show ?case using Cons.IH by simp
  qed simp
qed

lemma repeat_iff: "adjacent_repeat (sort (xs @ [e])) \<longleftrightarrow> repeats (add_mset e (mset xs))"
proof -
  have "adjacent_repeat (sort (xs @ [e])) \<longleftrightarrow> \<not> distinct (xs @ [e])" by (simp add: adjacent_repeat_sorted)
  also have "\<dots> \<longleftrightarrow> (\<exists>x. count (mset (xs @ [e])) x > 1)"
    by (simp only: distinct_counts not_all not_le)
  also have "\<dots> \<longleftrightarrow> (\<exists>x \<in># mset (xs @ [e]). count (mset (xs @ [e])) x > 1)"
    by (metis count_greater_zero_iff less_trans zero_less_one)
  finally show ?thesis by (simp add: repeats_def)
qed

lemma resolution_refines:
  assumes "keeps_books L b st" "canonicalDigestPattern e" "ss_StateRevision st \<noteq> 0"
  shows "outcome (ResolveSettlementState L st b target e at) =
    ledger_resolve (so_DueAtUnix b \<noteq> 0 \<and> \<not> at < time_unix (so_DueAtUnix b)) target e (ledger_of st)"
proof -
  have t: "target \<notin> {SettlementOverdue, SettlementCancelled, SettlementDisputed, SettlementWrittenOff} \<or> \<not> resolve_allowed b (ss_State st) target at \<longleftrightarrow>
     \<not> resolvable (so_DueAtUnix b \<noteq> 0 \<and> \<not> at < time_unix (so_DueAtUnix b)) target (ss_State st)"
    by (auto simp: resolvable_def resolve_allowed_def settlement_states)
  have ok: "is_ok (ValidateSettlementObligation b)"
    "codec (Digest (codec_of L) ''tos.settlement-obligation.v1'' (settlement_json b)) = Inr (ss_ObligationDigest st)"
    using assms(1) by (simp_all add: keeps_books_def)
  show ?thesis
  proof (cases "e \<in> set (ss_EvidenceRefs st) \<and> ss_State st = target")
    case True
    then show ?thesis using assms(2,3) ok by (simp add: ResolveSettlementState_def ledger_resolve_def ledger_of_def outcome_def)
  next
    case False
    then have "ResolveSettlementState L st b target e at =
      (if target \<notin> {SettlementOverdue, SettlementCancelled, SettlementDisputed, SettlementWrittenOff}
       then Inl (Err ''settlement target requires another evidence profile'')
       else if \<not> resolve_allowed b (ss_State st) target at then Inl (Err ''settlement state transition is not permitted'')
       else if adjacent_repeat (sort (ss_EvidenceRefs st @ [e])) then Inl (Err ''settlement evidence conflicts with prior transition'')
       else Inr (st\<lparr>ss_State := target, ss_StateRevision := ss_StateRevision st + 1, ss_EvidenceRefs := sort (ss_EvidenceRefs st @ [e])\<rparr>))"
      unfolding ResolveSettlementState_def Let_def by (simp only: assms(2,3) ok False simp_thms if_False)
    moreover have "ledger_resolve (so_DueAtUnix b \<noteq> 0 \<and> \<not> at < time_unix (so_DueAtUnix b)) target e (ledger_of st) =
      (if target \<notin> {SettlementOverdue, SettlementCancelled, SettlementDisputed, SettlementWrittenOff} \<or> \<not> resolve_allowed b (ss_State st) target at \<or>
         adjacent_repeat (sort (ss_EvidenceRefs st @ [e])) then None
       else Some ((ledger_of st)\<lparr>led_status := target, led_refs := add_mset e (mset (ss_EvidenceRefs st))\<rparr>))"
      using False t by (auto simp: ledger_resolve_def ledger_of_def repeat_iff)
    ultimately show ?thesis by (auto simp: outcome_def ledger_of_def)
  qed
qed

end
