(* ===== verification/Spec2Isabelle.thy ===== *)
theory Spec2Isabelle
  imports Economic Prediction_Market Relay_Journal Budget_Journal Native_Policy Execution_Gate Finality Agreement_Props Settlement
begin

text \<open>
  \<^bold>\<open>Verification of the TOS service protocol\<close>

  The repository is the Go implementation of a protocol by which agents sell work to one another:
  agreements and their evidence (\<^verbatim>\<open>pkg/agentcommerce\<close>), Native objects with their controller policies
  and the relayer that carries signed actions to the chain (\<^verbatim>\<open>pkg/nativecore\<close>), readers of the
  finalized chain (\<^verbatim>\<open>pkg/toschain\<close>), the buyer's and the provider's side of a purchase
  (\<^verbatim>\<open>pkg/buyersdk\<close>, \<^verbatim>\<open>pkg/executiongate\<close>), a prediction market and the public metrics. A purchase runs
  through them in this order: the parties sign an agreement; the buyer's budget journal charges it once
  and grants one funding lease; the relayer's journal grants one broadcast lease per state slot; a quorum
  of nodes shows the finalized escrow; the provider's gate admits the one request it pays for; the metrics
  count the outcome.

  \<^bold>\<open>Theories and sources\<close> (paths under \<^verbatim>\<open>src/\<close>)

  \<^item> \<^verbatim>\<open>Go_Prelude\<close>, \<^verbatim>\<open>Go_Text\<close>: the parts of the Go language and standard library the sources use
    (hexadecimal and decimal text, \<^verbatim>\<open>strings.TrimSpace\<close>, UTF-8, Base64, JSON text, times), with their
    round trips; a Go string is a \<^typ>\<open>string\<close> with one character per byte, \<^verbatim>\<open>uint64\<close> is \<^typ>\<open>64 word\<close>.
  \<^item> \<^verbatim>\<open>Durable_Dir\<close>: the owner-private directories of the journals (\<^verbatim>\<open>atomicCreate\<close>, \<^verbatim>\<open>atomicReplace\<close>).
    Every system call succeeds, fails without effect, or takes effect and then fails. Its locales are the
    contracts of a durable log: a rank that only grows (\<open>monotone_log\<close>), a grant that needs a rank step
    (\<open>phase_log\<close>), bindings that never change (\<open>binding_log\<close>) or change only along a relation
    (\<open>record_log\<close>).
  \<^item> \<^verbatim>\<open>Relay_Journal\<close>: \<^verbatim>\<open>pkg/nativecore/relay_journal.go\<close>; a directory of request and slot files, the
    operations \<^verbatim>\<open>Lookup\<close>, \<^verbatim>\<open>Begin\<close>, \<^verbatim>\<open>AcquireBroadcastLease\<close>, \<^verbatim>\<open>Complete\<close>. At most one lease per slot,
    bindings are final, spend limits hold in every window, a prepared claim can be broadcast.
  \<^item> \<^verbatim>\<open>Budget_Journal\<close>: \<^verbatim>\<open>pkg/buyersdk/journal.go\<close>; the same contracts for the buyer's budget.
  \<^item> \<^verbatim>\<open>Native_Policy\<close>, \<^verbatim>\<open>Native_State\<close>: \<^verbatim>\<open>pkg/nativecore/action.go\<close>, \<^verbatim>\<open>errors.go\<close> and messages of
    \<^verbatim>\<open>gen/tos/service/v1/native.pb.go\<close>; identifiers, controller policies, signatures and proofs of
    possession are accepted exactly when the declarative conditions hold, and an accepted policy can act.
  \<^item> \<^verbatim>\<open>Codec\<close>: \<^verbatim>\<open>pkg/codec/canonical.go\<close>; a value is written as JSON, read back token by token under the
    limits of the protocol, normalised and encoded as deterministic CBOR. Encoding and decoding are inverse
    and a digest binds its domain and its value.
  \<^item> \<^verbatim>\<open>Agreement\<close>, \<^verbatim>\<open>Agreement_Props\<close>: \<^verbatim>\<open>pkg/agentcommerce/agreement.go\<close> with the text checks of
    \<^verbatim>\<open>intent.go\<close> and \<^verbatim>\<open>semantic_action.go\<close>; every function of the file. The depth-first cycle check is
    exact, accepted obligations have an order of discharge, target preparation and validation are inverse,
    a complete authorization covers every predicate once, signed acceptances verify.
  \<^item> \<^verbatim>\<open>Semantic_Action\<close>: \<^verbatim>\<open>pkg/agentcommerce/semantic_action.go\<close>; the registry of action kinds with their typed
    fields, the canonical field values and the stable action identifier. Identifiers are derived exactly for
    well-typed field sets and bind kind and values, the transport form round-trips.
  \<^item> \<^verbatim>\<open>Authority\<close>: \<^verbatim>\<open>pkg/agentcommerce/authority.go\<close>; writer fences, authorized actions, authority instances.
    A built and signed action verifies, and a verified action authorizes one set of fields and one request.
  \<^item> \<^verbatim>\<open>Settlement\<close>: \<^verbatim>\<open>pkg/agentcommerce/billing.go\<close>; the instances of a value-bearing obligation, the payment
    ledger of an instance and the amount arithmetic.
  \<^item> \<^verbatim>\<open>Execution_Gate\<close>: \<^verbatim>\<open>pkg/executiongate\<close>; the gate's construction, its two kinds of claims and the
    durable claim store. One purchase executes one request, an execution is admitted exactly when the chain
    view authorises it, an interrupted claim can be retried.
  \<^item> \<^verbatim>\<open>Finality\<close>: \<^verbatim>\<open>pkg/toschain\<close>; quorum reads and consensus positions, the checkpoint stores and the
    finalized-state resolver. A quorum read has one answer for every arrival order, a resolved state was
    finalized by a quorum, the relay fence neither regresses nor forks.
  \<^item> \<^verbatim>\<open>Prediction_Market\<close>: \<^verbatim>\<open>pkg/predictionmarket/model.go\<close>; every operation of the reference model keeps the
    market collateralised, claims commute and are all paid, matches respect the limit prices.
  \<^item> \<^verbatim>\<open>Economic\<close>: \<^verbatim>\<open>pkg/economic\<close>; the aggregation equals its declarative specification and does not depend
    on the order of the jobs.

  \<^bold>\<open>How the code is modelled\<close>

  A Go error is the left value of a sum, a panic an error of its own where a caller can see it. State is
  passed explicitly; files and in-memory maps are association lists, and an iteration over a Go map is over
  an arbitrary permutation given as an argument. Code outside the repository is a parameter: the CBOR
  library, SHA-256 and Ed25519 (records \<open>codec_lib\<close>, \<open>agreement_lib\<close>), decoding a quote cell
  (\<open>gate_lib\<close>), the answers of nodes and clocks. What the properties need of it is a named hypothesis
  (\<open>cbor_lawful\<close>, \<open>ed25519_lawful\<close>, \<open>reads_back\<close>, \<open>decodes_canonically\<close>) shown to be satisfiable by a
  concrete instance in the witness of each property that has one.

  No definition needs fuel: every loop is structural or has a termination proof (the JSON reader by the
  tokens left, the obligation search by the obligations not yet marked, the text functions by the bytes left).

  \<^bold>\<open>Not modelled\<close>: process, socket and HTTP handling (\<^verbatim>\<open>pkg/servicerpc\<close>, \<^verbatim>\<open>pkg/chain\<close>, the commands under
  \<^verbatim>\<open>cmd\<close>), generated messages beyond the fields that are read, fixtures, and the components that the manifest
  lists as not modelled.
\<close>

end
